(* ===== verification/Prelude.thy ===== *)
theory Prelude
  imports Main "HOL-Library.Word" "HOL-Library.State_Monad" "HOL-Library.Stream"
begin

unbundle bit_operations_syntax

section \<open>Shared notions\<close>

text \<open>
  The machine types of the program, the little-endian byte view of a word that every
  \<^verbatim>\<open>memcpy\<close> and every planted operand goes through, and the bit-field lemmas that the x87 tag
  word needs. The collections below gather what the component proofs hand to the simplifier:
  \<open>bytes\<close> for the byte view, \<open>fields\<close> for two-bit fields of the tag word.
\<close>

named_theorems bytes \<open>little-endian byte views of words\<close>
named_theorems fields \<open>two-bit fields of the x87 tag word\<close>

type_synonym u8 = "8 word"
type_synonym u16 = "16 word"
type_synonym u32 = "32 word"
type_synonym u64 = "64 word"

subsection \<open>Byte views\<close>

text \<open>The bytes a \<^verbatim>\<open>memcpy\<close> of the low \<open>n\<close> bytes of a little-endian value copies, and the value
  that copying bytes over a zeroed object gives back.\<close>

definition le_bytes :: "nat \<Rightarrow> 'a::len word \<Rightarrow> u8 list" where
  "le_bytes n w = map (\<lambda>i. ucast (drop_bit (8 * i) w)) [0..<n]"

definition of_le_bytes :: "u8 list \<Rightarrow> 'a::len word" where
  "of_le_bytes bs = foldr (\<lambda>b acc. ucast b OR push_bit 8 acc) bs 0"

lemma length_le_bytes [simp]: "length (le_bytes n w) = n"
  by (simp add: le_bytes_def)

lemma nth_le_bytes [simp, bytes]: "i < n \<Longrightarrow> le_bytes n w ! i = ucast (drop_bit (8 * i) w)"
  by (simp add: le_bytes_def)

lemma of_le_bytes_Nil [simp]: "of_le_bytes [] = 0"
  by (simp add: of_le_bytes_def)

lemma of_le_bytes_Cons: "of_le_bytes (b # bs) = ucast b OR push_bit 8 (of_le_bytes bs)"
  by (simp add: of_le_bytes_def)

lemma bit_of_le_bytes [bytes]:
  "bit (of_le_bytes bs :: 'a::len word) n \<longleftrightarrow>
     n < LENGTH('a) \<and> n div 8 < length bs \<and> bit (bs ! (n div 8)) (n mod 8)"
proof (induction bs arbitrary: n)
  case Nil
  then show ?case by simp
next
  case (Cons b bs)
  show ?case
  proof (cases "n < 8")
    case True
    then show ?thesis
      by (auto simp: of_le_bytes_Cons bit_or_iff bit_push_bit_iff bit_ucast_iff dest: bit_imp_le_length)
  next
    case False
    then have n: "n div 8 = Suc ((n - 8) div 8)" "n mod 8 = (n - 8) mod 8"
      by (simp_all add: le_div_geq le_mod_geq)
    have "\<not> bit b n" using False by (auto dest: bit_imp_le_length)
    then show ?thesis
      using False n Cons.IH [of "n - 8"]
      by (auto simp: of_le_bytes_Cons bit_or_iff bit_push_bit_iff bit_ucast_iff)
  qed
qed

lemma of_le_bytes_le_bytes [simp]:
  fixes w :: "'a::len word"
  assumes "LENGTH('a) \<le> 8 * n"
  shows "of_le_bytes (le_bytes n w) = w"
proof (rule bit_word_eqI)
  fix k assume k: "k < LENGTH('a)"
  then have "k div 8 < n" using assms by (auto simp: div_less_iff_less_mult)
  then show "bit (of_le_bytes (le_bytes n w) :: 'a word) k \<longleftrightarrow> bit w k"
    using k by (simp add: bit_of_le_bytes bit_ucast_iff bit_drop_bit_eq)
qed

lemma le_bytes_of_le_bytes [simp]:
  assumes "8 * length bs \<le> LENGTH('a)"
  shows "le_bytes (length bs) (of_le_bytes bs :: 'a::len word) = bs"
proof (rule nth_equalityI)
  show "length (le_bytes (length bs) (of_le_bytes bs :: 'a word)) = length bs" by simp
next
  fix i assume "i < length (le_bytes (length bs) (of_le_bytes bs :: 'a word))"
  then have i: "i < length bs" by simp
  show "le_bytes (length bs) (of_le_bytes bs :: 'a word) ! i = bs ! i"
  proof (rule bit_word_eqI)
    fix k assume "k < LENGTH(8)"
    then have k: "k < 8" by simp
    then have "8 * i + k < LENGTH('a)" using assms i by linarith
    moreover have "(8 * i + k) div 8 = i" "(8 * i + k) mod 8 = k" using k by simp_all
    ultimately show "bit (le_bytes (length bs) (of_le_bytes bs :: 'a word) ! i) k \<longleftrightarrow> bit (bs ! i) k"
      using i k by (simp add: bit_of_le_bytes bit_ucast_iff bit_drop_bit_eq add.commute)
  qed
qed

subsection \<open>Two-bit fields\<close>

text \<open>The architectural x87 tag word holds one two-bit tag per physical register.\<close>

definition tag_field :: "u16 \<Rightarrow> nat \<Rightarrow> u8" where
  "tag_field tw p = ucast (drop_bit (2 * p) tw AND 3)"

lemma bit_3_gen [simp]: "bit (3 :: 'a::semiring_bit_operations) n \<longleftrightarrow> possible_bit TYPE('a) n \<and> n < 2"
proof -
  have "(3 :: 'a) = mask 2" by (simp add: mask_numeral)
  then show ?thesis by (simp only: bit_mask_iff)
qed

lemma bit_tag_field [fields]: "bit (tag_field tw p) n \<longleftrightarrow> n < 2 \<and> bit tw (2 * p + n)"
  by (auto simp: tag_field_def bit_ucast_iff bit_and_iff bit_drop_bit_eq dest: bit_imp_le_length)

lemma tag_field_le_3 [simp]: "tag_field tw p \<le> 3"
proof -
  have "tag_field tw p = tag_field tw p AND 3"
    by (rule bit_word_eqI) (auto simp: bit_tag_field bit_and_iff)
  then show ?thesis by (metis word_and_le1)
qed

lemma tag_field_eqI:
  assumes "\<And>p. p < 8 \<Longrightarrow> tag_field a p = tag_field b p"
  shows "a = b"
proof (rule bit_word_eqI)
  fix n assume "n < LENGTH(16)"
  then have "n div 2 < 8" by simp
  then have "bit (tag_field a (n div 2)) (n mod 2) = bit (tag_field b (n div 2)) (n mod 2)"
    using assms by simp
  then show "bit a n = bit b n" by (simp add: bit_tag_field)
qed

lemma and_7_int [simp]: "(x :: int) AND 7 = x mod 8"
proof -
  have "(7 :: int) = mask 3" by (simp add: mask_eq_exp_minus_1)
  then have "x AND 7 = take_bit 3 x" by (simp only: take_bit_eq_mask)
  then show ?thesis by (simp add: take_bit_eq_mod)
qed

subsection \<open>Lists\<close>

fun find_index :: "'a \<Rightarrow> 'a list \<Rightarrow> nat option" where
  "find_index a [] = None"
| "find_index a (x # xs) = (if a = x then Some 0 else map_option Suc (find_index a xs))"

lemma list_update_cong_nth: "length xs = length ys \<Longrightarrow> (\<And>i. i < length xs \<Longrightarrow> xs ! i = ys ! i) \<Longrightarrow> xs = ys"
  by (simp add: list_eq_iff_nth_eq)

text \<open>A loop that assigns array elements, one per iteration.\<close>

lemma length_fold_update [simp]: "length (fold (\<lambda>i l. l[g i := h i]) xs l) = length l"
  by (induction xs arbitrary: l) simp_all

lemma nth_fold_update_other: "j \<notin> g ` set xs \<Longrightarrow> fold (\<lambda>i l. l[g i := h i]) xs l ! j = l ! j"
  by (induction xs arbitrary: l) auto

lemma nth_fold_update:
  assumes "distinct xs" "inj_on g (set xs)" "i \<in> set xs" "g i < length l"
  shows "fold (\<lambda>i l. l[g i := h i]) xs l ! g i = h i"
  using assms
proof (induction xs arbitrary: l)
  case (Cons x xs)
  show ?case
  proof (cases "i = x")
    case True
    then have "g i \<notin> g ` set xs" using Cons.prems by auto
    then show ?thesis using True Cons.prems by (simp add: nth_fold_update_other)
  qed (use Cons in auto)
qed simp

text \<open>Bytes OR-ed into place one by one.\<close>

lemma fold_or_bytes:
  "fold (\<lambda>i out. out OR push_bit (i * 8) (ucast (bs ! i))) [0..<length bs] (0 :: 'a::len word) = of_le_bytes bs"
proof (rule bit_word_eqI)
  fix k assume "k < LENGTH('a)"
  have "bit (fold (\<lambda>i out. out OR push_bit (i * 8) (ucast (bs ! i))) [0..<n] (0 :: 'a word)) k =
      (k div 8 < n \<and> bit (bs ! (k div 8)) (k mod 8))" for n
  proof (induction n)
    case (Suc n)
    have "(n * 8 \<le> k \<and> bit (bs ! n) (k - n * 8)) = (k div 8 = n \<and> bit (bs ! n) (k mod 8))"
    proof (cases "k div 8 = n")
      case True
      then have "k = n * 8 + k mod 8" using div_mult_mod_eq [of k 8] by simp
      then have "k - n * 8 = k mod 8" "n * 8 \<le> k" by linarith+
      then show ?thesis using True by simp
    next
      case False
      then have "n * 8 \<le> k \<Longrightarrow> 8 \<le> k - n * 8" by linarith
      then show ?thesis using False by (auto dest: bit_imp_le_length)
    qed
    then show ?case
      using Suc \<open>k < LENGTH('a)\<close> by (auto simp: bit_or_iff bit_push_bit_iff bit_ucast_iff less_Suc_eq)
  qed simp
  then show "bit (fold (\<lambda>i out. out OR push_bit (i * 8) (ucast (bs ! i))) [0..<length bs] (0 :: 'a word)) k =
      bit (of_le_bytes bs :: 'a word) k"
    using \<open>k < LENGTH('a)\<close> by (simp add: bit_of_le_bytes)
qed

end
