(* ===== verification/Contract.thy ===== *)
theory Contract
  imports Prelude
begin

section \<open>The data contract between the lanes\<close>

text \<open>
  \<^verbatim>\<open>src/common/types.hpp\<close>: the address layout every lane maps, the normalised register state, the
  test case that goes into a lane and the outcome that comes out. Arrays are lists of the array's
  length (predicate \<open>reg_shape\<close>); machine integers keep their width.
\<close>

subsection \<open>Address layout\<close>

definition kCodeBase :: u64 where "kCodeBase = 0x0000100000000000"
definition kDataBase :: u64 where "kDataBase = 0x0000100000001000"
definition kStackBase :: u64 where "kStackBase = 0x0000100000002000"
definition kStackTop :: u64 where "kStackTop = kStackBase + 0x0F00"
definition kPageSize :: nat where "kPageSize = 0x1000"
definition kDataWindow :: nat where "kDataWindow = 0x100"

lemmas layout_defs = kCodeBase_def kDataBase_def kStackBase_def kStackTop_def kPageSize_def
  kDataWindow_def

subsection \<open>The x87 register file\<close>

record x87_state =
  signif :: "u64 list"
  signexp :: "u16 list"
  control_word :: u16
  status_word :: u16
  tag_word :: u16

definition x87_default :: x87_state where
  "x87_default = \<lparr>signif = replicate 8 0, signexp = replicate 8 0, control_word = 0x037F,
                  status_word = 0, tag_word = 0xFFFF\<rparr>"

definition x87_classify_tag :: "u16 \<Rightarrow> u64 \<Rightarrow> u8" where
  "x87_classify_tag se sg =
     (let exp = se AND 0x7FFF in
      if exp = 0x7FFF then 2
      else if exp = 0 then (if sg = 0 then 1 else 2)
      else if drop_bit 63 sg \<noteq> 0 then 0 else 2)"

definition x87_top_of :: "x87_state \<Rightarrow> u8" where
  "x87_top_of x = ucast (drop_bit 11 (status_word x) AND 0x7)"

definition x87_tag_of_st :: "x87_state \<Rightarrow> int \<Rightarrow> u8" where
  "x87_tag_of_st x st_index =
     (let phys = (uint (x87_top_of x) + st_index) AND 0x7
      in ucast (drop_bit (nat (2 * phys)) (tag_word x) AND 0x3))"

subsection \<open>Registers, test cases, outcomes\<close>

record reg_state =
  gpr :: "u64 list"
  rip :: u64
  rflags :: u64
  xmm_lo :: "u64 list"
  xmm_hi :: "u64 list"
  x87 :: x87_state
  data_after :: "u8 list"

definition reg_default :: reg_state where
  "reg_default = \<lparr>gpr = replicate 16 0, rip = 0, rflags = 0x202, xmm_lo = replicate 16 0,
                  xmm_hi = replicate 16 0, x87 = x87_default, data_after = replicate kDataWindow 0\<rparr>"

definition kCompareFlagsMask :: u64 where
  "kCompareFlagsMask = 0x0001 OR 0x0004 OR 0x0010 OR 0x0040 OR 0x0080 OR 0x0400 OR 0x0800"

definition kX87StatusMask :: u16 where "kX87StatusMask = 0xFFFF"

record test_case =
  tc_text :: string
  tc_bytes :: "u8 list"
  tc_initial :: reg_state
  tc_touches_memory :: bool
  tc_flags_mask :: u64
  tc_data_seed :: "u8 list"
  tc_gpr_compare_mask :: u32

definition tc_default :: test_case where
  "tc_default = \<lparr>tc_text = '''', tc_bytes = [], tc_initial = reg_default, tc_touches_memory = False,
                 tc_flags_mask = kCompareFlagsMask, tc_data_seed = replicate kDataWindow 0,
                 tc_gpr_compare_mask = 0xFFFF\<rparr>"

datatype stop_reason =
  Stop_ok | Stop_ud | Stop_gp | Stop_pf | Stop_de | Stop_bp | Stop_halted | Stop_other

fun stop_name :: "stop_reason \<Rightarrow> string" where
  "stop_name Stop_ok = ''ok''"
| "stop_name Stop_ud = ''ud''"
| "stop_name Stop_gp = ''gp''"
| "stop_name Stop_pf = ''pf''"
| "stop_name Stop_de = ''de''"
| "stop_name Stop_bp = ''bp''"
| "stop_name Stop_halted = ''halted''"
| "stop_name Stop_other = ''other''"

record lane_outcome =
  setup_ok :: bool
  setup_error :: string
  stop :: stop_reason
  detail :: string
  after :: reg_state
  captures_x87 :: bool

definition outcome_default :: lane_outcome where
  "outcome_default = \<lparr>setup_ok = True, setup_error = '''', stop = Stop_ok, detail = '''',
                      after = reg_default, captures_x87 = False\<rparr>"

subsection \<open>Shape and well-taggedness\<close>

text \<open>What the fixed array lengths of the C++ types give for free.\<close>

definition x87_shape :: "x87_state \<Rightarrow> bool" where
  "x87_shape x \<longleftrightarrow> length (signif x) = 8 \<and> length (signexp x) = 8"

definition reg_shape :: "reg_state \<Rightarrow> bool" where
  "reg_shape r \<longleftrightarrow> length (gpr r) = 16 \<and> length (xmm_lo r) = 16 \<and> length (xmm_hi r) = 16 \<and>
     x87_shape (x87 r) \<and> length (data_after r) = kDataWindow"

text \<open>
  The tag word is the one the SDM's recreation rule derives from the register contents: every
  slot is empty, or tagged by \<open>x87_classify_tag\<close> of the value it holds. This is the invariant the
  hardware lane's abridged tag byte can represent.
\<close>

definition well_tagged :: "x87_state \<Rightarrow> bool" where
  "well_tagged x \<longleftrightarrow> (\<forall>i < 8. x87_tag_of_st x (int i) = 3 \<or>
     x87_tag_of_st x (int i) = x87_classify_tag (signexp x ! i) (signif x ! i))"

lemma x87_classify_tag_less_3: "x87_classify_tag se sg < 3"
  by (simp add: x87_classify_tag_def Let_def)

lemma x87_classify_tag_not_3 [simp]: "x87_classify_tag se sg \<noteq> 3"
  by (simp add: x87_classify_tag_def Let_def)

lemma x87_top_less: "uint (x87_top_of x) < 8"
proof -
  have "x87_top_of x = x87_top_of x AND 7"
    by (rule bit_word_eqI) (auto simp: x87_top_of_def bit_and_iff bit_ucast_iff)
  then have "x87_top_of x \<le> 7" by (metis word_and_le1)
  then show ?thesis by (simp add: word_le_def)
qed

text \<open>Physical index of a stack-relative one.\<close>

definition st_phys :: "x87_state \<Rightarrow> nat \<Rightarrow> nat" where
  "st_phys x i = (unat (x87_top_of x) + i) mod 8"

lemma st_phys_less [simp]: "st_phys x i < 8"
  by (simp add: st_phys_def)

lemma x87_tag_of_st_eq: "x87_tag_of_st x (int i) = tag_field (tag_word x) (st_phys x i)"
proof -
  have "(uint (x87_top_of x) + int i) mod 8 = int (st_phys x i)"
    by (simp add: st_phys_def zmod_int)
  then show ?thesis by (simp add: x87_tag_of_st_def tag_field_def Let_def nat_mult_distrib)
qed

lemma st_phys_surj: "p < 8 \<Longrightarrow> \<exists>i < 8. st_phys x i = p"
proof -
  assume p: "p < 8"
  have "unat (x87_top_of x) < 8" using x87_top_less [of x] unfolding unat_eq_nat_uint by linarith
  then have "st_phys x ((p + 8 - unat (x87_top_of x)) mod 8) = p"
    using p by (simp add: st_phys_def mod_add_right_eq)
  then show ?thesis by (metis mod_less_divisor zero_less_numeral)
qed

subsection \<open>Assembling a tag word\<close>

text \<open>The loop both the hardware lane and the engine lanes build a tag word with: the tag of each
  physical register, OR-ed in at its position.\<close>

definition tags_word :: "(nat \<Rightarrow> u8) \<Rightarrow> u16" where
  "tags_word t = fold (\<lambda>phys w. w OR push_bit (2 * phys) (ucast (t phys))) [0..<8] 0"

lemma bit_tags_word:
  assumes "\<And>p. p < 8 \<Longrightarrow> t p < 4" "k < 16"
  shows "bit (tags_word t) k = bit (t (k div 2)) (k mod 2)"
proof -
  have high: "\<not> bit (t p) m" if "p < 8" "2 \<le> m" for p m
  proof -
    have "unat (t p) < 2 ^ 2" using assms(1) [OF that(1)] by (simp add: word_less_nat_alt)
    also have "(2 :: nat) ^ 2 \<le> 2 ^ m" by (rule power_increasing) (use that in auto)
    finally have "\<not> bit (unat (t p)) m" by (simp add: bit_iff_odd)
    then show ?thesis by (simp add: bit_unsigned_iff)
  qed
  have "bit (fold (\<lambda>phys w. w OR push_bit (2 * phys) (ucast (t phys))) [0..<n] (0 :: u16)) k =
      (k div 2 < n \<and> bit (t (k div 2)) (k mod 2))" if "n \<le> 8" for n
    using that
  proof (induction n)
    case (Suc n)
    have "(2 * n \<le> k \<and> bit (t n) (k - 2 * n)) = (k div 2 = n \<and> bit (t n) (k mod 2))"
    proof (cases "k div 2 = n")
      case True
      then have "k = 2 * n + k mod 2" using mult_div_mod_eq [of 2 k] by simp
      then have "k - 2 * n = k mod 2" "2 * n \<le> k" by linarith+
      then show ?thesis using True by simp
    next
      case False
      then have "2 * n \<le> k \<Longrightarrow> 2 \<le> k - 2 * n" by linarith
      then show ?thesis using False high [of n "k - 2 * n"] Suc.prems by auto
    qed
    then show ?case
      using Suc assms(2) by (auto simp: bit_or_iff bit_push_bit_iff bit_ucast_iff less_Suc_eq dest: bit_imp_le_length)
  qed simp
  moreover have "k div 2 < 8" using assms(2) by simp
  ultimately show ?thesis by (simp add: tags_word_def)
qed

lemma tag_field_tags_word [simp]:
  assumes "\<And>p. p < 8 \<Longrightarrow> t p < 4" "p < 8"
  shows "tag_field (tags_word t) p = t p"
proof (rule bit_word_eqI)
  fix n assume "n < LENGTH(8)"
  show "bit (tag_field (tags_word t) p) n = bit (t p) n"
  proof (cases "n < 2")
    case True
    then have "(2 * p + n) div 2 = p" "(2 * p + n) mod 2 = n" by simp_all
    moreover have "2 * p + n < 16" using True assms(2) by linarith
    ultimately show ?thesis using True assms(1) by (simp add: bit_tag_field bit_tags_word)
  next
    case False
    have "unat (t p) < 2 ^ 2" using assms by (simp add: word_less_nat_alt)
    also have "(2 :: nat) ^ 2 \<le> 2 ^ n" by (rule power_increasing) (use False in auto)
    finally have "\<not> bit (unat (t p)) n" by (simp add: bit_iff_odd)
    then show ?thesis using False by (simp add: bit_tag_field bit_unsigned_iff)
  qed
qed

lemma tags_word_tag_field [simp]: "tags_word (tag_field w) = w"
proof -
  have "tag_field w p < 4" for p using tag_field_le_3 [of w p] by (simp add: word_le_nat_alt word_less_nat_alt)
  then show ?thesis by (intro tag_field_eqI) simp
qed

lemma tags_word_cong: "(\<And>p. p < 8 \<Longrightarrow> f p = g p) \<Longrightarrow> tags_word f = tags_word g"
  unfolding tags_word_def by (rule fold_cong) simp_all

end
