(* ===== verification/Draw.thy ===== *)
theory Draw
  imports Contract
begin

section \<open>Random draws and the generation context\<close>

text \<open>
  \<^verbatim>\<open>src/gen/instruction_gen.cpp\<close>: the context \<^verbatim>\<open>Ctx\<close> a family fills in, and the draws it makes.

  The engine is an infinite tape of draws: one number is consumed per distribution call and mapped
  into the requested closed interval, which is all that \<^verbatim>\<open>std::uniform_int_distribution\<close> promises
  of its result. Every in-range result of every call is produced by some tape (lemma
  \<open>rand_int_complete\<close>), so a statement about all tapes is a statement about every seed and every
  implementation of the distribution. A program that draws is a \<open>state\<close> computation over the
  context; \<open>wp m Q c\<close> says that running \<open>m\<close> from \<open>c\<close> ends in a result and context satisfying \<open>Q\<close>.
  The rule for \<open>rand_int\<close> demands \<open>lo \<le> hi\<close>, the precondition of the C++ distribution, at every call.
\<close>

subsection \<open>The context\<close>

record forced_bytes =
  fb_offset :: nat
  fb_size :: nat
  fb_value :: "u8 list"

record ctx =
  rng :: "nat stream"
  c_touches_memory :: bool
  c_flags_mask :: u64
  force_gpr :: "u64 option list"
  bsf_bsr_dest :: "nat option"
  bsf_bsr_src_reg :: "nat option"
  bsf_bsr_src_mem_disp :: "8 word option"
  bsf_bsr_width_bytes :: nat
  force_data_qword :: "(nat \<times> u64) option"
  force_data_bytes :: "forced_bytes option"
  uses_x87 :: bool
  x87_needs :: nat

definition fresh_ctx :: "nat stream \<Rightarrow> ctx" where
  "fresh_ctx g = \<lparr>rng = g, c_touches_memory = False, c_flags_mask = kCompareFlagsMask,
     force_gpr = replicate 16 None, bsf_bsr_dest = None, bsf_bsr_src_reg = None,
     bsf_bsr_src_mem_disp = None, bsf_bsr_width_bytes = 0, force_data_qword = None,
     force_data_bytes = None, uses_x87 = False, x87_needs = 0\<rparr>"

type_synonym 'a draw = "(ctx, 'a) state"

definition upd :: "(ctx \<Rightarrow> ctx) \<Rightarrow> unit draw" where
  "upd f = State (\<lambda>c. ((), f c))"

definition force :: "nat \<Rightarrow> u64 \<Rightarrow> unit draw" where
  "force r v = upd (\<lambda>c. c\<lparr>force_gpr := (force_gpr c)[r := Some v]\<rparr>)"

definition touch_memory :: "unit draw" where
  "touch_memory = upd (\<lambda>c. c\<lparr>c_touches_memory := True\<rparr>)"

definition set_flags_mask :: "u64 \<Rightarrow> unit draw" where
  "set_flags_mask m = upd (\<lambda>c. c\<lparr>c_flags_mask := m\<rparr>)"

subsection \<open>Weakest preconditions of draws\<close>

named_theorems wp_simps \<open>equations of wp\<close>
named_theorems wp_rules \<open>introduction rules of wp\<close>

definition wp :: "('s, 'a) state \<Rightarrow> ('a \<Rightarrow> 's \<Rightarrow> bool) \<Rightarrow> 's \<Rightarrow> bool" where
  "wp m Q s = (case run_state m s of (x, s') \<Rightarrow> Q x s')"

lemma wp_return [wp_simps]: "wp (State_Monad.return x) Q s = Q x s"
  by (simp add: wp_def)

lemma wp_bind [wp_simps]: "wp (State_Monad.bind m f) Q s = wp m (\<lambda>x. wp (f x) Q) s"
  by (simp add: wp_def split: prod.splits)

lemma wp_upd [wp_simps]: "wp (upd f) Q c = Q () (f c)"
  by (simp add: wp_def upd_def)

lemma wp_force [wp_simps]: "wp (force r v) Q c = Q () (c\<lparr>force_gpr := (force_gpr c)[r := Some v]\<rparr>)"
  by (simp add: force_def wp_upd)

lemma wp_touch_memory [wp_simps]: "wp touch_memory Q c = Q () (c\<lparr>c_touches_memory := True\<rparr>)"
  by (simp add: touch_memory_def wp_upd)

lemma wp_set_flags_mask [wp_simps]: "wp (set_flags_mask m) Q c = Q () (c\<lparr>c_flags_mask := m\<rparr>)"
  by (simp add: set_flags_mask_def wp_upd)

lemma wp_if [wp_rules]: "(b \<Longrightarrow> wp m Q s) \<Longrightarrow> (\<not> b \<Longrightarrow> wp n Q s) \<Longrightarrow> wp (if b then m else n) Q s"
  by simp

lemma wp_mono: "wp m Q s \<Longrightarrow> (\<And>x t. Q x t \<Longrightarrow> R x t) \<Longrightarrow> wp m R s"
  by (auto simp: wp_def split: prod.splits)

lemma wpD: "wp m Q s \<Longrightarrow> run_state m s = (x, t) \<Longrightarrow> Q x t"
  by (simp add: wp_def)

lemma wpI: "(\<And>x t. run_state m s = (x, t) \<Longrightarrow> Q x t) \<Longrightarrow> wp m Q s"
  by (auto simp: wp_def split: prod.splits)

subsection \<open>Draws\<close>

definition next_raw :: "nat draw" where
  "next_raw = State (\<lambda>c. (shd (rng c), c\<lparr>rng := stl (rng c)\<rparr>))"

definition rand_int :: "int \<Rightarrow> int \<Rightarrow> int draw" where
  "rand_int lo hi = do { n \<leftarrow> next_raw; State_Monad.return (lo + int n mod (hi - lo + 1)) }"

definition rand_u64 :: "u64 draw" where
  "rand_u64 = do { n \<leftarrow> next_raw; State_Monad.return (word_of_nat n) }"

lemma wp_next_raw [wp_rules]: "(\<And>n g. Q n (c\<lparr>rng := g\<rparr>)) \<Longrightarrow> wp next_raw Q c"
  by (simp add: wp_def next_raw_def)

lemma wp_rand_int [wp_rules]:
  assumes "lo \<le> hi" "\<And>v g. lo \<le> v \<Longrightarrow> v \<le> hi \<Longrightarrow> Q v (c\<lparr>rng := g\<rparr>)"
  shows "wp (rand_int lo hi) Q c"
proof -
  have k: "0 < hi - lo + 1" using assms(1) by simp
  have "lo \<le> lo + int n mod (hi - lo + 1)" "lo + int n mod (hi - lo + 1) \<le> hi" for n
    using pos_mod_sign [OF k, of "int n"] pos_mod_bound [OF k, of "int n"] by linarith+
  then show ?thesis
    using assms(2) by (auto simp: rand_int_def wp_bind wp_return intro!: wp_next_raw)
qed

lemma wp_rand_u64 [wp_rules]: "(\<And>v g. Q v (c\<lparr>rng := g\<rparr>)) \<Longrightarrow> wp rand_u64 Q c"
  by (auto simp: rand_u64_def wp_simps intro!: wp_next_raw)

lemma run_rand_int [simp]:
  "run_state (rand_int lo hi) c =
     (lo + int (shd (rng c)) mod (hi - lo + 1), c\<lparr>rng := stl (rng c)\<rparr>)"
  by (simp add: rand_int_def next_raw_def)

lemma run_rand_u64 [simp]:
  "run_state rand_u64 c = (word_of_nat (shd (rng c)), c\<lparr>rng := stl (rng c)\<rparr>)"
  by (simp add: rand_u64_def next_raw_def)

lemma run_upd [simp]: "run_state (upd f) c = ((), f c)"
  by (simp add: upd_def)

lemma rand_int_complete:
  "lo \<le> v \<Longrightarrow> v \<le> hi \<Longrightarrow>
     run_state (rand_int lo hi) (c\<lparr>rng := nat (v - lo) ## g\<rparr>) = (v, c\<lparr>rng := g\<rparr>)"
  by simp

subsection \<open>Interesting values\<close>

definition kPool :: "u64 list" where
  "kPool = [0, 1, 2, 3, 0x7F, 0x80, 0xFF, 0x100, 0x7FFF, 0x8000, 0xFFFF, 0x10000,
            0x7FFFFFFF, 0x80000000, 0xFFFFFFFF, 0x100000000,
            0x7FFFFFFFFFFFFFFF, 0x8000000000000000, 0xFFFFFFFFFFFFFFFF,
            0xAAAAAAAAAAAAAAAA, 0x5555555555555555]"

definition random_interesting_u64 :: "u64 draw" where
  "random_interesting_u64 = do {
     p \<leftarrow> rand_int 0 99;
     if p < 40 then do {
       i \<leftarrow> rand_int 0 (int (length kPool) - 1);
       let v = kPool ! nat i;
       q \<leftarrow> rand_int 0 99;
       if q < 30 then do {
         d \<leftarrow> rand_int (-2) 2;
         State_Monad.return (v + word_of_int d)
       } else State_Monad.return v
     } else rand_u64
   }"

definition random_imm :: "nat \<Rightarrow> u64 draw" where
  "random_imm bits = do {
     v \<leftarrow> random_interesting_u64;
     State_Monad.return (if bits < 64 then v AND (push_bit bits 1 - 1) else v)
   }"

definition random_disp8 :: "8 word draw" where
  "random_disp8 = do { v \<leftarrow> rand_int 0 0x7F; State_Monad.return (word_of_int v) }"

definition aligned_disp8 :: "int \<Rightarrow> 8 word draw" where
  "aligned_disp8 alignment = do {
     raw \<leftarrow> rand_int 0 0x7F;
     State_Monad.return (word_of_int (raw - raw mod alignment))
   }"

definition pick_reg_index :: "nat draw" where
  "pick_reg_index = do { v \<leftarrow> rand_int 0 15; State_Monad.return (nat v) }"

definition random_code_target :: "u64 draw" where
  "random_code_target = do {
     v \<leftarrow> rand_int 0 (int kPageSize - 16);
     State_Monad.return (kCodeBase + word_of_int v)
   }"

definition rel8_target :: "u64 draw" where
  "rel8_target = do { v \<leftarrow> rand_int 2 120; State_Monad.return (kCodeBase + word_of_int v) }"

text \<open>A displacement is good when it is a non-negative \<^verbatim>\<open>int8_t\<close>: at most 127.\<close>

definition disp_ok :: "8 word \<Rightarrow> bool" where
  "disp_ok d \<longleftrightarrow> 0 \<le> sint d"

text \<open>A branch target is good when 16 bytes of code page are left from it on.\<close>

definition target_ok :: "u64 \<Rightarrow> bool" where
  "target_ok t \<longleftrightarrow> kCodeBase \<le> t \<and> t - kCodeBase \<le> of_nat (kPageSize - 16)"

lemma wp_random_interesting_u64 [wp_rules]:
  "(\<And>v g. Q v (c\<lparr>rng := g\<rparr>)) \<Longrightarrow> wp random_interesting_u64 Q c"
  by (auto simp: random_interesting_u64_def kPool_def wp_simps Let_def intro!: wp_rules)

lemma wp_random_imm [wp_rules]:
  "(\<And>v g. Q v (c\<lparr>rng := g\<rparr>)) \<Longrightarrow> wp (random_imm bits) Q c"
  by (auto simp: random_imm_def wp_simps intro!: wp_rules)

lemma disp_ok_of_int: "0 \<le> v \<Longrightarrow> v \<le> 0x7F \<Longrightarrow> disp_ok (word_of_int v)"
  by (simp add: disp_ok_def signed_of_int signed_take_bit_int_eq_self)

lemma wp_random_disp8 [wp_rules]:
  "(\<And>d g. disp_ok d \<Longrightarrow> Q d (c\<lparr>rng := g\<rparr>)) \<Longrightarrow> wp random_disp8 Q c"
  by (auto simp: random_disp8_def wp_simps disp_ok_of_int intro!: wp_rules)

lemma wp_aligned_disp8 [wp_rules]:
  assumes "0 < a" "\<And>d g. disp_ok d \<Longrightarrow> sint d mod a = 0 \<Longrightarrow> Q d (c\<lparr>rng := g\<rparr>)"
  shows "wp (aligned_disp8 a) Q c"
proof -
  have "disp_ok (word_of_int (v - v mod a))" "sint (word_of_int (v - v mod a) :: 8 word) mod a = 0"
    if "0 \<le> v" "v \<le> 0x7F" for v
  proof -
    define w where "w = v - v mod a"
    have "0 \<le> v mod a" by (rule pos_mod_sign [OF assms(1)])
    then have "w \<le> 0x7F" using that unfolding w_def by linarith
    moreover have "0 \<le> w" "w mod a = 0"
      using that zmod_le_nonneg_dividend [of v a] by (auto simp: w_def mod_diff_left_eq)
    ultimately have w: "0 \<le> w" "w \<le> 0x7F" "w mod a = 0" by simp_all
    then show "disp_ok (word_of_int (v - v mod a))"
      "sint (word_of_int (v - v mod a) :: 8 word) mod a = 0"
      unfolding w_def [symmetric]
      by (simp_all add: disp_ok_of_int signed_of_int signed_take_bit_int_eq_self)
  qed
  then show ?thesis
    using assms by (auto simp: aligned_disp8_def wp_simps intro!: wp_rules)
qed

lemma wp_pick_reg_index [wp_rules]:
  "(\<And>r g. r < 16 \<Longrightarrow> Q r (c\<lparr>rng := g\<rparr>)) \<Longrightarrow> wp pick_reg_index Q c"
  by (auto simp: pick_reg_index_def wp_simps intro!: wp_rules)

lemma target_ok_of_int: "0 \<le> v \<Longrightarrow> v \<le> int kPageSize - 16 \<Longrightarrow> target_ok (kCodeBase + word_of_int v)"
proof -
  assume v: "0 \<le> v" "v \<le> int kPageSize - 16"
  then have u: "uint (word_of_int v :: u64) = v"
    by (simp add: kPageSize_def unsigned_of_int take_bit_int_eq_self)
  have "uint (kCodeBase + word_of_int v) = uint kCodeBase + v"
    using v u by (simp add: uint_word_ariths kCodeBase_def kPageSize_def)
  then show ?thesis
    using v u by (simp add: target_ok_def word_le_def kPageSize_def)
qed

lemma wp_random_code_target [wp_rules]:
  "(\<And>t g. target_ok t \<Longrightarrow> Q t (c\<lparr>rng := g\<rparr>)) \<Longrightarrow> wp random_code_target Q c"
  by (auto simp: random_code_target_def wp_simps target_ok_of_int intro!: wp_rules)
    (simp add: kPageSize_def)

lemma wp_rel8_target [wp_rules]:
  "(\<And>t g. target_ok t \<Longrightarrow> Q t (c\<lparr>rng := g\<rparr>)) \<Longrightarrow> wp rel8_target Q c"
proof -
  assume "\<And>t g. target_ok t \<Longrightarrow> Q t (c\<lparr>rng := g\<rparr>)"
  moreover have "target_ok (kCodeBase + word_of_int v)" if "2 \<le> v" "v \<le> 120" for v
    using that by (intro target_ok_of_int) (simp_all add: kPageSize_def)
  ultimately show ?thesis by (auto simp: rel8_target_def wp_simps intro!: wp_rules)
qed

end
