(* ===== verification/Instr.thy ===== *)
theory Instr
  imports Draw
begin

section \<open>Instructions as built by the generator\<close>

text \<open>
  An \<^verbatim>\<open>iced_x86::Instruction\<close> is third-party; what the generator does with it is to call one
  factory function and then some setters. An instruction of the model is exactly that record of
  calls, in order: \<open>build\<close> is the factory call with its arguments, \<open>setters\<close> the setter calls that
  followed. Members of the large enumerations \<^verbatim>\<open>Code\<close> and \<^verbatim>\<open>Register\<close> are their names as strings,
  which is also what the token-pasting macros of the source compute with.

  \<open>instr_ok\<close> is the contract of a family: which instructions, with which context, may be handed to
  \<^verbatim>\<open>next()\<close>. \<open>imm_stamped\<close> says that the immediate operands, and only those, had their operand
  kind stamped, each with exactly the kind that its code wants (\<open>imm_kind\<close>) and the value stored in
  that kind, which is what the encoder insists on according to the comment at \<^verbatim>\<open>set_imm_kind\<close>.
\<close>

type_synonym code = string
type_synonym register = string

datatype op_kind = IMMEDIATE8 | IMMEDIATE16 | IMMEDIATE32 | IMMEDIATE8TO16 | IMMEDIATE8TO32
  | IMMEDIATE8TO64 | IMMEDIATE32TO64 | IMMEDIATE64

datatype mem_operand = MemBaseDispl register "8 word" nat | MemDispl u64 nat

datatype fact_arg = AReg register | AMem mem_operand | AImm int

datatype rep_prefix = RepNone | Repe | Repne

datatype build =
    With code "fact_arg list"
  | WithBranch code u64
  | WithString string nat rep_prefix

datatype setter =
    SetOpKind nat op_kind
  | SetImm8 u8
  | SetImm16 u16
  | SetImm32 u32
  | SetImm8to16 u16
  | SetImm8to32 u32
  | SetImm8to64 u64
  | SetImm32to64 u64
  | SetBroadcast bool

record instruction =
  build :: build
  setters :: "setter list"

definition iwith :: "code \<Rightarrow> fact_arg list \<Rightarrow> instruction" where
  "iwith c args = \<lparr>build = With c args, setters = []\<rparr>"

definition with_branch :: "code \<Rightarrow> u64 \<Rightarrow> instruction" where
  "with_branch c t = \<lparr>build = WithBranch c t, setters = []\<rparr>"

definition with_string :: "string \<Rightarrow> nat \<Rightarrow> rep_prefix \<Rightarrow> instruction" where
  "with_string f addr rep = \<lparr>build = WithString f addr rep, setters = []\<rparr>"

definition add_setters :: "setter list \<Rightarrow> instruction \<Rightarrow> instruction" where
  "add_setters ss i = i\<lparr>setters := setters i @ ss\<rparr>"

subsection \<open>Widths and registers\<close>

datatype width = W8 | W16 | W32 | W64

definition width_of_int :: "int \<Rightarrow> width" where
  "width_of_int n = (if n = 0 then W8 else if n = 1 then W16 else if n = 2 then W32 else W64)"

fun width_index :: "width \<Rightarrow> nat" where
  "width_index W8 = 0" | "width_index W16 = 1" | "width_index W32 = 2" | "width_index W64 = 3"

lemma width_index_less: "width_index w < 4"
  by (cases w) simp_all

definition kRegs8 :: "register list" where
  "kRegs8 = [''AL'', ''CL'', ''DL'', ''BL'', ''SPL'', ''BPL'', ''SIL'', ''DIL'',
             ''R8_L'', ''R9_L'', ''R10_L'', ''R11_L'', ''R12_L'', ''R13_L'', ''R14_L'', ''R15_L'']"

definition kRegs16 :: "register list" where
  "kRegs16 = [''AX'', ''CX'', ''DX'', ''BX'', ''SP'', ''BP'', ''SI'', ''DI'',
              ''R8_W'', ''R9_W'', ''R10_W'', ''R11_W'', ''R12_W'', ''R13_W'', ''R14_W'', ''R15_W'']"

definition kRegs32 :: "register list" where
  "kRegs32 = [''EAX'', ''ECX'', ''EDX'', ''EBX'', ''ESP'', ''EBP'', ''ESI'', ''EDI'',
              ''R8_D'', ''R9_D'', ''R10_D'', ''R11_D'', ''R12_D'', ''R13_D'', ''R14_D'', ''R15_D'']"

definition kRegs64 :: "register list" where
  "kRegs64 = [''RAX'', ''RCX'', ''RDX'', ''RBX'', ''RSP'', ''RBP'', ''RSI'', ''RDI'',
              ''R8'', ''R9'', ''R10'', ''R11'', ''R12'', ''R13'', ''R14'', ''R15'']"

fun reg_of :: "width \<Rightarrow> nat \<Rightarrow> register" where
  "reg_of W8 idx = kRegs8 ! idx"
| "reg_of W16 idx = kRegs16 ! idx"
| "reg_of W32 idx = kRegs32 ! idx"
| "reg_of W64 idx = kRegs64 ! idx"

fun bits_of :: "width \<Rightarrow> nat" where
  "bits_of W8 = 8" | "bits_of W16 = 16" | "bits_of W32 = 32" | "bits_of W64 = 64"

definition width16_32_64 :: "width draw" where
  "width16_32_64 = do {
     p \<leftarrow> rand_int 0 2;
     State_Monad.return (if p = 0 then W16 else if p = 1 then W32 else W64)
   }"

definition widx16_32_64 :: "width \<Rightarrow> nat" where
  "widx16_32_64 w = (if w = W16 then 0 else if w = W32 then 1 else 2)"

definition acc_of :: "width \<Rightarrow> register" where
  "acc_of w = (if w = W8 then ''AL'' else if w = W16 then ''AX'' else if w = W32 then ''EAX'' else ''RAX'')"

definition AR :: "width \<Rightarrow> nat \<Rightarrow> fact_arg" where
  "AR w idx = AReg (reg_of w idx)"

definition mem_operand :: "8 word \<Rightarrow> fact_arg" where
  "mem_operand disp = AMem (MemBaseDispl ''RDI'' disp 1)"

subsection \<open>Immediates\<close>

definition set_imm_kind :: "nat \<Rightarrow> op_kind \<Rightarrow> setter" where
  "set_imm_kind index kind =
     (if index = 0 then SetOpKind 0 kind else if index = 1 then SetOpKind 1 kind else SetOpKind 2 kind)"

definition set_imm8 :: "instruction \<Rightarrow> nat \<Rightarrow> u64 \<Rightarrow> instruction" where
  "set_imm8 i index value = add_setters [set_imm_kind index IMMEDIATE8, SetImm8 (ucast value)] i"

definition set_imm_sized :: "instruction \<Rightarrow> nat \<Rightarrow> width \<Rightarrow> bool \<Rightarrow> u64 \<Rightarrow> instruction" where
  "set_imm_sized i index w sign_extended_imm8 value =
     (if sign_extended_imm8 then
        (let byte = ucast value :: 8 word in
         case w of
           W16 \<Rightarrow> add_setters [set_imm_kind index IMMEDIATE8TO16, SetImm8to16 (scast byte)] i
         | W32 \<Rightarrow> add_setters [set_imm_kind index IMMEDIATE8TO32, SetImm8to32 (scast byte)] i
         | _ \<Rightarrow> add_setters [set_imm_kind index IMMEDIATE8TO64, SetImm8to64 (scast byte)] i)
      else
        (case w of
           W8 \<Rightarrow> add_setters [set_imm_kind index IMMEDIATE8, SetImm8 (ucast value)] i
         | W16 \<Rightarrow> add_setters [set_imm_kind index IMMEDIATE16, SetImm16 (ucast value)] i
         | W32 \<Rightarrow> add_setters [set_imm_kind index IMMEDIATE32, SetImm32 (ucast value)] i
         | W64 \<Rightarrow> add_setters [set_imm_kind index IMMEDIATE32TO64,
                                SetImm32to64 (scast (ucast value :: 32 word))] i))"

text \<open>\<^verbatim>\<open>static_cast<int32_t>\<close> of a random value, plain or through \<^verbatim>\<open>int8_t\<close>, and the
  \<^verbatim>\<open>static_cast<uint64_t>\<close> that hands it to the setters.\<close>

definition to_i32 :: "u64 \<Rightarrow> 32 word" where "to_i32 v = ucast v"
definition to_i8_i32 :: "u64 \<Rightarrow> 32 word" where "to_i8_i32 v = scast (ucast v :: 8 word)"
definition imm_u64 :: "32 word \<Rightarrow> u64" where "imm_u64 imm = scast imm"

definition AI :: "32 word \<Rightarrow> fact_arg" where
  "AI imm = AImm (sint imm)"

definition imm_bits :: "width \<Rightarrow> nat" where
  "imm_bits w = (if w = W8 then 8 else if w = W16 then 16 else 32)"

subsection \<open>The contract of a family\<close>

definition is_imm :: "fact_arg \<Rightarrow> bool" where
  "is_imm a = (case a of AImm _ \<Rightarrow> True | _ \<Rightarrow> False)"

definition is_mem :: "fact_arg \<Rightarrow> bool" where
  "is_mem a = (case a of AMem _ \<Rightarrow> True | _ \<Rightarrow> False)"

text \<open>The kind an immediate must have, read off the name of the code as iced-x86 composes it: the last part is
  the size of the immediate in the encoding; one of 32 bits is widened where the operand has 64, and one
  of 8 bits is widened to the operand in the arithmetic group and IMUL, and nowhere else.\<close>

fun occurs :: "string \<Rightarrow> string \<Rightarrow> bool" where
  "occurs p [] = (p = [])"
| "occurs p (x # xs) = (take (length p) (x # xs) = p \<or> occurs p xs)"

definition mnemonic :: "code \<Rightarrow> string" where
  "mnemonic k = takeWhile (\<lambda>c. c \<noteq> CHR 0x5F) k"

definition kWidened :: "string list" where
  "kWidened = [''ADD'', ''OR'', ''ADC'', ''SBB'', ''AND'', ''SUB'', ''XOR'', ''CMP'', ''IMUL'']"

definition imm_kind :: "code \<Rightarrow> op_kind" where
  "imm_kind k =
     (if occurs ''_IMM64'' k then IMMEDIATE64
      else if occurs ''_IMM32'' k then (if occurs ''_RM64'' k \<or> occurs ''_RAX'' k then IMMEDIATE32TO64 else IMMEDIATE32)
      else if occurs ''_IMM16'' k then IMMEDIATE16
      else if mnemonic k \<notin> set kWidened then IMMEDIATE8
      else if occurs ''_RM16'' k then IMMEDIATE8TO16
      else if occurs ''_RM32'' k then IMMEDIATE8TO32
      else if occurs ''_RM64'' k then IMMEDIATE8TO64
      else IMMEDIATE8)"

text \<open>The kinds stamped on an operand, and those of the values stored.\<close>

definition kinds_at :: "nat \<Rightarrow> instruction \<Rightarrow> op_kind list" where
  "kinds_at n i = concat (map (\<lambda>s. case s of SetOpKind j kind \<Rightarrow> if j = n then [kind] else [] | _ \<Rightarrow> []) (setters i))"

definition value_kinds :: "instruction \<Rightarrow> op_kind list" where
  "value_kinds i = concat (map (\<lambda>s. case s of
     SetImm8 v \<Rightarrow> [IMMEDIATE8] | SetImm16 v \<Rightarrow> [IMMEDIATE16] | SetImm32 v \<Rightarrow> [IMMEDIATE32]
   | SetImm8to16 v \<Rightarrow> [IMMEDIATE8TO16] | SetImm8to32 v \<Rightarrow> [IMMEDIATE8TO32] | SetImm8to64 v \<Rightarrow> [IMMEDIATE8TO64]
   | SetImm32to64 v \<Rightarrow> [IMMEDIATE32TO64] | _ \<Rightarrow> []) (setters i))"

text \<open>Every immediate operand carries exactly the kind its code wants, no other operand carries any, and the
  value is stored by the setter of that kind.\<close>

definition imm_stamped :: "instruction \<Rightarrow> bool" where
  "imm_stamped i = (case build i of
     With c args \<Rightarrow> list_all (\<lambda>(n, a). kinds_at n i = (if is_imm a then [imm_kind c] else [])) (enumerate 0 args) \<and>
       value_kinds i = (if list_ex is_imm args then [imm_kind c] else [])
   | _ \<Rightarrow> True)"

definition mem_ok :: "fact_arg \<Rightarrow> bool" where
  "mem_ok a = (case a of
     AMem (MemBaseDispl b d s) \<Rightarrow> b = ''RDI'' \<and> disp_ok d
   | AMem (MemDispl addr s) \<Rightarrow> kDataBase \<le> addr \<and> addr - kDataBase \<le> 120
   | _ \<Rightarrow> True)"

definition uses_memory :: "instruction \<Rightarrow> bool" where
  "uses_memory i = (case build i of With c args \<Rightarrow> list_ex is_mem args | WithString _ _ _ \<Rightarrow> True | _ \<Rightarrow> False)"

definition is_string_op :: "instruction \<Rightarrow> bool" where
  "is_string_op i = (case build i of WithString _ _ _ \<Rightarrow> True | _ \<Rightarrow> False)"

definition build_ok :: "instruction \<Rightarrow> bool" where
  "build_ok i = (case build i of
     With c args \<Rightarrow> list_all mem_ok args
   | WithBranch c t \<Rightarrow> target_ok t
   | WithString _ _ _ \<Rightarrow> True)"

definition kMidWindow :: u64 where
  "kMidWindow = kDataBase + of_nat (kDataWindow div 2)"

text \<open>What a family may leave in the context.\<close>

definition flags_ok :: "ctx \<Rightarrow> bool" where
  "flags_ok c \<longleftrightarrow> c_flags_mask c AND NOT kCompareFlagsMask = 0"

definition data_ok :: "ctx \<Rightarrow> bool" where
  "data_ok c \<longleftrightarrow>
     (case force_data_qword c of None \<Rightarrow> True | Some (off, v) \<Rightarrow> off + 8 \<le> 128 \<and> target_ok v) \<and>
     (case force_data_bytes c of None \<Rightarrow> True | Some fb \<Rightarrow>
        fb_offset fb + fb_size fb \<le> kDataWindow \<and> fb_size fb \<le> 10 \<and> length (fb_value fb) = 10)"

definition bsf_ok :: "ctx \<Rightarrow> bool" where
  "bsf_ok c \<longleftrightarrow>
     (case bsf_bsr_dest c of None \<Rightarrow> True | Some d \<Rightarrow> d < 16 \<and> bsf_bsr_width_bytes c \<in> {2, 4, 8} \<and>
        (case bsf_bsr_src_reg c of Some s \<Rightarrow> s < 16
         | None \<Rightarrow> (case bsf_bsr_src_mem_disp c of Some p \<Rightarrow> disp_ok p | None \<Rightarrow> False)))"

definition x87_ok :: "ctx \<Rightarrow> bool" where
  "x87_ok c \<longleftrightarrow> x87_needs c \<le> 8"

definition rdi_ok :: "instruction \<Rightarrow> ctx \<Rightarrow> bool" where
  "rdi_ok i c \<longleftrightarrow> (c_touches_memory c \<longrightarrow>
     force_gpr c ! 7 = (if is_string_op i then Some kMidWindow else None))"

definition code_of :: "instruction \<Rightarrow> code" where
  "code_of i = (case build i of With c args \<Rightarrow> c | WithBranch c t \<Rightarrow> c | WithString f a r \<Rightarrow> f)"

text \<open>The instructions whose family may overwrite the pinned stack pointer.\<close>

definition kRspForcing :: "code list" where
  "kRspForcing = [''JMP_RM64'', ''CMPXCHG_RM8_R8'', ''CMPXCHG_RM16_R16'', ''CMPXCHG_RM32_R32'',
                  ''CMPXCHG_RM64_R64'']"

definition rsp_ok :: "instruction \<Rightarrow> ctx \<Rightarrow> bool" where
  "rsp_ok i c \<longleftrightarrow> force_gpr c ! 4 = None \<or> code_of i \<in> set kRspForcing"

definition ctx_ok :: "ctx \<Rightarrow> bool" where
  "ctx_ok c \<longleftrightarrow> flags_ok c \<and> data_ok c \<and> bsf_ok c \<and> x87_ok c \<and> length (force_gpr c) = 16"

definition instr_ok :: "instruction \<Rightarrow> ctx \<Rightarrow> bool" where
  "instr_ok i c \<longleftrightarrow> build_ok i \<and> (uses_memory i \<longrightarrow> c_touches_memory c) \<and> rdi_ok i c \<and> rsp_ok i c \<and> ctx_ok c"

definition gen_post :: "instruction option \<Rightarrow> ctx \<Rightarrow> bool" where
  "gen_post r c \<longleftrightarrow> (case r of None \<Rightarrow> True | Some i \<Rightarrow> instr_ok i c)"

definition stamp_post :: "instruction option \<Rightarrow> bool" where
  "stamp_post r \<longleftrightarrow> (case r of None \<Rightarrow> True | Some i \<Rightarrow> imm_stamped i)"

definition fam_post :: "instruction option \<Rightarrow> ctx \<Rightarrow> bool" where
  "fam_post r c \<longleftrightarrow> gen_post r c \<and> stamp_post r"

subsection \<open>Small draws the families share\<close>

definition coin :: "bool draw" where
  "coin = do { v \<leftarrow> rand_int 0 1; State_Monad.return (v = 0) }"

definition draw_width :: "width draw" where
  "draw_width = do { v \<leftarrow> rand_int 0 3; State_Monad.return (width_of_int v) }"

text \<open>One entry of a table, each index equally allowed.\<close>

definition pick :: "'a list \<Rightarrow> 'a draw" where
  "pick xs = do { v \<leftarrow> rand_int 0 (int (length xs) - 1); State_Monad.return (xs ! nat v) }"

definition draw_imm32 :: "bool \<Rightarrow> width \<Rightarrow> (32 word) draw" where
  "draw_imm32 short w =
     (if short then do { v \<leftarrow> random_imm 8; State_Monad.return (to_i8_i32 v) }
      else do { v \<leftarrow> random_imm (imm_bits w); State_Monad.return (to_i32 v) })"

definition short_coin :: "width \<Rightarrow> bool draw" where
  "short_coin w = (if w \<noteq> W8 then coin else State_Monad.return False)"

definition ret :: "instruction \<Rightarrow> instruction option draw" where
  "ret i = State_Monad.return (Some i)"

definition ret_none :: "instruction option draw" where
  "ret_none = State_Monad.return None"

lemma wp_coin [wp_rules]: "(\<And>b g. Q b (c\<lparr>rng := g\<rparr>)) \<Longrightarrow> wp coin Q c"
  by (auto simp: coin_def wp_simps intro!: wp_rules)

lemma wp_draw_width [wp_rules]: "(\<And>w g. Q w (c\<lparr>rng := g\<rparr>)) \<Longrightarrow> wp draw_width Q c"
  by (auto simp: draw_width_def wp_simps intro!: wp_rules)

lemma wp_width16_32_64 [wp_rules]:
  "(\<And>w g. w \<noteq> W8 \<Longrightarrow> Q w (c\<lparr>rng := g\<rparr>)) \<Longrightarrow> wp width16_32_64 Q c"
  by (auto simp: width16_32_64_def wp_simps intro!: wp_rules)

lemma wp_pick [wp_rules]:
  assumes "xs \<noteq> []" "\<And>x g. x \<in> set xs \<Longrightarrow> Q x (c\<lparr>rng := g\<rparr>)"
  shows "wp (pick xs) Q c"
  using assms by (auto simp: pick_def wp_simps nth_mem Suc_le_eq intro!: wp_rules)

lemma wp_draw_imm32 [wp_rules]: "(\<And>v g. Q v (c\<lparr>rng := g\<rparr>)) \<Longrightarrow> wp (draw_imm32 short w) Q c"
  by (auto simp: draw_imm32_def wp_simps intro!: wp_rules)

lemma wp_short_coin [wp_rules]:
  assumes "\<And>b g. (b \<Longrightarrow> w \<noteq> W8) \<Longrightarrow> Q b (c\<lparr>rng := g\<rparr>)"
  shows "wp (short_coin w) Q c"
proof (cases "w = W8")
  case True
  then show ?thesis using assms [of False "rng c"] by (simp add: short_coin_def wp_simps)
next
  case False
  then show ?thesis using assms by (auto simp: short_coin_def intro!: wp_rules)
qed

subsection \<open>The contract, by constructor\<close>

named_theorems gen_simps \<open>evaluation of the family contract\<close>

lemma wp_ret [wp_simps]: "wp (ret i) Q c = Q (Some i) c"
  by (simp add: ret_def wp_simps)

lemma wp_ret_none [wp_simps]: "wp ret_none Q c = Q None c"
  by (simp add: ret_none_def wp_simps)

lemma gen_post_None [gen_simps]: "gen_post None c"
  by (simp add: gen_post_def)

lemma gen_post_Some [gen_simps]: "gen_post (Some i) c = instr_ok i c"
  by (simp add: gen_post_def)

lemma instr_ok_with [gen_simps]:
  "instr_ok (iwith k args) c \<longleftrightarrow> list_all mem_ok args \<and>
     (list_ex is_mem args \<longrightarrow> c_touches_memory c) \<and>
     (c_touches_memory c \<longrightarrow> force_gpr c ! 7 = None) \<and>
     (force_gpr c ! 4 = None \<or> k \<in> set kRspForcing) \<and> ctx_ok c"
  by (auto simp: instr_ok_def iwith_def build_ok_def uses_memory_def rdi_ok_def is_string_op_def
      rsp_ok_def code_of_def)

lemma instr_ok_branch [gen_simps]:
  "instr_ok (with_branch k t) c \<longleftrightarrow> target_ok t \<and>
     (c_touches_memory c \<longrightarrow> force_gpr c ! 7 = None) \<and>
     (force_gpr c ! 4 = None \<or> k \<in> set kRspForcing) \<and> ctx_ok c"
  by (auto simp: instr_ok_def with_branch_def build_ok_def uses_memory_def rdi_ok_def is_string_op_def
      rsp_ok_def code_of_def)

lemma instr_ok_string [gen_simps]:
  "instr_ok (with_string k a r) c \<longleftrightarrow> c_touches_memory c \<and> force_gpr c ! 7 = Some kMidWindow \<and>
     (force_gpr c ! 4 = None \<or> k \<in> set kRspForcing) \<and> ctx_ok c"
  by (auto simp: instr_ok_def with_string_def build_ok_def uses_memory_def rdi_ok_def is_string_op_def
      rsp_ok_def code_of_def)

lemma instr_ok_setters [gen_simps]: "instr_ok (add_setters ss i) c = instr_ok i c"
  by (simp add: instr_ok_def add_setters_def build_ok_def uses_memory_def rdi_ok_def is_string_op_def
      rsp_ok_def code_of_def)

lemma instr_ok_set_imm8 [gen_simps]: "instr_ok (set_imm8 i k v) c = instr_ok i c"
  by (simp add: set_imm8_def instr_ok_setters)

lemma instr_ok_set_imm_sized [gen_simps]: "instr_ok (set_imm_sized i k w b v) c = instr_ok i c"
  by (simp add: set_imm_sized_def instr_ok_setters Let_def split: width.splits)

lemma mem_ok_simps [gen_simps]:
  "mem_ok (AR w r)" "mem_ok (AReg x)" "mem_ok (AI v)" "mem_ok (AImm n)"
  "mem_ok (mem_operand d) = disp_ok d"
  by (simp_all add: mem_ok_def AR_def AI_def mem_operand_def)

lemma is_mem_simps [gen_simps]:
  "\<not> is_mem (AR w r)" "\<not> is_mem (AReg x)" "\<not> is_mem (AI v)" "\<not> is_mem (AImm n)"
  "is_mem (mem_operand d)" "is_mem (AMem m)"
  by (simp_all add: is_mem_def AR_def AI_def mem_operand_def)

lemma is_imm_simps [gen_simps]:
  "\<not> is_imm (AR w r)" "\<not> is_imm (AReg x)" "is_imm (AI v)" "is_imm (AImm n)"
  "\<not> is_imm (mem_operand d)" "\<not> is_imm (AMem m)"
  by (simp_all add: is_imm_def AR_def AI_def mem_operand_def)

lemmas ctx_ok_unfold = ctx_ok_def flags_ok_def data_ok_def bsf_ok_def x87_ok_def fresh_ctx_def

lemma mask_in_compare [gen_simps]:
  "kCompareFlagsMask AND NOT kCompareFlagsMask = 0"
  "(0 :: u64) AND NOT kCompareFlagsMask = 0"
  "(1 :: u64) AND NOT kCompareFlagsMask = 0"
  "(0x40 :: u64) AND NOT kCompareFlagsMask = 0"
  "(0x801 :: u64) AND NOT kCompareFlagsMask = 0"
  "(0x8C1 :: u64) AND NOT kCompareFlagsMask = 0"
  by (simp_all add: kCompareFlagsMask_def)

lemma mask_subset [gen_simps]:
  "m AND NOT kCompareFlagsMask = 0 \<Longrightarrow> (m AND n) AND NOT kCompareFlagsMask = 0"
  by (metis and.assoc and.commute and_zero_eq)

lemma fam_post_simps [gen_simps]:
  "fam_post None c"
  "fam_post (Some i) c \<longleftrightarrow> instr_ok i c \<and> imm_stamped i"
  by (simp_all add: fam_post_def stamp_post_def gen_simps)

lemma fam_post_gen_post: "wp m fam_post c \<Longrightarrow> wp m gen_post c"
  by (erule wp_mono) (simp add: fam_post_def)

lemma list_all_enumerate_snd: "list_all (\<lambda>(k, a). P a) (enumerate n xs) = list_all P xs"
  by (induction xs arbitrary: n) auto

lemma list_ex_enumerate: "list_ex P xs \<longleftrightarrow> (\<exists>x \<in> set (enumerate n xs). P (snd x))"
  by (induction xs arbitrary: n) auto

lemma imm_stamped_with [gen_simps]: "imm_stamped (iwith k args) = list_all (\<lambda>a. \<not> is_imm a) args"
proof -
  have "list_all (\<lambda>(n, a). (if is_imm a then [imm_kind k] else []) = []) (enumerate 0 args) = list_all (\<lambda>a. \<not> is_imm a) args"
    unfolding list_all_enumerate_snd [of "\<lambda>a. (if is_imm a then [imm_kind k] else []) = []"] by (simp add: list_all_iff)
  then show ?thesis
    by (auto simp: imm_stamped_def iwith_def kinds_at_def value_kinds_def list_ex_iff list_all_iff eq_commute [of "[]"])
qed

lemma imm_stamped_others [gen_simps]:
  "imm_stamped (with_branch k t)" "imm_stamped (with_string f a r)"
  by (simp_all add: imm_stamped_def with_branch_def with_string_def)

text \<open>An instruction that was stamped once.\<close>

fun stores :: "setter \<Rightarrow> op_kind \<Rightarrow> bool" where
  "stores (SetImm8 v) kind = (kind = IMMEDIATE8)"
| "stores (SetImm16 v) kind = (kind = IMMEDIATE16)"
| "stores (SetImm32 v) kind = (kind = IMMEDIATE32)"
| "stores (SetImm8to16 v) kind = (kind = IMMEDIATE8TO16)"
| "stores (SetImm8to32 v) kind = (kind = IMMEDIATE8TO32)"
| "stores (SetImm8to64 v) kind = (kind = IMMEDIATE8TO64)"
| "stores (SetImm32to64 v) kind = (kind = IMMEDIATE32TO64)"
| "stores _ kind = False"

lemma imm_stamped_once:
  assumes s: "stores s kind"
  shows "imm_stamped (add_setters [set_imm_kind j kind, s] (iwith k args)) \<longleftrightarrow>
     list_all (\<lambda>(n, a). is_imm a \<longleftrightarrow> n = min j 2) (enumerate 0 args) \<and> list_ex is_imm args \<and> imm_kind k = kind"
proof -
  let ?i = "add_setters [set_imm_kind j kind, s] (iwith k args)"
  have i: "setters ?i = [set_imm_kind j kind, s]" "build ?i = With k args"
    by (simp_all add: add_setters_def iwith_def)
  have k: "kinds_at n ?i = (if n = min j 2 then [kind] else [])" for n
    using s unfolding kinds_at_def i(1) by (cases "(s, kind)" rule: stores.cases) (auto simp: set_imm_kind_def)
  have v: "value_kinds ?i = [kind]"
    using s unfolding value_kinds_def i(1) by (cases "(s, kind)" rule: stores.cases) (auto simp: set_imm_kind_def)
  show ?thesis
    unfolding imm_stamped_def i(2) build.case k v
    by (auto simp: list_all_iff list_ex_enumerate [of is_imm _ 0] split: if_splits)
qed

definition sized_kind :: "bool \<Rightarrow> width \<Rightarrow> op_kind" where
  "sized_kind short w =
     (if short then (case w of W16 \<Rightarrow> IMMEDIATE8TO16 | W32 \<Rightarrow> IMMEDIATE8TO32 | _ \<Rightarrow> IMMEDIATE8TO64)
      else (case w of W8 \<Rightarrow> IMMEDIATE8 | W16 \<Rightarrow> IMMEDIATE16 | W32 \<Rightarrow> IMMEDIATE32 | W64 \<Rightarrow> IMMEDIATE32TO64))"

lemma imm_stamped_set_imm8 [gen_simps]:
  "imm_stamped (set_imm8 (iwith k args) j v) \<longleftrightarrow>
     list_all (\<lambda>(n, a). is_imm a \<longleftrightarrow> n = min j 2) (enumerate 0 args) \<and> list_ex is_imm args \<and> imm_kind k = IMMEDIATE8"
  by (simp add: set_imm8_def imm_stamped_once)

lemma imm_stamped_set_imm_sized [gen_simps]:
  "imm_stamped (set_imm_sized (iwith k args) j w b v) \<longleftrightarrow>
     list_all (\<lambda>(n, a). is_imm a \<longleftrightarrow> n = min j 2) (enumerate 0 args) \<and> list_ex is_imm args \<and> imm_kind k = sized_kind b w"
  by (cases w; cases b; simp add: set_imm_sized_def sized_kind_def Let_def imm_stamped_once)

text \<open>The families whose immediates are not all stamped: everything but the listed codes is.\<close>

definition fam_post_except :: "code list \<Rightarrow> instruction option \<Rightarrow> ctx \<Rightarrow> bool" where
  "fam_post_except cs r c \<longleftrightarrow> gen_post r c \<and>
     (case r of None \<Rightarrow> True | Some i \<Rightarrow> imm_stamped i \<longleftrightarrow> code_of i \<notin> set cs)"

lemma code_of_simps [gen_simps]:
  "code_of (iwith k args) = k" "code_of (with_branch k t) = k" "code_of (with_string f a r) = f"
  "code_of (add_setters ss i) = code_of i" "code_of (set_imm8 i j v) = code_of i"
  "code_of (set_imm_sized i j w b v) = code_of i"
  by (simp_all add: code_of_def iwith_def with_branch_def with_string_def add_setters_def set_imm8_def
      set_imm_sized_def Let_def split: width.splits)

lemma fam_post_except_simps [gen_simps]:
  "fam_post_except cs None c"
  "fam_post_except cs (Some i) c \<longleftrightarrow> instr_ok i c \<and> (imm_stamped i \<longleftrightarrow> code_of i \<notin> set cs)"
  by (simp_all add: fam_post_except_def gen_simps)

lemma fam_post_except_gen_post: "wp m (fam_post_except cs) c \<Longrightarrow> wp m gen_post c"
  by (erule wp_mono) (simp add: fam_post_except_def)

end
