(* ===== verification/GenInt.thy ===== *)
theory GenInt
  imports Instr
begin

section \<open>Integer, branch and string families\<close>

text \<open>
  The integer families of \<^verbatim>\<open>src/gen/instruction_gen.cpp\<close>, in the order of the source, with their
  code tables. Each family is followed by the proof that it keeps the family contract
  \<open>gen_post\<close> from a fresh context.
\<close>

subsection \<open>ALU and TEST\<close>

record alu_codes =
  rm_r :: "code list"
  r_rm :: "code list"
  rm_imm8 :: "code list"
  rm_immfull :: "code list"
  acc_imm :: "code list"

definition sf_alu :: "string \<Rightarrow> alu_codes" where
  "sf_alu OP = \<lparr>
     rm_r = [OP @ ''_RM8_R8'', OP @ ''_RM16_R16'', OP @ ''_RM32_R32'', OP @ ''_RM64_R64''],
     r_rm = [OP @ ''_R8_RM8'', OP @ ''_R16_RM16'', OP @ ''_R32_RM32'', OP @ ''_R64_RM64''],
     rm_imm8 = [OP @ ''_RM8_IMM8'', OP @ ''_RM16_IMM8'', OP @ ''_RM32_IMM8'', OP @ ''_RM64_IMM8''],
     rm_immfull = [OP @ ''_RM8_IMM8'', OP @ ''_RM16_IMM16'', OP @ ''_RM32_IMM32'', OP @ ''_RM64_IMM32''],
     acc_imm = [OP @ ''_AL_IMM8'', OP @ ''_AX_IMM16'', OP @ ''_EAX_IMM32'', OP @ ''_RAX_IMM32'']\<rparr>"

definition kAluOps :: "alu_codes list" where
  "kAluOps = map sf_alu [''ADD'', ''OR'', ''ADC'', ''SBB'', ''AND'', ''SUB'', ''XOR'', ''CMP'']"

definition gen_alu :: "instruction option draw" where
  "gen_alu = do {
     t \<leftarrow> pick kAluOps;
     w \<leftarrow> draw_width;
     let wi = width_index w;
     form \<leftarrow> rand_int 0 3;
     if form = 3 then do {
       imm \<leftarrow> draw_imm32 False w;
       ret (set_imm_sized (iwith (acc_imm t ! wi) [AReg (acc_of w), AI imm]) 1 w False (imm_u64 imm))
     } else if form = 0 then do {
       a \<leftarrow> pick_reg_index;
       b \<leftarrow> pick_reg_index;
       ret (iwith (rm_r t ! wi) [AR w a, AR w b])
     } else if form = 1 then do {
       a \<leftarrow> pick_reg_index;
       short_imm \<leftarrow> short_coin w;
       let code = (if short_imm then rm_imm8 t ! wi else rm_immfull t ! wi);
       imm \<leftarrow> draw_imm32 short_imm w;
       ret (set_imm_sized (iwith code [AR w a, AI imm]) 1 w short_imm (imm_u64 imm))
     } else do {
       touch_memory;
       disp \<leftarrow> random_disp8;
       m \<leftarrow> coin;
       if m then do {
         short_imm \<leftarrow> short_coin w;
         let code = (if short_imm then rm_imm8 t ! wi else rm_immfull t ! wi);
         imm \<leftarrow> draw_imm32 short_imm w;
         ret (set_imm_sized (iwith code [mem_operand disp, AI imm]) 1 w short_imm (imm_u64 imm))
       } else do {
         r \<leftarrow> pick_reg_index;
         d \<leftarrow> coin;
         if d then ret (iwith (rm_r t ! wi) [mem_operand disp, AR w r])
         else ret (iwith (r_rm t ! wi) [AR w r, mem_operand disp])
       }
     }
   }"

text \<open>The kinds that the codes of the table want are those that \<open>set_imm_sized\<close> stamps.\<close>

lemma alu_kinds [gen_simps]:
  assumes "t \<in> set kAluOps"
  shows "imm_kind (acc_imm t ! width_index w) = sized_kind False w"
    and "imm_kind (rm_immfull t ! width_index w) = sized_kind False w"
    and "w \<noteq> W8 \<Longrightarrow> imm_kind (rm_imm8 t ! width_index w) = sized_kind True w"
proof -
  have "list_all (\<lambda>t. list_all (\<lambda>w. imm_kind (acc_imm t ! width_index w) = sized_kind False w \<and>
          imm_kind (rm_immfull t ! width_index w) = sized_kind False w \<and>
          (w = W8 \<or> imm_kind (rm_imm8 t ! width_index w) = sized_kind True w)) [W8, W16, W32, W64]) kAluOps"
    by code_simp
  moreover have "w \<in> set [W8, W16, W32, W64]" by (cases w) simp_all
  ultimately show "imm_kind (acc_imm t ! width_index w) = sized_kind False w"
      "imm_kind (rm_immfull t ! width_index w) = sized_kind False w"
      "w \<noteq> W8 \<Longrightarrow> imm_kind (rm_imm8 t ! width_index w) = sized_kind True w"
    using assms unfolding list_all_iff by blast+
qed

lemma kAluOps_nonempty [gen_simps]: "kAluOps \<noteq> []"
  by (simp add: kAluOps_def)

lemma gen_alu_ok: "wp gen_alu fam_post (fresh_ctx g)"
  by (auto simp: gen_alu_def wp_simps gen_simps ctx_ok_unfold Let_def intro!: wp_rules)

definition kTest_rm_r :: "code list" where
  "kTest_rm_r = [''TEST_RM8_R8'', ''TEST_RM16_R16'', ''TEST_RM32_R32'', ''TEST_RM64_R64'']"

definition kTest_rm_imm :: "code list" where
  "kTest_rm_imm = [''TEST_RM8_IMM8'', ''TEST_RM16_IMM16'', ''TEST_RM32_IMM32'', ''TEST_RM64_IMM32'']"

definition kTestImmF7R1 :: "code list" where
  "kTestImmF7R1 = [''TEST_RM8_IMM8_F6R1'', ''TEST_RM16_IMM16_F7R1'', ''TEST_RM32_IMM32_F7R1'',
                   ''TEST_RM64_IMM32_F7R1'']"

definition kTestAccImm :: "code list" where
  "kTestAccImm = [''TEST_AL_IMM8'', ''TEST_AX_IMM16'', ''TEST_EAX_IMM32'', ''TEST_RAX_IMM32'']"

definition gen_test :: "instruction option draw" where
  "gen_test = do {
     w \<leftarrow> draw_width;
     let wi = width_index w;
     form \<leftarrow> rand_int 0 3;
     if form = 3 then do {
       imm \<leftarrow> draw_imm32 False w;
       accumulator \<leftarrow> coin;
       instr \<leftarrow> (if accumulator then State_Monad.return (iwith (kTestAccImm ! wi) [AReg (acc_of w), AI imm])
                else do {
                  r \<leftarrow> pick_reg_index;
                  State_Monad.return (iwith (kTestImmF7R1 ! wi) [AR w r, AI imm])
                });
       ret (set_imm_sized instr 1 w False (imm_u64 imm))
     } else if form = 0 then do {
       a \<leftarrow> pick_reg_index;
       b \<leftarrow> pick_reg_index;
       ret (iwith (kTest_rm_r ! wi) [AR w a, AR w b])
     } else if form = 1 then do {
       a \<leftarrow> pick_reg_index;
       imm \<leftarrow> draw_imm32 False w;
       ret (set_imm_sized (iwith (kTest_rm_imm ! wi) [AR w a, AI imm]) 1 w False (imm_u64 imm))
     } else do {
       touch_memory;
       disp \<leftarrow> random_disp8;
       m \<leftarrow> coin;
       if m then do {
         b \<leftarrow> pick_reg_index;
         ret (iwith (kTest_rm_r ! wi) [mem_operand disp, AR w b])
       } else do {
         imm \<leftarrow> draw_imm32 False w;
         ret (set_imm_sized (iwith (kTest_rm_imm ! wi) [mem_operand disp, AI imm]) 1 w False (imm_u64 imm))
       }
     }
   }"

lemma test_kinds [gen_simps]:
  "imm_kind (kTestAccImm ! width_index w) = sized_kind False w"
  "imm_kind (kTestImmF7R1 ! width_index w) = sized_kind False w"
  "imm_kind (kTest_rm_imm ! width_index w) = sized_kind False w"
  by (cases w; hypsubst; code_simp)+

lemma gen_test_ok: "wp gen_test fam_post (fresh_ctx g)"
  by (auto simp: gen_test_def wp_simps gen_simps ctx_ok_unfold Let_def intro!: wp_rules)

subsection \<open>INC, DEC, NEG, NOT\<close>

definition sf_un :: "string \<Rightarrow> code list" where
  "sf_un OP = [OP @ ''_RM8'', OP @ ''_RM16'', OP @ ''_RM32'', OP @ ''_RM64'']"

definition kUnaryOps :: "code list list" where
  "kUnaryOps = map sf_un [''INC'', ''DEC'', ''NEG'', ''NOT'']"

definition gen_unary :: "instruction option draw" where
  "gen_unary = do {
     t \<leftarrow> pick kUnaryOps;
     w \<leftarrow> draw_width;
     r \<leftarrow> coin;
     if r then do {
       a \<leftarrow> pick_reg_index;
       ret (iwith (t ! width_index w) [AR w a])
     } else do {
       touch_memory;
       disp \<leftarrow> random_disp8;
       ret (iwith (t ! width_index w) [mem_operand disp])
     }
   }"

lemma gen_unary_ok: "wp gen_unary fam_post (fresh_ctx g)"
  by (auto simp: gen_unary_def kUnaryOps_def wp_simps gen_simps ctx_ok_unfold Let_def intro!: wp_rules)

subsection \<open>Shifts and rotates\<close>

record shift_codes =
  sh_imm8 :: "code list"
  sh_cl :: "code list"
  sh_one :: "code list"

definition sf_sh :: "string \<Rightarrow> shift_codes" where
  "sf_sh OP = \<lparr>
     sh_imm8 = [OP @ ''_RM8_IMM8'', OP @ ''_RM16_IMM8'', OP @ ''_RM32_IMM8'', OP @ ''_RM64_IMM8''],
     sh_cl = [OP @ ''_RM8_CL'', OP @ ''_RM16_CL'', OP @ ''_RM32_CL'', OP @ ''_RM64_CL''],
     sh_one = [OP @ ''_RM8_1'', OP @ ''_RM16_1'', OP @ ''_RM32_1'', OP @ ''_RM64_1'']\<rparr>"

definition kShiftOps :: "shift_codes list" where
  "kShiftOps = map sf_sh [''SHL'', ''SHR'', ''SAR'', ''ROL'', ''ROR'', ''RCL'', ''RCR'', ''SAL'']"

definition gen_shift :: "instruction option draw" where
  "gen_shift = do {
     t \<leftarrow> pick kShiftOps;
     w \<leftarrow> draw_width;
     let wi = width_index w;
     count_form \<leftarrow> rand_int 0 2;
     let use_one = (count_form = 2);
     let use_cl = (count_form = 1);
     m \<leftarrow> rand_int 0 3;
     let use_mem = (m = 0);
     (if \<not> use_one then upd (\<lambda>c. c\<lparr>c_flags_mask := c_flags_mask c AND NOT 0x0800\<rparr>)
      else State_Monad.return ());
     if \<not> use_mem then do {
       a \<leftarrow> pick_reg_index;
       if use_one then ret (set_imm8 (iwith (sh_one t ! wi) [AR w a, AImm 1]) 1 1)
       else if use_cl then ret (iwith (sh_cl t ! wi) [AR w a, AReg ''CL''])
       else do {
         v \<leftarrow> random_imm 8;
         q \<leftarrow> rand_int 0 4;
         let imm = (if q \<noteq> 0 then to_i32 v AND 0x3F else to_i32 v);
         ret (set_imm8 (iwith (sh_imm8 t ! wi) [AR w a, AI imm]) 1 (imm_u64 imm))
       }
     } else do {
       touch_memory;
       disp \<leftarrow> random_disp8;
       if use_one then ret (set_imm8 (iwith (sh_one t ! wi) [mem_operand disp, AImm 1]) 1 1)
       else if use_cl then ret (iwith (sh_cl t ! wi) [mem_operand disp, AReg ''CL''])
       else do {
         v \<leftarrow> random_imm 8;
         let imm = to_i32 v;
         ret (set_imm8 (iwith (sh_imm8 t ! wi) [mem_operand disp, AI imm]) 1 (imm_u64 imm))
       }
     }
   }"

lemma shift_kinds [gen_simps]:
  assumes "t \<in> set kShiftOps"
  shows "imm_kind (sh_one t ! width_index w) = IMMEDIATE8" "imm_kind (sh_imm8 t ! width_index w) = IMMEDIATE8"
proof -
  have "list_all (\<lambda>t. list_all (\<lambda>w. imm_kind (sh_one t ! width_index w) = IMMEDIATE8 \<and>
          imm_kind (sh_imm8 t ! width_index w) = IMMEDIATE8) [W8, W16, W32, W64]) kShiftOps"
    by code_simp
  moreover have "w \<in> set [W8, W16, W32, W64]" by (cases w) simp_all
  ultimately show "imm_kind (sh_one t ! width_index w) = IMMEDIATE8" "imm_kind (sh_imm8 t ! width_index w) = IMMEDIATE8"
    using assms unfolding list_all_iff by blast+
qed

lemma kShiftOps_nonempty [gen_simps]: "kShiftOps \<noteq> []"
  by (simp add: kShiftOps_def)

lemma gen_shift_ok: "wp gen_shift fam_post (fresh_ctx g)"
  by (auto simp: gen_shift_def wp_simps gen_simps ctx_ok_unfold Let_def intro!: wp_rules)

subsection \<open>MOV, MOVZX, MOVSX\<close>

definition kMov_rm_r :: "code list" where
  "kMov_rm_r = [''MOV_RM8_R8'', ''MOV_RM16_R16'', ''MOV_RM32_R32'', ''MOV_RM64_R64'']"

definition kMov_r_rm :: "code list" where
  "kMov_r_rm = [''MOV_R8_RM8'', ''MOV_R16_RM16'', ''MOV_R32_RM32'', ''MOV_R64_RM64'']"

definition kMov_rm_imm :: "code list" where
  "kMov_rm_imm = [''MOV_RM8_IMM8'', ''MOV_RM16_IMM16'', ''MOV_RM32_IMM32'', ''MOV_RM64_IMM32'']"

definition gen_mov :: "instruction option draw" where
  "gen_mov = do {
     w \<leftarrow> draw_width;
     let wi = width_index w;
     form \<leftarrow> rand_int 0 3;
     if form = 0 then do {
       a \<leftarrow> pick_reg_index;
       b \<leftarrow> pick_reg_index;
       ret (iwith (kMov_rm_r ! wi) [AR w a, AR w b])
     } else if form = 1 then do {
       a \<leftarrow> pick_reg_index;
       if w = W64 then do {
         imm \<leftarrow> random_interesting_u64;
         ret (iwith ''MOV_R64_IMM64'' [AR w a, AImm (sint imm)])
       } else do {
         v \<leftarrow> random_imm (bits_of w);
         let imm = to_i32 v;
         let code = (if w = W8 then ''MOV_R8_IMM8'' else if w = W16 then ''MOV_R16_IMM16'' else ''MOV_R32_IMM32'');
         ret (set_imm_sized (iwith code [AR w a, AI imm]) 1 w False (imm_u64 imm))
       }
     } else do {
       touch_memory;
       disp \<leftarrow> random_disp8;
       mform \<leftarrow> rand_int 0 2;
       if mform = 0 then do {
         r \<leftarrow> pick_reg_index;
         ret (iwith (kMov_rm_r ! wi) [mem_operand disp, AR w r])
       } else if mform = 1 then do {
         r \<leftarrow> pick_reg_index;
         ret (iwith (kMov_r_rm ! wi) [AR w r, mem_operand disp])
       } else do {
         imm \<leftarrow> draw_imm32 False w;
         ret (set_imm_sized (iwith (kMov_rm_imm ! wi) [mem_operand disp, AI imm]) 1 w False (imm_u64 imm))
       }
     }
   }"

lemma kMov_not_imm64: "k < 4 \<Longrightarrow> kMov_rm_r ! k \<noteq> ''MOV_R64_IMM64''"
  "k < 4 \<Longrightarrow> kMov_r_rm ! k \<noteq> ''MOV_R64_IMM64''" "k < 4 \<Longrightarrow> kMov_rm_imm ! k \<noteq> ''MOV_R64_IMM64''"
  by (auto simp: kMov_rm_r_def kMov_r_rm_def kMov_rm_imm_def numeral_eq_Suc less_Suc_eq)

lemma mov_kinds [gen_simps]:
  "imm_kind (kMov_rm_imm ! width_index w) = sized_kind False w"
  "imm_kind ''MOV_R8_IMM8'' = sized_kind False W8" "imm_kind ''MOV_R16_IMM16'' = sized_kind False W16"
  "imm_kind ''MOV_R32_IMM32'' = sized_kind False W32"
  by ((cases w; hypsubst; code_simp), code_simp+)

lemma mov_kind_at [gen_simps]:
  "imm_kind (kMov_rm_imm ! 0) = sized_kind False W8" "imm_kind (kMov_rm_imm ! Suc 0) = sized_kind False W16"
  "w \<noteq> W8 \<Longrightarrow> w \<noteq> W16 \<Longrightarrow> w \<noteq> W64 \<Longrightarrow> sized_kind False W32 = sized_kind False w"
  using mov_kinds(1) [of W8] mov_kinds(1) [of W16] by (simp_all, cases w, simp_all)

lemma gen_mov_ok: "wp gen_mov (fam_post_except [''MOV_R64_IMM64'']) (fresh_ctx g)"
  by (auto simp: gen_mov_def wp_simps gen_simps ctx_ok_unfold Let_def kMov_not_imm64 width_index_less
      intro!: wp_rules)

definition kMovx_zx :: "code list" where
  "kMovx_zx = [''MOVZX_R16_RM8'', ''MOVZX_R32_RM8'', ''MOVZX_R64_RM8'',
               ''MOVZX_R16_RM16'', ''MOVZX_R32_RM16'', ''MOVZX_R64_RM16'']"

definition kMovx_sx :: "code list" where
  "kMovx_sx = [''MOVSX_R16_RM8'', ''MOVSX_R32_RM8'', ''MOVSX_R64_RM8'',
               ''MOVSX_R16_RM16'', ''MOVSX_R32_RM16'', ''MOVSX_R64_RM16'']"

definition kMovxDstW :: "width list" where "kMovxDstW = [W16, W32, W64, W16, W32, W64]"
definition kMovxSrcW :: "width list" where "kMovxSrcW = [W8, W8, W8, W16, W16, W16]"

definition gen_movx :: "instruction option draw" where
  "gen_movx = do {
     zero_ext \<leftarrow> coin;
     i \<leftarrow> rand_int 0 5;
     let idx = nat i;
     let code = (if zero_ext then kMovx_zx ! idx else kMovx_sx ! idx);
     let dstw = kMovxDstW ! idx;
     let srcw = kMovxSrcW ! idx;
     d \<leftarrow> pick_reg_index;
     r \<leftarrow> coin;
     if r then do {
       s \<leftarrow> pick_reg_index;
       ret (iwith code [AR dstw d, AR srcw s])
     } else do {
       touch_memory;
       disp \<leftarrow> random_disp8;
       ret (iwith code [AR dstw d, mem_operand disp])
     }
   }"

lemma gen_movx_ok: "wp gen_movx fam_post (fresh_ctx g)"
  by (auto simp: gen_movx_def wp_simps gen_simps ctx_ok_unfold Let_def intro!: wp_rules)

definition gen_movsxd :: "instruction option draw" where
  "gen_movsxd = do {
     d \<leftarrow> pick_reg_index;
     r \<leftarrow> coin;
     if r then do {
       s \<leftarrow> pick_reg_index;
       ret (iwith ''MOVSXD_R64_RM32'' [AR W64 d, AR W32 s])
     } else do {
       touch_memory;
       disp \<leftarrow> random_disp8;
       ret (iwith ''MOVSXD_R64_RM32'' [AR W64 d, mem_operand disp])
     }
   }"

lemma gen_movsxd_ok: "wp gen_movsxd fam_post (fresh_ctx g)"
  by (auto simp: gen_movsxd_def wp_simps gen_simps ctx_ok_unfold Let_def intro!: wp_rules)

subsection \<open>Stack, LEA, string instructions, absolute moves\<close>

definition gen_pushpop :: "instruction option draw" where
  "gen_pushpop = do {
     is_push \<leftarrow> coin;
     r \<leftarrow> pick_reg_index;
     ret (iwith (if is_push then ''PUSH_R64'' else ''POP_R64'') [AR W64 r])
   }"

lemma gen_pushpop_ok: "wp gen_pushpop fam_post (fresh_ctx g)"
  by (auto simp: gen_pushpop_def wp_simps gen_simps ctx_ok_unfold Let_def intro!: wp_rules)

definition kLea :: "code list" where "kLea = [''LEA_R16_M'', ''LEA_R32_M'', ''LEA_R64_M'']"

definition gen_lea :: "instruction option draw" where
  "gen_lea = do {
     touch_memory;
     d \<leftarrow> pick_reg_index;
     w \<leftarrow> width16_32_64;
     disp \<leftarrow> random_disp8;
     ret (iwith (kLea ! widx16_32_64 w) [AR w d, mem_operand disp])
   }"

lemma gen_lea_ok: "wp gen_lea fam_post (fresh_ctx g)"
  by (auto simp: gen_lea_def wp_simps gen_simps ctx_ok_unfold Let_def intro!: wp_rules)

definition kStringFactory :: "string list list" where
  "kStringFactory =
     [[''movsb'', ''movsw'', ''movsd'', ''movsq''],
      [''cmpsb'', ''cmpsw'', ''cmpsd'', ''cmpsq''],
      [''scasb'', ''scasw'', ''scasd'', ''scasq''],
      [''stosb'', ''stosw'', ''stosd'', ''stosq''],
      [''lodsb'', ''lodsw'', ''lodsd'', ''lodsq'']]"

definition gen_string_ops :: "instruction option draw" where
  "gen_string_ops = do {
     touch_memory;
     force 6 kMidWindow;
     force 7 kMidWindow;
     family \<leftarrow> rand_int 0 4;
     wi \<leftarrow> rand_int 0 3;
     rep_pick \<leftarrow> rand_int 0 2;
     let rep = (if rep_pick = 0 then RepNone else if rep_pick = 1 then Repe else Repne);
     (if rep \<noteq> RepNone then do {
        n \<leftarrow> rand_int 0 1;
        force 1 (word_of_int n)
      } else State_Monad.return ());
     ret (with_string (kStringFactory ! nat family ! nat wi) 64 rep)
   }"

lemma gen_string_ops_ok: "wp gen_string_ops fam_post (fresh_ctx g)"
  by (auto simp: gen_string_ops_def wp_simps gen_simps ctx_ok_unfold Let_def intro!: wp_rules)

definition kMoffsLoad :: "code list" where
  "kMoffsLoad = [''MOV_AL_MOFFS8'', ''MOV_AX_MOFFS16'', ''MOV_EAX_MOFFS32'', ''MOV_RAX_MOFFS64'']"

definition kMoffsStore :: "code list" where
  "kMoffsStore = [''MOV_MOFFS8_AL'', ''MOV_MOFFS16_AX'', ''MOV_MOFFS32_EAX'', ''MOV_MOFFS64_RAX'']"

definition gen_moffs :: "instruction option draw" where
  "gen_moffs = do {
     set_flags_mask 0;
     touch_memory;
     w \<leftarrow> draw_width;
     let wu = width_index w;
     k \<leftarrow> rand_int 0 15;
     let offset = (word_of_int k * 8 :: u64);
     let addr = AMem (MemDispl (kDataBase + offset) 8);
     d \<leftarrow> coin;
     if d then ret (iwith (kMoffsLoad ! wu) [AReg (acc_of w), addr])
     else ret (iwith (kMoffsStore ! wu) [addr, AReg (acc_of w)])
   }"

lemma moffs_addr_ok [gen_simps]:
  assumes "0 \<le> k" "k \<le> 15"
  shows "mem_ok (AMem (MemDispl (kDataBase + word_of_int k * 8) s))"
proof -
  have "k \<in> {0,1,2,3,4,5,6,7,8,9,10,11,12,13,14,15}" using assms by simp arith
  then show ?thesis by (auto simp: mem_ok_def kDataBase_def)
qed

lemma gen_moffs_ok: "wp gen_moffs fam_post (fresh_ctx g)"
  by (auto simp: gen_moffs_def wp_simps gen_simps ctx_ok_unfold Let_def intro!: wp_rules)

subsection \<open>MOVBE, CRC32, multi-byte NOP\<close>

definition kMovbeLoad :: "code list" where
  "kMovbeLoad = [''MOVBE_R16_M16'', ''MOVBE_R32_M32'', ''MOVBE_R64_M64'']"

definition kMovbeStore :: "code list" where
  "kMovbeStore = [''MOVBE_M16_R16'', ''MOVBE_M32_R32'', ''MOVBE_M64_R64'']"

definition kNop :: "code list" where "kNop = [''NOP_RM16'', ''NOP_RM32'', ''NOP_RM64'']"

definition gen_movbe_crc32_nop :: "instruction option draw" where
  "gen_movbe_crc32_nop = do {
     pk \<leftarrow> rand_int 0 2;
     if pk = 0 then do {
       set_flags_mask 0;
       touch_memory;
       w \<leftarrow> width16_32_64;
       let wu = widx16_32_64 w;
       r \<leftarrow> pick_reg_index;
       disp \<leftarrow> random_disp8;
       l \<leftarrow> coin;
       if l then ret (iwith (kMovbeLoad ! wu) [AR w r, mem_operand disp])
       else ret (iwith (kMovbeStore ! wu) [mem_operand disp, AR w r])
     } else if pk = 1 then do {
       set_flags_mask 0;
       d \<leftarrow> pick_reg_index;
       src \<leftarrow> pick_reg_index;
       dest64 \<leftarrow> coin;
       sw \<leftarrow> (if dest64 then do { b \<leftarrow> coin; State_Monad.return (if b then W8 else W64) }
             else do { k \<leftarrow> rand_int 0 2; State_Monad.return (width_of_int k) });
       let code = (if dest64 then (if sw = W8 then ''CRC32_R64_RM8'' else ''CRC32_R64_RM64'')
                   else if sw = W8 then ''CRC32_R32_RM8''
                   else if sw = W16 then ''CRC32_R32_RM16'' else ''CRC32_R32_RM32'');
       let dw = (if dest64 then W64 else W32);
       m \<leftarrow> rand_int 0 2;
       if m = 0 then do {
         touch_memory;
         disp \<leftarrow> random_disp8;
         ret (iwith code [AR dw d, mem_operand disp])
       } else ret (iwith code [AR dw d, AR sw src])
     } else do {
       set_flags_mask 0;
       w \<leftarrow> width16_32_64;
       let code = kNop ! widx16_32_64 w;
       m \<leftarrow> coin;
       if m then do {
         touch_memory;
         disp \<leftarrow> random_disp8;
         ret (iwith code [mem_operand disp])
       } else do {
         r \<leftarrow> pick_reg_index;
         ret (iwith code [AR w r])
       }
     }
   }"

lemma gen_movbe_crc32_nop_ok: "wp gen_movbe_crc32_nop fam_post (fresh_ctx g)"
  by (auto simp: gen_movbe_crc32_nop_def wp_simps gen_simps ctx_ok_unfold Let_def intro!: wp_rules)

end
