(* ===== verification/GenFlow.thy ===== *)
theory GenFlow
  imports Instr
begin

section \<open>Branches, condition codes, bit tests\<close>

text \<open>
  The control-flow and bit-test families of \<^verbatim>\<open>src/gen/instruction_gen.cpp\<close>. Branch targets are kept
  inside the code page: directly (\<open>with_branch\<close>), through a forced register, or through a qword
  planted in the data page (\<open>indirect_target_disp\<close>).
\<close>

definition indirect_target_disp :: "8 word draw" where
  "indirect_target_disp = do {
     k \<leftarrow> rand_int 0 15;
     let offset = nat k * 8;
     t \<leftarrow> random_code_target;
     upd (\<lambda>c. c\<lparr>force_data_qword := Some (offset, t)\<rparr>);
     State_Monad.return (of_nat offset)
   }"

lemma wp_indirect_target_disp [wp_rules]:
  assumes "\<And>n t g. disp_ok (of_nat n) \<Longrightarrow> n + 8 \<le> 128 \<Longrightarrow> target_ok t \<Longrightarrow>
             Q (of_nat n) (c\<lparr>rng := g, force_data_qword := Some (n, t)\<rparr>)"
  shows "wp indirect_target_disp Q c"
proof -
  have "disp_ok (of_nat (nat k * 8))" if "0 \<le> k" "k \<le> 15" for k :: int
    using that disp_ok_of_int [of "k * 8"] by (simp add: of_nat_nat)
  moreover have "nat k * 8 + 8 \<le> 128" if "k \<le> 15" for k :: int using that by linarith
  ultimately show ?thesis
    unfolding indirect_target_disp_def Let_def using assms
    by (auto simp: wp_simps Let_def simp del: of_nat_mult intro!: wp_rules)
qed

subsection \<open>Condition codes\<close>

definition kCond :: "string list" where
  "kCond = [''O'', ''NO'', ''B'', ''AE'', ''E'', ''NE'', ''BE'', ''A'',
            ''S'', ''NS'', ''P'', ''NP'', ''L'', ''GE'', ''LE'', ''G'']"

definition kJcc :: "code list" where "kJcc = map (\<lambda>cc. ''J'' @ cc @ ''_REL8_64'') kCond"
definition kJcc32 :: "code list" where "kJcc32 = map (\<lambda>cc. ''J'' @ cc @ ''_REL32_64'') kCond"
definition kSetcc :: "code list" where "kSetcc = map (\<lambda>cc. ''SET'' @ cc @ ''_RM8'') kCond"
definition kCmov16 :: "code list" where "kCmov16 = map (\<lambda>cc. ''CMOV'' @ cc @ ''_R16_RM16'') kCond"
definition kCmov32 :: "code list" where "kCmov32 = map (\<lambda>cc. ''CMOV'' @ cc @ ''_R32_RM32'') kCond"
definition kCmov64 :: "code list" where "kCmov64 = map (\<lambda>cc. ''CMOV'' @ cc @ ''_R64_RM64'') kCond"

subsection \<open>Branches\<close>

definition gen_jcc :: "instruction option draw" where
  "gen_jcc = do {
     which \<leftarrow> rand_int 0 15;
     short \<leftarrow> coin;
     if short then do {
       target \<leftarrow> rel8_target;
       ret (with_branch (kJcc ! nat which) target)
     } else do {
       target \<leftarrow> random_code_target;
       ret (with_branch (kJcc32 ! nat which) target)
     }
   }"

lemma gen_jcc_ok: "wp gen_jcc fam_post (fresh_ctx g)"
  by (auto simp: gen_jcc_def wp_simps gen_simps ctx_ok_unfold Let_def intro!: wp_rules)

definition gen_jmp :: "instruction option draw" where
  "gen_jmp = do {
     form \<leftarrow> rand_int 0 3;
     if form = 0 then do {
       target \<leftarrow> rel8_target;
       ret (with_branch ''JMP_REL8_64'' target)
     } else if form = 1 then do {
       target \<leftarrow> random_code_target;
       ret (with_branch ''JMP_REL32_64'' target)
     } else if form = 2 then do {
       r \<leftarrow> pick_reg_index;
       target \<leftarrow> random_code_target;
       force r target;
       ret (iwith ''JMP_RM64'' [AR W64 r])
     } else do {
       disp \<leftarrow> indirect_target_disp;
       touch_memory;
       ret (iwith ''JMP_RM64'' [mem_operand disp])
     }
   }"

lemma gen_jmp_ok: "wp gen_jmp fam_post (fresh_ctx g)"
  by (auto simp: gen_jmp_def kRspForcing_def wp_simps gen_simps ctx_ok_unfold Let_def intro!: wp_rules)

definition gen_call :: "instruction option draw" where
  "gen_call = do {
     form \<leftarrow> rand_int 0 2;
     if form = 0 then do {
       target \<leftarrow> random_code_target;
       ret (with_branch ''CALL_REL32_64'' target)
     } else if form = 1 then do {
       r \<leftarrow> pick_reg_index;
       if r = 4 then ret_none
       else do {
         target \<leftarrow> random_code_target;
         force r target;
         ret (iwith ''CALL_RM64'' [AR W64 r])
       }
     } else do {
       disp \<leftarrow> indirect_target_disp;
       touch_memory;
       ret (iwith ''CALL_RM64'' [mem_operand disp])
     }
   }"

lemma gen_call_ok: "wp gen_call fam_post (fresh_ctx g)"
  by (auto simp: gen_call_def wp_simps gen_simps ctx_ok_unfold Let_def intro!: wp_rules)

definition gen_ret :: "instruction option draw" where
  "gen_ret = do {
     plain \<leftarrow> coin;
     if plain then ret (iwith ''RETNQ'' [])
     else do {
       k \<leftarrow> rand_int 0 32;
       let pop_bytes = k * 8;
       ret (add_setters [set_imm_kind 0 IMMEDIATE16, SetImm16 (word_of_int pop_bytes)]
              (iwith ''RETNQ_IMM16'' [AImm pop_bytes]))
     }
   }"

lemma imm_stamped_kind0 [gen_simps]:
  "imm_stamped (add_setters [set_imm_kind 0 IMMEDIATE16, SetImm16 v] (iwith ''RETNQ_IMM16'' [AImm n]))"
proof -
  have "imm_kind ''RETNQ_IMM16'' = IMMEDIATE16" by code_simp
  then show ?thesis by (simp add: imm_stamped_once is_imm_def)
qed

lemma gen_ret_ok: "wp gen_ret fam_post (fresh_ctx g)"
  by (auto simp: gen_ret_def wp_simps gen_simps ctx_ok_unfold Let_def intro!: wp_rules)

definition kLoop :: "code list" where
  "kLoop = [''LOOP_REL8_64_RCX'', ''LOOP_REL8_64_ECX'', ''LOOPE_REL8_64_RCX'',
            ''LOOPE_REL8_64_ECX'', ''LOOPNE_REL8_64_RCX'', ''LOOPNE_REL8_64_ECX'']"

definition gen_loop :: "instruction option draw" where
  "gen_loop = do {
     target \<leftarrow> rel8_target;
     pk \<leftarrow> rand_int 0 7;
     biased \<leftarrow> coin;
     (if biased then do { n \<leftarrow> rand_int 0 3; force 1 (word_of_int n) } else State_Monad.return ());
     if pk = 6 then ret (with_branch ''JRCXZ_REL8_64'' target)
     else if pk = 7 then ret (with_branch ''JECXZ_REL8_64'' target)
     else ret (with_branch (kLoop ! nat pk) target)
   }"

lemma gen_loop_ok: "wp gen_loop fam_post (fresh_ctx g)"
  by (auto simp: gen_loop_def wp_simps gen_simps ctx_ok_unfold Let_def intro!: wp_rules)

subsection \<open>SETcc, CMOVcc\<close>

definition gen_setcc :: "instruction option draw" where
  "gen_setcc = do {
     cc \<leftarrow> rand_int 0 15;
     let code = kSetcc ! nat cc;
     r \<leftarrow> coin;
     if r then do {
       a \<leftarrow> pick_reg_index;
       ret (iwith code [AR W8 a])
     } else do {
       touch_memory;
       disp \<leftarrow> random_disp8;
       ret (iwith code [mem_operand disp])
     }
   }"

lemma gen_setcc_ok: "wp gen_setcc fam_post (fresh_ctx g)"
  by (auto simp: gen_setcc_def wp_simps gen_simps ctx_ok_unfold Let_def intro!: wp_rules)

definition gen_cmovcc :: "instruction option draw" where
  "gen_cmovcc = do {
     cc \<leftarrow> rand_int 0 15;
     wpick \<leftarrow> rand_int 0 2;
     let w = (if wpick = 0 then W16 else if wpick = 1 then W32 else W64);
     let code = (if wpick = 0 then kCmov16 ! nat cc else if wpick = 1 then kCmov32 ! nat cc
                 else kCmov64 ! nat cc);
     d \<leftarrow> pick_reg_index;
     r \<leftarrow> coin;
     if r then do {
       s \<leftarrow> pick_reg_index;
       ret (iwith code [AR w d, AR w s])
     } else do {
       touch_memory;
       disp \<leftarrow> random_disp8;
       ret (iwith code [AR w d, mem_operand disp])
     }
   }"

lemma gen_cmovcc_ok: "wp gen_cmovcc fam_post (fresh_ctx g)"
  by (auto simp: gen_cmovcc_def wp_simps gen_simps ctx_ok_unfold Let_def intro!: wp_rules)

subsection \<open>BT, BTS, BTR, BTC\<close>

record bt_codes =
  bt_rm_r :: "code list"
  bt_rm_imm :: "code list"

definition sf_bt :: "string \<Rightarrow> bt_codes" where
  "sf_bt OP = \<lparr>
     bt_rm_r = [OP @ ''_RM16_R16'', OP @ ''_RM32_R32'', OP @ ''_RM64_R64''],
     bt_rm_imm = [OP @ ''_RM16_IMM8'', OP @ ''_RM32_IMM8'', OP @ ''_RM64_IMM8'']\<rparr>"

definition kBtFamily :: "bt_codes list" where
  "kBtFamily = map sf_bt [''BT'', ''BTS'', ''BTR'', ''BTC'']"

definition gen_bt :: "instruction option draw" where
  "gen_bt = do {
     set_flags_mask 1;
     t \<leftarrow> pick kBtFamily;
     w \<leftarrow> width16_32_64;
     let wi = widx16_32_64 w;
     use_imm \<leftarrow> coin;
     r \<leftarrow> coin;
     if r then do {
       a \<leftarrow> pick_reg_index;
       if use_imm then do {
         v \<leftarrow> random_imm 8;
         let imm = to_i32 v;
         ret (set_imm8 (iwith (bt_rm_imm t ! wi) [AR w a, AI imm]) 1 (imm_u64 imm))
       } else do {
         b \<leftarrow> pick_reg_index;
         ret (iwith (bt_rm_r t ! wi) [AR w a, AR w b])
       }
     } else do {
       touch_memory;
       disp \<leftarrow> random_disp8;
       if use_imm then do {
         v \<leftarrow> random_imm 8;
         let imm = to_i32 v;
         ret (set_imm8 (iwith (bt_rm_imm t ! wi) [mem_operand disp, AI imm]) 1 (imm_u64 imm))
       } else do {
         b \<leftarrow> pick_reg_index;
         ret (iwith (bt_rm_r t ! wi) [mem_operand disp, AR w b])
       }
     }
   }"

lemma bt_kinds [gen_simps]:
  assumes "t \<in> set kBtFamily"
  shows "imm_kind (bt_rm_imm t ! widx16_32_64 w) = IMMEDIATE8"
proof -
  have "list_all (\<lambda>t. list_all (\<lambda>w. imm_kind (bt_rm_imm t ! widx16_32_64 w) = IMMEDIATE8) [W8, W16, W32, W64]) kBtFamily"
    by code_simp
  moreover have "w \<in> set [W8, W16, W32, W64]" by (cases w) simp_all
  ultimately show ?thesis using assms unfolding list_all_iff by blast
qed

lemma kBtFamily_nonempty [gen_simps]: "kBtFamily \<noteq> []"
  by (simp add: kBtFamily_def)

lemma gen_bt_ok: "wp gen_bt fam_post (fresh_ctx g)"
  by (auto simp: gen_bt_def wp_simps gen_simps ctx_ok_unfold Let_def intro!: wp_rules)

subsection \<open>BSF, BSR, POPCNT, LZCNT, TZCNT, BSWAP\<close>

definition sf_rmsrc :: "string \<Rightarrow> code list" where
  "sf_rmsrc OP = [OP @ ''_R16_RM16'', OP @ ''_R32_RM32'', OP @ ''_R64_RM64'']"

definition kRmSrcFamily :: "code list list" where
  "kRmSrcFamily = map sf_rmsrc [''BSF'', ''BSR'', ''POPCNT'', ''LZCNT'', ''TZCNT'']"

definition gen_rmsrc :: "instruction option draw" where
  "gen_rmsrc = do {
     pk \<leftarrow> rand_int 0 4;
     let is_bsf_bsr = (pk = 0 \<or> pk = 1);
     (if is_bsf_bsr then set_flags_mask 0x40 else State_Monad.return ());
     let t = kRmSrcFamily ! nat pk;
     w \<leftarrow> width16_32_64;
     let wi = widx16_32_64 w;
     d \<leftarrow> pick_reg_index;
     r \<leftarrow> coin;
     if r then do {
       s \<leftarrow> pick_reg_index;
       (if is_bsf_bsr then
          upd (\<lambda>c. c\<lparr>bsf_bsr_dest := Some d, bsf_bsr_src_reg := Some s,
                     bsf_bsr_width_bytes := bits_of w div 8\<rparr>)
        else State_Monad.return ());
       ret (iwith (t ! wi) [AR w d, AR w s])
     } else do {
       touch_memory;
       disp \<leftarrow> random_disp8;
       (if is_bsf_bsr then
          upd (\<lambda>c. c\<lparr>bsf_bsr_dest := Some d, bsf_bsr_src_mem_disp := Some disp,
                     bsf_bsr_width_bytes := bits_of w div 8\<rparr>)
        else State_Monad.return ());
       ret (iwith (t ! wi) [AR w d, mem_operand disp])
     }
   }"

lemma bits_of_bytes: "w \<noteq> W8 \<Longrightarrow> bits_of w div 8 = 2 \<or> bits_of w div 8 = 4 \<or> bits_of w div 8 = 8"
  by (cases w) simp_all

lemma gen_rmsrc_ok: "wp gen_rmsrc fam_post (fresh_ctx g)"
  by (auto simp: gen_rmsrc_def wp_simps gen_simps ctx_ok_unfold Let_def bits_of_bytes intro!: wp_rules)

definition gen_bswap :: "instruction option draw" where
  "gen_bswap = do {
     w64 \<leftarrow> coin;
     r \<leftarrow> pick_reg_index;
     ret (iwith (if w64 then ''BSWAP_R64'' else ''BSWAP_R32'') [AR (if w64 then W64 else W32) r])
   }"

lemma gen_bswap_ok: "wp gen_bswap fam_post (fresh_ctx g)"
  by (auto simp: gen_bswap_def wp_simps gen_simps ctx_ok_unfold Let_def intro!: wp_rules)

end
