(* ===== verification/GenArith.thy ===== *)
theory GenArith
  imports Instr
begin

section \<open>BMI, multiply and divide, exchanges, double shifts, privileged instructions\<close>

text \<open>
  The remaining general-register families of \<^verbatim>\<open>src/gen/instruction_gen.cpp\<close>. The division family
  builds a dividend from a chosen quotient, divisor and remainder with 64-bit carry arithmetic; the
  lemma \<open>div_in_range\<close> shows that the 128-bit dividend it plants has exactly that quotient and
  remainder, whenever the sum does not carry out of 128 bits, which it never does.
\<close>

subsection \<open>BMI1 and BMI2\<close>

datatype bmi_shape = BmiDstSrcRm | BmiDstRmSrc | BmiDstRm | BmiDstRmImm

record bmi_entry =
  bmi_code :: "code list"
  bmi_shape_of :: bmi_shape
  bmi_writes_flags :: bool

definition bmi_row :: "code \<Rightarrow> code \<Rightarrow> bmi_shape \<Rightarrow> bool \<Rightarrow> bmi_entry" where
  "bmi_row c32 c64 s f = \<lparr>bmi_code = [c32, c64], bmi_shape_of = s, bmi_writes_flags = f\<rparr>"

definition kBmi :: "bmi_entry list" where
  "kBmi = [
    bmi_row ''VEX_ANDN_R32_R32_RM32'' ''VEX_ANDN_R64_R64_RM64'' BmiDstSrcRm True,
    bmi_row ''VEX_BEXTR_R32_RM32_R32'' ''VEX_BEXTR_R64_RM64_R64'' BmiDstRmSrc True,
    bmi_row ''VEX_BLSI_R32_RM32'' ''VEX_BLSI_R64_RM64'' BmiDstRm True,
    bmi_row ''VEX_BLSMSK_R32_RM32'' ''VEX_BLSMSK_R64_RM64'' BmiDstRm True,
    bmi_row ''VEX_BLSR_R32_RM32'' ''VEX_BLSR_R64_RM64'' BmiDstRm True,
    bmi_row ''VEX_BZHI_R32_RM32_R32'' ''VEX_BZHI_R64_RM64_R64'' BmiDstRmSrc True,
    bmi_row ''VEX_PDEP_R32_R32_RM32'' ''VEX_PDEP_R64_R64_RM64'' BmiDstSrcRm False,
    bmi_row ''VEX_PEXT_R32_R32_RM32'' ''VEX_PEXT_R64_R64_RM64'' BmiDstSrcRm False,
    bmi_row ''VEX_MULX_R32_R32_RM32'' ''VEX_MULX_R64_R64_RM64'' BmiDstSrcRm False,
    bmi_row ''VEX_RORX_R32_RM32_IMM8'' ''VEX_RORX_R64_RM64_IMM8'' BmiDstRmImm False,
    bmi_row ''VEX_SARX_R32_RM32_R32'' ''VEX_SARX_R64_RM64_R64'' BmiDstRmSrc False,
    bmi_row ''VEX_SHLX_R32_RM32_R32'' ''VEX_SHLX_R64_RM64_R64'' BmiDstRmSrc False,
    bmi_row ''VEX_SHRX_R32_RM32_R32'' ''VEX_SHRX_R64_RM64_R64'' BmiDstRmSrc False]"

definition gen_bmi :: "instruction option draw" where
  "gen_bmi = do {
     e \<leftarrow> pick kBmi;
     w64 \<leftarrow> coin;
     let w = (if w64 then W64 else W32);
     let code = bmi_code e ! (if w64 then 1 else 0);
     (if bmi_writes_flags e then set_flags_mask (0x001 OR 0x040 OR 0x080 OR 0x800)
      else State_Monad.return ());
     d \<leftarrow> pick_reg_index;
     s \<leftarrow> pick_reg_index;
     m \<leftarrow> rand_int 0 2;
     let rm_is_mem = (m = 0);
     (if rm_is_mem then touch_memory else State_Monad.return ());
     disp \<leftarrow> random_disp8;
     v \<leftarrow> random_imm 8;
     let imm8 = to_i32 v;
     (case bmi_shape_of e of
        BmiDstSrcRm \<Rightarrow>
          if rm_is_mem then ret (iwith code [AR w d, AR w s, mem_operand disp])
          else do { r \<leftarrow> pick_reg_index; ret (iwith code [AR w d, AR w s, AR w r]) }
      | BmiDstRmSrc \<Rightarrow>
          if rm_is_mem then ret (iwith code [AR w d, mem_operand disp, AR w s])
          else do { r \<leftarrow> pick_reg_index; ret (iwith code [AR w d, AR w r, AR w s]) }
      | BmiDstRm \<Rightarrow>
          if rm_is_mem then ret (iwith code [AR w d, mem_operand disp])
          else ret (iwith code [AR w d, AR w s])
      | BmiDstRmImm \<Rightarrow>
          if rm_is_mem then ret (iwith code [AR w d, mem_operand disp, AI imm8])
          else ret (iwith code [AR w d, AR w s, AI imm8]))
   }"

lemma kBmi_imm: "e \<in> set kBmi \<Longrightarrow> k < 2 \<Longrightarrow>
    (bmi_code e ! k \<in> {''VEX_RORX_R32_RM32_IMM8'', ''VEX_RORX_R64_RM64_IMM8''}) =
    (bmi_shape_of e = BmiDstRmImm)"
  by (auto simp: kBmi_def bmi_row_def numeral_eq_Suc less_Suc_eq)

lemma bmi_mask: "((0x001 OR 0x040 OR 0x080 OR 0x800) :: u64) AND NOT kCompareFlagsMask = 0"
  by (simp add: kCompareFlagsMask_def)

lemma gen_bmi_ok:
  "wp gen_bmi (fam_post_except [''VEX_RORX_R32_RM32_IMM8'', ''VEX_RORX_R64_RM64_IMM8'']) (fresh_ctx g)"
proof -
  have k0: "bmi_code e ! 0 \<in> {''VEX_RORX_R32_RM32_IMM8'', ''VEX_RORX_R64_RM64_IMM8''} \<longleftrightarrow>
      bmi_shape_of e = BmiDstRmImm" if "e \<in> set kBmi" for e
    using kBmi_imm [OF that] by simp
  have k1: "bmi_code e ! Suc 0 \<in> {''VEX_RORX_R32_RM32_IMM8'', ''VEX_RORX_R64_RM64_IMM8''} \<longleftrightarrow>
      bmi_shape_of e = BmiDstRmImm" if "e \<in> set kBmi" for e
    using kBmi_imm [OF that] by simp
  have ne: "kBmi \<noteq> []" by (simp add: kBmi_def)
  show ?thesis
    unfolding gen_bmi_def
    by (auto simp: wp_simps gen_simps ctx_ok_unfold Let_def bmi_mask ne k0 [simplified] k1 [simplified]
        split: bmi_shape.splits intro!: wp_rules)
qed

subsection \<open>MUL, IMUL, DIV, IDIV\<close>

definition sf_w4 :: "string \<Rightarrow> code list" where
  "sf_w4 OP = [OP @ ''_RM8'', OP @ ''_RM16'', OP @ ''_RM32'', OP @ ''_RM64'']"

definition kMul :: "code list" where "kMul = sf_w4 ''MUL''"
definition kImul1 :: "code list" where "kImul1 = sf_w4 ''IMUL''"
definition kDiv :: "code list" where "kDiv = sf_w4 ''DIV''"
definition kIdiv :: "code list" where "kIdiv = sf_w4 ''IDIV''"

definition kNonAccumRegs :: "nat list" where
  "kNonAccumRegs = [1, 3, 5, 6, 7, 8, 9, 10, 11, 12, 13, 14, 15]"

text \<open>The compiler intrinsics: the low and high half of a product, and addition with carry.\<close>

definition umul128 :: "u64 \<Rightarrow> u64 \<Rightarrow> u64 \<times> u64" where
  "umul128 a b = (a * b, word_of_nat (unat a * unat b div 2 ^ 64))"

definition addcarry_u64 :: "bool \<Rightarrow> u64 \<Rightarrow> u64 \<Rightarrow> bool \<times> u64" where
  "addcarry_u64 c a b =
     (2 ^ 64 \<le> unat a + unat b + (if c then 1 else 0), a + b + (if c then 1 else 0))"

definition dividend :: "u64 \<Rightarrow> u64 \<Rightarrow> u64 \<Rightarrow> u64 \<times> u64" where
  "dividend quot divisor remainder =
     (let (product_lo, hi) = umul128 quot divisor;
          (carry, lo) = addcarry_u64 False product_lo remainder;
          (_, hi') = addcarry_u64 carry hi 0
      in (lo, hi'))"

definition gen_muldiv :: "instruction option draw" where
  "gen_muldiv = do {
     family \<leftarrow> rand_int 0 3;
     w \<leftarrow> draw_width;
     let wi = width_index w;
     let is_div_family = (2 \<le> family);
     set_flags_mask (if is_div_family then 0 else 0x0801);
     let code = (if family = 0 then kMul ! wi else if family = 1 then kImul1 ! wi
                 else if family = 2 then kDiv ! wi else kIdiv ! wi);
     biased \<leftarrow> (if is_div_family then do { b \<leftarrow> rand_int 0 2; State_Monad.return (b \<noteq> 0) }
               else State_Monad.return False);
     if biased then do {
       mapped \<leftarrow> pick kNonAccumRegs;
       dv \<leftarrow> random_imm (bits_of w);
       let divisor = (if dv = 0 then 1 else dv);
       quot \<leftarrow> random_imm (bits_of w);
       remainder \<leftarrow> (if 1 < divisor then do { v \<leftarrow> random_interesting_u64; State_Monad.return (v mod divisor) }
                    else State_Monad.return 0);
       let lohi = dividend quot divisor remainder;
       force mapped divisor;
       force 0 (fst lohi);
       (if w \<noteq> W8 then force 2 (snd lohi) else State_Monad.return ());
       ret (iwith code [AR w mapped])
     } else do {
       r \<leftarrow> coin;
       if r then do {
         a \<leftarrow> pick_reg_index;
         ret (iwith code [AR w a])
       } else do {
         touch_memory;
         disp \<leftarrow> random_disp8;
         ret (iwith code [mem_operand disp])
       }
     }
   }"

lemma gen_muldiv_ok: "wp gen_muldiv fam_post (fresh_ctx g)"
  by (auto simp: gen_muldiv_def kNonAccumRegs_def wp_simps gen_simps ctx_ok_unfold Let_def
      intro!: wp_rules)

text \<open>The dividend is \<open>quot * divisor + remainder\<close>, exactly, in 128 bits.\<close>

lemma dividend_value:
  assumes "remainder < divisor \<or> remainder = 0"
  shows "unat (snd (dividend quot divisor remainder)) * 2 ^ 64 + unat (fst (dividend quot divisor remainder))
       = unat quot * unat divisor + unat remainder"
proof -
  define q d r where "q = unat quot" "d = unat divisor" "r = unat remainder"
  note defs = q_d_r_def
  have bq: "q < 2 ^ 64" "d < 2 ^ 64" "r < 2 ^ 64"
    using unsigned_less [of quot] unsigned_less [of divisor] unsigned_less [of remainder]
    by (simp_all add: defs)
  have rd: "r < d \<or> r = 0" using assms by (auto simp: defs word_less_nat_alt)
  have tot: "q * d + r < 2 ^ 64 * 2 ^ 64"
  proof (cases "r = 0")
    case True
    have "q * d \<le> q * 2 ^ 64" using bq by simp
    also have "\<dots> < 2 ^ 64 * 2 ^ 64" using bq by simp
    finally show ?thesis using True by simp
  next
    case False
    then have "q * d + r < Suc q * d" using rd by simp
    also have "\<dots> \<le> 2 ^ 64 * 2 ^ 64" using bq by (intro mult_le_mono) auto
    finally show ?thesis .
  qed
  define plo where "plo = q * d mod 2 ^ 64"
  define phi where "phi = q * d div 2 ^ 64"
  have pq: "q * d = phi * 2 ^ 64 + plo" by (simp add: plo_def phi_def)
  have plo: "unat (quot * divisor) = plo"
    by (simp add: plo_def defs unat_word_ariths)
  have "phi * 2 ^ 64 < 2 ^ 64 * 2 ^ 64" using tot pq by simp
  then have phil: "phi < 2 ^ 64" by simp
  have phi: "unat (word_of_nat (q * d div 2 ^ 64) :: u64) = phi"
    using phil by (simp add: phi_def unsigned_of_nat take_bit_nat_eq_self)
  define cy where "cy = (2 ^ 64 \<le> plo + r)"
  have lo: "unat (quot * divisor + remainder) = (plo + r) mod 2 ^ 64"
    by (simp add: unat_word_ariths plo_def defs mod_add_left_eq)
  have plob: "plo < 2 ^ 64" by (simp add: plo_def)
  have lo': "(plo + r) mod 2 ^ 64 = plo + r - (if cy then 2 ^ 64 else 0)"
  proof (cases cy)
    case True
    then have "(plo + r) mod 2 ^ 64 = (plo + r - 2 ^ 64) mod 2 ^ 64" unfolding cy_def by (rule le_mod_geq)
    then show ?thesis using True bq plob by simp
  next
    case False then show ?thesis by (simp add: cy_def)
  qed
  have hic: "phi + (if cy then 1 else 0) < 2 ^ 64"
    using tot pq phil unfolding cy_def by (auto split: if_splits)
  have hi: "unat (word_of_nat (q * d div 2 ^ 64) + 0 + (if cy then 1 else 0) :: u64) = phi + (if cy then 1 else 0)"
    using hic phi by (auto simp: unat_word_ariths)
  show ?thesis
    using plo lo lo' hi pq
    by (auto simp: dividend_def umul128_def addcarry_u64_def Let_def defs [symmetric] cy_def split: if_splits)
qed

lemma random_interesting_mod_less: "1 < divisor \<Longrightarrow> v mod divisor < (divisor :: u64)"
  by (metis word_mod_less_divisor word_not_simps(1) word_gt_0)

lemma div_in_range:
  assumes "divisor \<noteq> 0" "remainder < divisor \<or> remainder = 0"
    "(lo, hi) = dividend quot divisor remainder"
  shows "(unat hi * 2 ^ 64 + unat lo) div unat divisor = unat quot"
    "(unat hi * 2 ^ 64 + unat lo) mod unat divisor = unat remainder"
proof -
  have v: "unat hi * 2 ^ 64 + unat lo = unat remainder + unat quot * unat divisor"
    using dividend_value [OF assms(2)] assms(3) by (metis add.commute fst_conv snd_conv)
  have r: "unat remainder < unat divisor"
    using assms(1,2) by (auto simp: word_less_nat_alt unat_gt_0)
  show "(unat hi * 2 ^ 64 + unat lo) div unat divisor = unat quot"
    unfolding v using r by (simp add: div_mult_self1)
  show "(unat hi * 2 ^ 64 + unat lo) mod unat divisor = unat remainder"
    unfolding v using r by simp
qed

definition kImul2 :: "code list" where
  "kImul2 = [''IMUL_R16_RM16'', ''IMUL_R32_RM32'', ''IMUL_R64_RM64'']"

definition kImul3_imm8 :: "code list" where
  "kImul3_imm8 = [''IMUL_R16_RM16_IMM8'', ''IMUL_R32_RM32_IMM8'', ''IMUL_R64_RM64_IMM8'']"

definition kImul3_immfull :: "code list" where
  "kImul3_immfull = [''IMUL_R16_RM16_IMM16'', ''IMUL_R32_RM32_IMM32'', ''IMUL_R64_RM64_IMM32'']"

definition gen_imul_multi :: "instruction option draw" where
  "gen_imul_multi = do {
     set_flags_mask 0x0801;
     w \<leftarrow> width16_32_64;
     let wi = widx16_32_64 w;
     form \<leftarrow> rand_int 0 2;
     if form = 0 then do {
       d \<leftarrow> pick_reg_index;
       s \<leftarrow> pick_reg_index;
       ret (iwith (kImul2 ! wi) [AR w d, AR w s])
     } else if form = 1 then do {
       touch_memory;
       d \<leftarrow> pick_reg_index;
       disp \<leftarrow> random_disp8;
       ret (iwith (kImul2 ! wi) [AR w d, mem_operand disp])
     } else do {
       d \<leftarrow> pick_reg_index;
       short_imm \<leftarrow> coin;
       imm \<leftarrow> draw_imm32 short_imm w;
       let code = (if short_imm then kImul3_imm8 ! wi else kImul3_immfull ! wi);
       r \<leftarrow> coin;
       if r then do {
         s \<leftarrow> pick_reg_index;
         ret (set_imm_sized (iwith code [AR w d, AR w s, AI imm]) 2 w short_imm (imm_u64 imm))
       } else do {
         touch_memory;
         disp \<leftarrow> random_disp8;
         ret (set_imm_sized (iwith code [AR w d, mem_operand disp, AI imm]) 2 w short_imm (imm_u64 imm))
       }
     }
   }"

lemma imul_kinds [gen_simps]:
  "w \<noteq> W8 \<Longrightarrow> imm_kind (kImul3_imm8 ! widx16_32_64 w) = sized_kind True w"
  "w \<noteq> W8 \<Longrightarrow> imm_kind (kImul3_immfull ! widx16_32_64 w) = sized_kind False w"
proof -
  have "list_all (\<lambda>w. imm_kind (kImul3_imm8 ! widx16_32_64 w) = sized_kind True w \<and>
     imm_kind (kImul3_immfull ! widx16_32_64 w) = sized_kind False w) [W16, W32, W64]"
    by code_simp
  moreover have "w \<noteq> W8 \<Longrightarrow> w \<in> set [W16, W32, W64]" by (cases w) simp_all
  ultimately show "w \<noteq> W8 \<Longrightarrow> imm_kind (kImul3_imm8 ! widx16_32_64 w) = sized_kind True w"
      "w \<noteq> W8 \<Longrightarrow> imm_kind (kImul3_immfull ! widx16_32_64 w) = sized_kind False w"
    unfolding list_all_iff by blast+
qed

lemma gen_imul_multi_ok: "wp gen_imul_multi fam_post (fresh_ctx g)"
  by (auto simp: gen_imul_multi_def wp_simps gen_simps ctx_ok_unfold Let_def intro!: wp_rules)

subsection \<open>XCHG, XADD, CMPXCHG, SHLD, SHRD\<close>

definition sf_rmr :: "string \<Rightarrow> code list" where
  "sf_rmr OP = [OP @ ''_RM8_R8'', OP @ ''_RM16_R16'', OP @ ''_RM32_R32'', OP @ ''_RM64_R64'']"

definition kXchgShort :: "code list" where
  "kXchgShort = [''XCHG_R16_AX'', ''XCHG_R32_EAX'', ''XCHG_R64_RAX'']"

definition gen_xchg :: "instruction option draw" where
  "gen_xchg = do {
     set_flags_mask 0;
     q \<leftarrow> rand_int 0 3;
     if q = 0 then do {
       w \<leftarrow> width16_32_64;
       r \<leftarrow> rand_int 1 15;
       ret (iwith (kXchgShort ! widx16_32_64 w) [AR w (nat r), AReg (acc_of w)])
     } else do {
       w \<leftarrow> draw_width;
       let code = sf_rmr ''XCHG'' ! width_index w;
       s \<leftarrow> pick_reg_index;
       m \<leftarrow> rand_int 0 2;
       if m = 0 then do {
         touch_memory;
         disp \<leftarrow> random_disp8;
         ret (iwith code [mem_operand disp, AR w s])
       } else do {
         d \<leftarrow> pick_reg_index;
         ret (iwith code [AR w d, AR w s])
       }
     }
   }"

lemma gen_xchg_ok: "wp gen_xchg fam_post (fresh_ctx g)"
  by (auto simp: gen_xchg_def wp_simps gen_simps ctx_ok_unfold Let_def intro!: wp_rules)

definition gen_xadd_cmpxchg :: "instruction option draw" where
  "gen_xadd_cmpxchg = do {
     w \<leftarrow> draw_width;
     is_xadd \<leftarrow> coin;
     let code = (if is_xadd then sf_rmr ''XADD'' else sf_rmr ''CMPXCHG'') ! width_index w;
     s \<leftarrow> pick_reg_index;
     m \<leftarrow> rand_int 0 2;
     if m = 0 then do {
       touch_memory;
       disp \<leftarrow> random_disp8;
       ret (iwith code [mem_operand disp, AR w s])
     } else do {
       equal_case \<leftarrow> (if \<not> is_xadd then coin else State_Monad.return False);
       if equal_case then do {
         d \<leftarrow> pick_reg_index;
         (if d \<noteq> 0 then do {
            shared \<leftarrow> random_interesting_u64;
            force 0 shared;
            force d shared
          } else State_Monad.return ());
         ret (iwith code [AR w d, AR w s])
       } else do {
         d \<leftarrow> pick_reg_index;
         ret (iwith code [AR w d, AR w s])
       }
     }
   }"

lemma cmpxchg_forcing: "k < 4 \<Longrightarrow> sf_rmr ''CMPXCHG'' ! k \<in> set kRspForcing"
  by (auto simp: sf_rmr_def kRspForcing_def numeral_eq_Suc less_Suc_eq)

lemma gen_xadd_cmpxchg_ok: "wp gen_xadd_cmpxchg fam_post (fresh_ctx g)"
  by (auto simp: cmpxchg_forcing width_index_less gen_xadd_cmpxchg_def wp_simps gen_simps ctx_ok_unfold Let_def intro!: wp_rules)

definition sf_shxd :: "string \<Rightarrow> string \<Rightarrow> code list" where
  "sf_shxd OP cnt = [OP @ ''_RM16_R16_'' @ cnt, OP @ ''_RM32_R32_'' @ cnt, OP @ ''_RM64_R64_'' @ cnt]"

definition gen_shld_shrd :: "instruction option draw" where
  "gen_shld_shrd = do {
     upd (\<lambda>c. c\<lparr>c_flags_mask := c_flags_mask c AND NOT (0x0800 OR 0x0010)\<rparr>);
     w \<leftarrow> width16_32_64;
     let wi = widx16_32_64 w;
     left \<leftarrow> coin;
     use_cl \<leftarrow> coin;
     s \<leftarrow> pick_reg_index;
     m \<leftarrow> rand_int 0 2;
     let use_mem = (m = 0);
     let code = sf_shxd (if left then ''SHLD'' else ''SHRD'') (if use_cl then ''CL'' else ''IMM8'') ! wi;
     let narrow = (w = W16);
     if use_cl then do {
       (if narrow then do { n \<leftarrow> rand_int 0 15; force 1 (word_of_int n) } else State_Monad.return ());
       if use_mem then do {
         touch_memory;
         disp \<leftarrow> random_disp8;
         ret (iwith code [mem_operand disp, AR w s, AReg ''CL''])
       } else do {
         d \<leftarrow> pick_reg_index;
         ret (iwith code [AR w d, AR w s, AReg ''CL''])
       }
     } else do {
       v \<leftarrow> random_imm 8;
       q \<leftarrow> rand_int 0 4;
       let imm1 = (if q \<noteq> 0 then to_i32 v AND 0x3F else to_i32 v);
       let imm = (if narrow then imm1 AND 0x0F else imm1);
       if use_mem then do {
         touch_memory;
         disp \<leftarrow> random_disp8;
         ret (set_imm8 (iwith code [mem_operand disp, AR w s, AI imm]) 2 (imm_u64 imm))
       } else do {
         d \<leftarrow> pick_reg_index;
         ret (set_imm8 (iwith code [AR w d, AR w s, AI imm]) 2 (imm_u64 imm))
       }
     }
   }"

lemma shxd_kinds [gen_simps]:
  "imm_kind (sf_shxd ''SHLD'' ''IMM8'' ! widx16_32_64 w) = IMMEDIATE8"
  "imm_kind (sf_shxd ''SHRD'' ''IMM8'' ! widx16_32_64 w) = IMMEDIATE8"
  by (cases w; hypsubst; code_simp)+

lemma shxd_kinds_narrow [gen_simps]:
  "imm_kind (sf_shxd ''SHLD'' ''IMM8'' ! 0) = IMMEDIATE8" "imm_kind (sf_shxd ''SHRD'' ''IMM8'' ! 0) = IMMEDIATE8"
  by code_simp+

lemma gen_shld_shrd_ok: "wp gen_shld_shrd fam_post (fresh_ctx g)"
  by (auto simp: gen_shld_shrd_def wp_simps gen_simps ctx_ok_unfold Let_def intro!: wp_rules)

subsection \<open>Privileged instructions\<close>

definition kPrivileged :: "code list" where
  "kPrivileged = [''CLI'', ''STI'', ''HLT'', ''CLTS'', ''INVD'', ''WBINVD'', ''SWAPGS'', ''XSETBV'',
                  ''RDMSR'', ''WRMSR'']"

definition gen_privileged :: "instruction option draw" where
  "gen_privileged = do {
     set_flags_mask 0;
     pk \<leftarrow> rand_int 0 9;
     ret (iwith (kPrivileged ! nat pk) [])
   }"

lemma gen_privileged_ok: "wp gen_privileged fam_post (fresh_ctx g)"
  by (auto simp: gen_privileged_def wp_simps gen_simps ctx_ok_unfold Let_def intro!: wp_rules)

definition kCr :: "register list" where "kCr = [''CR0'', ''CR2'', ''CR3'', ''CR4'', ''CR8'']"

definition kDr :: "register list" where
  "kDr = [''DR0'', ''DR1'', ''DR2'', ''DR3'', ''DR4'', ''DR5'', ''DR6'', ''DR7'']"

definition gen_privileged_movcrdr :: "instruction option draw" where
  "gen_privileged_movcrdr = do {
     set_flags_mask 0;
     is_cr \<leftarrow> coin;
     read_dir \<leftarrow> coin;
     gp \<leftarrow> pick_reg_index;
     if is_cr then do {
       k \<leftarrow> rand_int 0 4;
       let crreg = kCr ! nat k;
       if read_dir then ret (iwith ''MOV_R64_CR'' [AR W64 gp, AReg crreg])
       else ret (iwith ''MOV_CR_R64'' [AReg crreg, AR W64 gp])
     } else do {
       k \<leftarrow> rand_int 0 7;
       let drreg = kDr ! nat k;
       if read_dir then ret (iwith ''MOV_R64_DR'' [AR W64 gp, AReg drreg])
       else ret (iwith ''MOV_DR_R64'' [AReg drreg, AR W64 gp])
     }
   }"

lemma gen_privileged_movcrdr_ok: "wp gen_privileged_movcrdr fam_post (fresh_ctx g)"
  by (auto simp: gen_privileged_movcrdr_def wp_simps gen_simps ctx_ok_unfold Let_def intro!: wp_rules)

end
