(* ===== verification/HostCaps.thy ===== *)
theory HostCaps
  imports Prelude
begin

section \<open>Host capabilities\<close>

text \<open>
  \<^verbatim>\<open>src/common/host_caps.cpp\<close>. The processor is a parameter: \<open>cpuid\<close> answers CPUID, \<open>xgetbv\<close> reads
  an extended control register and is \<open>None\<close> where the instruction faults (\<^verbatim>\<open>#UD\<close>). \<open>probe\<close> is then
  \<open>None\<close> when probing itself would fault. The flag \<open>msvc\<close> is the build switch \<^verbatim>\<open>_MSC_VER\<close>.
\<close>

record cpuid_regs =
  eax :: u32
  ebx :: u32
  ecx :: u32
  edx :: u32

record cpu =
  cpuid :: "u32 \<Rightarrow> u32 \<Rightarrow> cpuid_regs"
  xgetbv :: "u32 \<Rightarrow> u64 option"

record host_caps =
  avx :: bool
  avx2 :: bool
  bmi1 :: bool
  bmi2 :: bool
  avx512f :: bool
  avx512vl :: bool
  avx512bw :: bool
  avx512dq :: bool

definition no_caps :: host_caps where
  "no_caps = \<lparr>avx = False, avx2 = False, bmi1 = False, bmi2 = False,
              avx512f = False, avx512vl = False, avx512bw = False, avx512dq = False\<rparr>"

definition cpu_bit :: "u32 \<Rightarrow> nat \<Rightarrow> bool" where
  "cpu_bit value index = (drop_bit index value AND 1 \<noteq> 0)"

lemma cpu_bit_eq: "cpu_bit value index = bit value index"
  by (auto simp: cpu_bit_def and_one_eq mod_2_eq_odd bit_iff_odd_drop_bit)

definition probe :: "bool \<Rightarrow> cpu \<Rightarrow> host_caps option" where
  "probe msvc m =
     (if \<not> msvc then Some no_caps
      else let leaf0 = cpuid m 0 0 in
        if eax leaf0 < 1 then Some no_caps
        else let leaf1 = cpuid m 1 0;
                 osxsave = cpu_bit (ecx leaf1) 27;
                 cpu_avx = cpu_bit (ecx leaf1) 28 in
          if \<not> osxsave then Some no_caps
          else (case xgetbv m 0 of
            None \<Rightarrow> None
          | Some xcr0 \<Rightarrow>
              let ymm_state = (xcr0 AND 0x6 = 0x6);
                  zmm_state = (xcr0 AND 0xE6 = 0xE6);
                  caps1 = no_caps\<lparr>avx := cpu_avx \<and> ymm_state\<rparr> in
              if eax leaf0 \<ge> 7 then
                let leaf7 = cpuid m 7 0;
                    caps2 = caps1\<lparr>bmi1 := cpu_bit (ebx leaf7) 3, bmi2 := cpu_bit (ebx leaf7) 8,
                                  avx2 := avx caps1 \<and> cpu_bit (ebx leaf7) 5\<rparr> in
                if zmm_state then
                  let f = cpu_bit (ebx leaf7) 16 in
                  Some (caps2\<lparr>avx512f := f, avx512dq := f \<and> cpu_bit (ebx leaf7) 17,
                              avx512bw := f \<and> cpu_bit (ebx leaf7) 30,
                              avx512vl := f \<and> cpu_bit (ebx leaf7) 31\<rparr>)
                else Some caps2
              else Some caps1))"

definition summary_add :: "string \<Rightarrow> bool \<Rightarrow> string \<Rightarrow> string" where
  "summary_add name present out =
     (if \<not> present then out else (if out \<noteq> [] then out @ '' '' else out) @ name)"

definition summary :: "host_caps \<Rightarrow> string" where
  "summary c =
     (let out = summary_add ''avx512dq'' (avx512dq c)
               (summary_add ''avx512bw'' (avx512bw c)
               (summary_add ''avx512vl'' (avx512vl c)
               (summary_add ''avx512f'' (avx512f c)
               (summary_add ''bmi2'' (bmi2 c)
               (summary_add ''bmi1'' (bmi1 c)
               (summary_add ''avx2'' (avx2 c)
               (summary_add ''avx'' (avx c) [])))))))
      in if out = [] then ''sse only'' else out)"

subsection \<open>What a reported feature guarantees\<close>

text \<open>The architectural rule the source relies on: XGETBV does not fault once OSXSAVE is set.\<close>

definition xgetbv_law :: "cpu \<Rightarrow> bool" where
  "xgetbv_law m \<longleftrightarrow> (bit (ecx (cpuid m 1 0)) 27 \<longrightarrow> xgetbv m 0 \<noteq> None)"

definition os_enables :: "cpu \<Rightarrow> u64 \<Rightarrow> bool" where
  "os_enables m need \<longleftrightarrow> (case xgetbv m 0 of None \<Rightarrow> False | Some x \<Rightarrow> x AND need = need)"

lemma mask_mono: "x AND (0xE6 :: u64) = 0xE6 \<Longrightarrow> x AND 6 = 6"
proof -
  assume a: "x AND 0xE6 = 0xE6"
  have "x AND 6 = x AND (0xE6 AND 6)" by simp
  also have "\<dots> = (x AND 0xE6) AND 6" by (simp only: and.assoc)
  finally show ?thesis using a by simp
qed

text \<open>
  Probing the processor never faults: XGETBV is executed only behind the OSXSAVE test, on every
  processor on which OSXSAVE makes XGETBV legal, and in either build.
\<close>
theorem probe_never_faults:
  assumes "xgetbv_law m"
  shows "probe msvc m \<noteq> None"
  using assms
  by (auto simp: probe_def xgetbv_law_def cpu_bit_eq Let_def split: option.splits)

definition demo_cpu :: cpu where
  "demo_cpu = \<lparr>cpuid = (\<lambda>leaf sub. if leaf = 0 then \<lparr>eax = 7, ebx = 0, ecx = 0, edx = 0\<rparr>
       else if leaf = 1 then \<lparr>eax = 0, ebx = 0, ecx = 0x18000000, edx = 0\<rparr>
       else \<lparr>eax = 0, ebx = 0x128, ecx = 0, edx = 0\<rparr>),
     xgetbv = (\<lambda>r. Some 7)\<rparr>"

theorem probe_never_faults_witness: "probe True demo_cpu \<noteq> None"
  by (rule probe_never_faults) (simp add: xgetbv_law_def demo_cpu_def)

text \<open>
  C37: A feature is reported only when the processor implements it and the operating system has
  enabled the register state it needs: AVX and AVX2 need XCR0 bits 1 and 2, every AVX-512 feature
  needs all of XCR0's 0xE6, and the dependent features imply their base feature.
\<close>
theorem probe_sound:
  assumes "probe msvc m = Some c"
  shows "(avx c \<longrightarrow> bit (ecx (cpuid m 1 0)) 28 \<and> os_enables m 0x6) \<and>
         (avx2 c \<longrightarrow> avx c \<and> bit (ebx (cpuid m 7 0)) 5) \<and>
         (bmi1 c \<longrightarrow> bit (ebx (cpuid m 7 0)) 3) \<and> (bmi2 c \<longrightarrow> bit (ebx (cpuid m 7 0)) 8) \<and>
         (avx512f c \<longrightarrow> bit (ebx (cpuid m 7 0)) 16 \<and> os_enables m 0xE6 \<and> os_enables m 0x6) \<and>
         (avx512dq c \<longrightarrow> avx512f c \<and> bit (ebx (cpuid m 7 0)) 17) \<and>
         (avx512bw c \<longrightarrow> avx512f c \<and> bit (ebx (cpuid m 7 0)) 30) \<and>
         (avx512vl c \<longrightarrow> avx512f c \<and> bit (ebx (cpuid m 7 0)) 31)"
  using assms
  by (auto simp: probe_def no_caps_def cpu_bit_eq os_enables_def Let_def mask_mono
      split: option.splits if_splits)

theorem probe_sound_witness:
  "probe True demo_cpu = Some (no_caps\<lparr>avx := True, avx2 := True, bmi1 := True, bmi2 := True\<rparr>) \<and>
   os_enables demo_cpu 0x6"
proof -
  have p: "probe True demo_cpu = Some (no_caps\<lparr>avx := True, avx2 := True, bmi1 := True, bmi2 := True\<rparr>)"
    by (simp add: probe_def demo_cpu_def cpu_bit_def no_caps_def Let_def)
  show ?thesis using probe_sound [OF p] p by simp
qed

subsection \<open>The summary line can be read back\<close>

fun split_spaces :: "string \<Rightarrow> string \<Rightarrow> string list" where
  "split_spaces acc [] = [rev acc]"
| "split_spaces acc (c # cs) = (if c = CHR '' '' then rev acc # split_spaces [] cs
     else split_spaces (c # acc) cs)"

definition caps_of_summary :: "string \<Rightarrow> host_caps" where
  "caps_of_summary s = (let ws = split_spaces [] s in
     \<lparr>avx = (''avx'' \<in> set ws), avx2 = (''avx2'' \<in> set ws), bmi1 = (''bmi1'' \<in> set ws),
      bmi2 = (''bmi2'' \<in> set ws), avx512f = (''avx512f'' \<in> set ws),
      avx512vl = (''avx512vl'' \<in> set ws), avx512bw = (''avx512bw'' \<in> set ws),
      avx512dq = (''avx512dq'' \<in> set ws)\<rparr>)"

text \<open>
  The capability line printed at start-up is faithful: reading its words back gives exactly the
  capabilities it was printed from, so no two capability sets print the same line.
\<close>
theorem summary_roundtrip: "caps_of_summary (summary c) = c"
proof (cases c)
  case (fields a b d e f g h i)
  then show ?thesis
    by (cases a; cases b; cases d; cases e; cases f; cases g; cases h; cases i)
      (simp_all add: caps_of_summary_def summary_def summary_add_def Let_def)
qed

end
