(* ===== verification/GenSimd.thy ===== *)
theory GenSimd
  imports Instr HostCaps
begin

section \<open>SSE, VEX and EVEX families\<close>

text \<open>
  The vector families of \<^verbatim>\<open>src/gen/instruction_gen.cpp\<close>, with their code tables entry by entry. The
  VEX/EVEX family takes the host capabilities as an argument (\<^verbatim>\<open>host_caps()\<close> in the source).

  One code path of \<open>gen_vex_simd\<close> asks \<open>set_imm8\<close> for operand 3, which \<open>set_imm_kind\<close> turns into
  operand 2; \<open>fam_post_except\<close> with the four shuffle codes states precisely which instructions
  leave with a wrongly stamped immediate.
\<close>

definition xmm_of :: "nat \<Rightarrow> register" where
  "xmm_of idx = [''XMM0'', ''XMM1'', ''XMM2'', ''XMM3'', ''XMM4'', ''XMM5'', ''XMM6'', ''XMM7'',
     ''XMM8'', ''XMM9'', ''XMM10'', ''XMM11'', ''XMM12'', ''XMM13'', ''XMM14'', ''XMM15''] ! idx"

definition XR :: "nat \<Rightarrow> fact_arg" where "XR idx = AReg (xmm_of idx)"

lemma XR_simps [gen_simps]: "mem_ok (XR i)" "\<not> is_mem (XR i)" "\<not> is_imm (XR i)"
  by (simp_all add: XR_def mem_ok_def is_mem_def is_imm_def)

definition pick_xmm_index :: "nat draw" where
  "pick_xmm_index = do { v \<leftarrow> rand_int 0 15; State_Monad.return (nat v) }"

lemma wp_pick_xmm_index [wp_rules]:
  "(\<And>r g. r < 16 \<Longrightarrow> Q r (c\<lparr>rng := g\<rparr>)) \<Longrightarrow> wp pick_xmm_index Q c"
  by (auto simp: pick_xmm_index_def wp_simps intro!: wp_rules)

subsection \<open>Shuffles, logic, packing\<close>

definition kSimdShuffleImm :: "code list" where
  "kSimdShuffleImm = [
    ''SHUFPS_XMM_XMMM128_IMM8'', ''SHUFPD_XMM_XMMM128_IMM8'', ''PSHUFD_XMM_XMMM128_IMM8'',
    ''PSHUFLW_XMM_XMMM128_IMM8'', ''PSHUFHW_XMM_XMMM128_IMM8'']"

definition kSimdShuffleNoImm :: "code list" where
  "kSimdShuffleNoImm = [
    ''UNPCKLPS_XMM_XMMM128'', ''UNPCKLPD_XMM_XMMM128'', ''UNPCKHPS_XMM_XMMM128'',
    ''UNPCKHPD_XMM_XMMM128'', ''MOVSLDUP_XMM_XMMM128'', ''MOVSHDUP_XMM_XMMM128'',
    ''MOVDDUP_XMM_XMMM64'']"

definition gen_simd_shuffle :: "instruction option draw" where
  "gen_simd_shuffle = do {
     set_flags_mask 0;
     d \<leftarrow> pick_xmm_index;
     m \<leftarrow> rand_int 0 3;
     let use_mem = (m = 0);
     with_imm \<leftarrow> coin;
     if with_imm then do {
       code \<leftarrow> pick kSimdShuffleImm;
       v \<leftarrow> random_imm 8;
       let imm = to_i32 v;
       if use_mem then do {
         touch_memory;
         disp \<leftarrow> random_disp8;
         ret (set_imm8 (iwith code [XR d, mem_operand disp, AI imm]) 2 (imm_u64 imm))
       } else do {
         s \<leftarrow> pick_xmm_index;
         ret (set_imm8 (iwith code [XR d, XR s, AI imm]) 2 (imm_u64 imm))
       }
     } else do {
       code \<leftarrow> pick kSimdShuffleNoImm;
       if use_mem then do {
         touch_memory;
         disp \<leftarrow> random_disp8;
         ret (iwith code [XR d, mem_operand disp])
       } else do {
         s \<leftarrow> pick_xmm_index;
         ret (iwith code [XR d, XR s])
       }
     }
   }"

lemma shuffle_kinds [gen_simps]: "k \<in> set kSimdShuffleImm \<Longrightarrow> imm_kind k = IMMEDIATE8"
proof -
  have "list_all (\<lambda>k. imm_kind k = IMMEDIATE8) kSimdShuffleImm" by code_simp
  then show "k \<in> set kSimdShuffleImm \<Longrightarrow> imm_kind k = IMMEDIATE8" unfolding list_all_iff by blast
qed

lemma kSimdShuffle_nonempty [gen_simps]: "kSimdShuffleImm \<noteq> []" "kSimdShuffleNoImm \<noteq> []"
  by (simp_all add: kSimdShuffleImm_def kSimdShuffleNoImm_def)

lemma gen_simd_shuffle_ok: "wp gen_simd_shuffle fam_post (fresh_ctx g)"
  by (auto simp: gen_simd_shuffle_def wp_simps gen_simps
      ctx_ok_unfold Let_def intro!: wp_rules)

definition kSimdLogic :: "code list" where
  "kSimdLogic = [
    ''ANDPS_XMM_XMMM128'', ''ANDPD_XMM_XMMM128'', ''ANDNPS_XMM_XMMM128'', ''ANDNPD_XMM_XMMM128'',
    ''ORPS_XMM_XMMM128'', ''ORPD_XMM_XMMM128'', ''XORPS_XMM_XMMM128'', ''XORPD_XMM_XMMM128'',
    ''PAND_XMM_XMMM128'', ''PANDN_XMM_XMMM128'', ''POR_XMM_XMMM128'', ''PXOR_XMM_XMMM128'']"

definition gen_simd_logic :: "instruction option draw" where
  "gen_simd_logic = do {
     set_flags_mask 0;
     code \<leftarrow> pick kSimdLogic;
     d \<leftarrow> pick_xmm_index;
     m \<leftarrow> rand_int 0 3;
     if m = 0 then do {
       touch_memory;
       disp \<leftarrow> random_disp8;
       ret (iwith code [XR d, mem_operand disp])
     } else do {
       s \<leftarrow> pick_xmm_index;
       ret (iwith code [XR d, XR s])
     }
   }"

lemma gen_simd_logic_ok: "wp gen_simd_logic fam_post (fresh_ctx g)"
  by (auto simp: gen_simd_logic_def kSimdLogic_def wp_simps gen_simps ctx_ok_unfold Let_def intro!: wp_rules)

definition kSimdPack :: "code list" where
  "kSimdPack = [
    ''PACKSSWB_XMM_XMMM128'', ''PACKSSDW_XMM_XMMM128'', ''PACKUSWB_XMM_XMMM128'',
    ''PUNPCKLBW_XMM_XMMM128'', ''PUNPCKHBW_XMM_XMMM128'', ''PUNPCKLWD_XMM_XMMM128'',
    ''PUNPCKHWD_XMM_XMMM128'', ''PUNPCKLDQ_XMM_XMMM128'', ''PUNPCKHDQ_XMM_XMMM128'',
    ''PUNPCKLQDQ_XMM_XMMM128'', ''PUNPCKHQDQ_XMM_XMMM128'']"

definition gen_simd_pack :: "instruction option draw" where
  "gen_simd_pack = do {
     set_flags_mask 0;
     code \<leftarrow> pick kSimdPack;
     d \<leftarrow> pick_xmm_index;
     m \<leftarrow> rand_int 0 3;
     if m = 0 then do {
       touch_memory;
       disp \<leftarrow> random_disp8;
       ret (iwith code [XR d, mem_operand disp])
     } else do {
       s \<leftarrow> pick_xmm_index;
       ret (iwith code [XR d, XR s])
     }
   }"

lemma gen_simd_pack_ok: "wp gen_simd_pack fam_post (fresh_ctx g)"
  by (auto simp: gen_simd_pack_def kSimdPack_def wp_simps gen_simps ctx_ok_unfold Let_def intro!: wp_rules)

subsection \<open>Shifts\<close>

definition kSimdShiftReg :: "code list" where
  "kSimdShiftReg = [
    ''PSLLW_XMM_XMMM128'', ''PSLLD_XMM_XMMM128'', ''PSLLQ_XMM_XMMM128'', ''PSRLW_XMM_XMMM128'',
    ''PSRLD_XMM_XMMM128'', ''PSRLQ_XMM_XMMM128'', ''PSRAW_XMM_XMMM128'', ''PSRAD_XMM_XMMM128'']"

definition kSimdShiftImm :: "code list" where
  "kSimdShiftImm = [
    ''PSLLW_XMM_IMM8'', ''PSLLD_XMM_IMM8'', ''PSLLQ_XMM_IMM8'', ''PSRLW_XMM_IMM8'',
    ''PSRLD_XMM_IMM8'', ''PSRLQ_XMM_IMM8'', ''PSRAW_XMM_IMM8'', ''PSRAD_XMM_IMM8'',
    ''PSRLDQ_XMM_IMM8'', ''PSLLDQ_XMM_IMM8'']"

definition gen_simd_shift :: "instruction option draw" where
  "gen_simd_shift = do {
     set_flags_mask 0;
     d \<leftarrow> pick_xmm_index;
     with_imm \<leftarrow> coin;
     if with_imm then do {
       code \<leftarrow> pick kSimdShiftImm;
       v \<leftarrow> random_imm 8;
       let imm = to_i32 v;
       ret (set_imm8 (iwith code [XR d, AI imm]) 1 (imm_u64 imm))
     } else do {
       code \<leftarrow> pick kSimdShiftReg;
       m \<leftarrow> rand_int 0 3;
       if m = 0 then do {
         touch_memory;
         disp \<leftarrow> random_disp8;
         ret (iwith code [XR d, mem_operand disp])
       } else do {
         s \<leftarrow> pick_xmm_index;
         ret (iwith code [XR d, XR s])
       }
     }
   }"

lemma simd_shift_kinds [gen_simps]: "k \<in> set kSimdShiftImm \<Longrightarrow> imm_kind k = IMMEDIATE8"
proof -
  have "list_all (\<lambda>k. imm_kind k = IMMEDIATE8) kSimdShiftImm" by code_simp
  then show "k \<in> set kSimdShiftImm \<Longrightarrow> imm_kind k = IMMEDIATE8" unfolding list_all_iff by blast
qed

lemma kSimdShift_nonempty [gen_simps]: "kSimdShiftImm \<noteq> []" "kSimdShiftReg \<noteq> []"
  by (simp_all add: kSimdShiftImm_def kSimdShiftReg_def)

lemma gen_simd_shift_ok: "wp gen_simd_shift fam_post (fresh_ctx g)"
  by (auto simp: gen_simd_shift_def wp_simps gen_simps
      ctx_ok_unfold Let_def intro!: wp_rules)

subsection \<open>Floating point and packed integers\<close>

definition kSimdFpNoFlags :: "code list" where
  "kSimdFpNoFlags = [
    ''ADDSUBPS_XMM_XMMM128'', ''ADDSUBPD_XMM_XMMM128'', ''HADDPS_XMM_XMMM128'',
    ''HADDPD_XMM_XMMM128'', ''HSUBPS_XMM_XMMM128'', ''HSUBPD_XMM_XMMM128'']"

definition kSimdFpCompare :: "code list" where
  "kSimdFpCompare = [
    ''COMISS_XMM_XMMM32'', ''UCOMISS_XMM_XMMM32'', ''COMISD_XMM_XMMM64'', ''UCOMISD_XMM_XMMM64'']"

definition kSseArith :: "code list" where
  "kSseArith = [
    ''ADDPS_XMM_XMMM128'', ''ADDPD_XMM_XMMM128'', ''ADDSS_XMM_XMMM32'', ''ADDSD_XMM_XMMM64'',
    ''SUBPS_XMM_XMMM128'', ''SUBPD_XMM_XMMM128'', ''SUBSS_XMM_XMMM32'', ''SUBSD_XMM_XMMM64'',
    ''MULPS_XMM_XMMM128'', ''MULPD_XMM_XMMM128'', ''MULSS_XMM_XMMM32'', ''MULSD_XMM_XMMM64'',
    ''DIVPS_XMM_XMMM128'', ''DIVPD_XMM_XMMM128'', ''DIVSS_XMM_XMMM32'', ''DIVSD_XMM_XMMM64'',
    ''MINPS_XMM_XMMM128'', ''MINPD_XMM_XMMM128'', ''MINSS_XMM_XMMM32'', ''MINSD_XMM_XMMM64'',
    ''MAXPS_XMM_XMMM128'', ''MAXPD_XMM_XMMM128'', ''MAXSS_XMM_XMMM32'', ''MAXSD_XMM_XMMM64'',
    ''SQRTPS_XMM_XMMM128'', ''SQRTPD_XMM_XMMM128'', ''SQRTSS_XMM_XMMM32'', ''SQRTSD_XMM_XMMM64'']"

definition gen_sse_arith :: "instruction option draw" where
  "gen_sse_arith = do {
     set_flags_mask 0;
     code \<leftarrow> pick kSseArith;
     d \<leftarrow> pick_xmm_index;
     m \<leftarrow> rand_int 0 3;
     if m = 0 then do {
       touch_memory;
       disp \<leftarrow> random_disp8;
       ret (iwith code [XR d, mem_operand disp])
     } else do {
       s \<leftarrow> pick_xmm_index;
       ret (iwith code [XR d, XR s])
     }
   }"

lemma gen_sse_arith_ok: "wp gen_sse_arith fam_post (fresh_ctx g)"
  by (auto simp: gen_sse_arith_def kSseArith_def wp_simps gen_simps ctx_ok_unfold Let_def intro!: wp_rules)

definition kPackedInt :: "code list" where
  "kPackedInt = [
    ''PADDB_XMM_XMMM128'', ''PADDW_XMM_XMMM128'', ''PADDD_XMM_XMMM128'', ''PADDQ_XMM_XMMM128'',
    ''PADDSB_XMM_XMMM128'', ''PADDSW_XMM_XMMM128'', ''PADDUSB_XMM_XMMM128'',
    ''PADDUSW_XMM_XMMM128'', ''PSUBB_XMM_XMMM128'', ''PSUBW_XMM_XMMM128'', ''PSUBD_XMM_XMMM128'',
    ''PSUBQ_XMM_XMMM128'', ''PSUBSB_XMM_XMMM128'', ''PSUBSW_XMM_XMMM128'', ''PSUBUSB_XMM_XMMM128'',
    ''PSUBUSW_XMM_XMMM128'', ''PCMPEQB_XMM_XMMM128'', ''PCMPEQW_XMM_XMMM128'',
    ''PCMPEQD_XMM_XMMM128'', ''PCMPEQQ_XMM_XMMM128'', ''PCMPGTB_XMM_XMMM128'',
    ''PCMPGTW_XMM_XMMM128'', ''PCMPGTD_XMM_XMMM128'', ''PCMPGTQ_XMM_XMMM128'',
    ''PAVGB_XMM_XMMM128'', ''PAVGW_XMM_XMMM128'', ''PMAXUB_XMM_XMMM128'', ''PMINSW_XMM_XMMM128'',
    ''PMULLW_XMM_XMMM128'', ''PMULHW_XMM_XMMM128'', ''PMULHUW_XMM_XMMM128'',
    ''PMULUDQ_XMM_XMMM128'', ''PMADDWD_XMM_XMMM128'', ''PSADBW_XMM_XMMM128'']"

definition gen_packed_int :: "instruction option draw" where
  "gen_packed_int = do {
     set_flags_mask 0;
     code \<leftarrow> pick kPackedInt;
     d \<leftarrow> pick_xmm_index;
     m \<leftarrow> rand_int 0 3;
     if m = 0 then do {
       touch_memory;
       disp \<leftarrow> aligned_disp8 16;
       ret (iwith code [XR d, mem_operand disp])
     } else do {
       s \<leftarrow> pick_xmm_index;
       ret (iwith code [XR d, XR s])
     }
   }"

lemma gen_packed_int_ok: "wp gen_packed_int fam_post (fresh_ctx g)"
  by (auto simp: gen_packed_int_def kPackedInt_def wp_simps gen_simps ctx_ok_unfold Let_def intro!: wp_rules)

definition gen_simd_fp :: "instruction option draw" where
  "gen_simd_fp = do {
     d \<leftarrow> pick_xmm_index;
     is_compare \<leftarrow> coin;
     code \<leftarrow> (if is_compare then pick kSimdFpCompare else pick kSimdFpNoFlags);
     set_flags_mask (if is_compare then kCompareFlagsMask else 0);
     m \<leftarrow> rand_int 0 3;
     if m = 0 then do {
       touch_memory;
       disp \<leftarrow> random_disp8;
       ret (iwith code [XR d, mem_operand disp])
     } else do {
       s \<leftarrow> pick_xmm_index;
       ret (iwith code [XR d, XR s])
     }
   }"

lemma gen_simd_fp_ok: "wp gen_simd_fp fam_post (fresh_ctx g)"
  by (auto simp: gen_simd_fp_def kSimdFpCompare_def kSimdFpNoFlags_def wp_simps gen_simps
      ctx_ok_unfold Let_def intro!: wp_rules)

subsection \<open>SSE moves\<close>

record sse_move_form =
  move_code :: code
  needs_alignment :: bool

definition move_row :: "code \<Rightarrow> bool \<Rightarrow> sse_move_form" where
  "move_row c a = \<lparr>move_code = c, needs_alignment = a\<rparr>"

definition kSseMoveLoad :: "sse_move_form list" where
  "kSseMoveLoad = [
    move_row ''MOVAPS_XMM_XMMM128'' True,
    move_row ''MOVAPD_XMM_XMMM128'' True,
    move_row ''MOVDQA_XMM_XMMM128'' True,
    move_row ''MOVNTDQA_XMM_M128'' True,
    move_row ''MOVUPS_XMM_XMMM128'' False,
    move_row ''MOVUPD_XMM_XMMM128'' False,
    move_row ''MOVDQU_XMM_XMMM128'' False,
    move_row ''LDDQU_XMM_M128'' False,
    move_row ''MOVSS_XMM_XMMM32'' False,
    move_row ''MOVSD_XMM_XMMM64'' False,
    move_row ''MOVHPS_XMM_M64'' False,
    move_row ''MOVHPD_XMM_M64'' False,
    move_row ''MOVLPS_XMM_M64'' False,
    move_row ''MOVLPD_XMM_M64'' False,
    move_row ''MOVQ_XMM_XMMM64'' False,
    move_row ''MOVDDUP_XMM_XMMM64'' False]"

definition kSseMoveStore :: "sse_move_form list" where
  "kSseMoveStore = [
    move_row ''MOVAPS_XMMM128_XMM'' True,
    move_row ''MOVAPD_XMMM128_XMM'' True,
    move_row ''MOVDQA_XMMM128_XMM'' True,
    move_row ''MOVNTPS_M128_XMM'' True,
    move_row ''MOVNTPD_M128_XMM'' True,
    move_row ''MOVNTDQ_M128_XMM'' True,
    move_row ''MOVUPS_XMMM128_XMM'' False,
    move_row ''MOVUPD_XMMM128_XMM'' False,
    move_row ''MOVDQU_XMMM128_XMM'' False,
    move_row ''MOVSS_XMMM32_XMM'' False,
    move_row ''MOVSD_XMMM64_XMM'' False,
    move_row ''MOVHPS_M64_XMM'' False,
    move_row ''MOVHPD_M64_XMM'' False,
    move_row ''MOVLPS_M64_XMM'' False,
    move_row ''MOVLPD_M64_XMM'' False]"

definition kMemOnlyLoads :: "code list" where
  "kMemOnlyLoads = [''MOVNTDQA_XMM_M128'', ''LDDQU_XMM_M128'', ''MOVHPS_XMM_M64'', ''MOVHPD_XMM_M64'',
                    ''MOVLPS_XMM_M64'', ''MOVLPD_XMM_M64'']"

definition gen_sse_move :: "instruction option draw" where
  "gen_sse_move = do {
     set_flags_mask 0;
     store \<leftarrow> coin;
     form \<leftarrow> (if store then pick kSseMoveStore else pick kSseMoveLoad);
     force_misaligned \<leftarrow>
       (if needs_alignment form then do { q \<leftarrow> rand_int 0 7; State_Monad.return (q = 0) }
        else State_Monad.return False);
     disp \<leftarrow> (if needs_alignment form \<and> \<not> force_misaligned then aligned_disp8 16 else random_disp8);
     reg \<leftarrow> pick_xmm_index;
     if store then do {
       touch_memory;
       ret (iwith (move_code form) [mem_operand disp, XR reg])
     } else do {
       let mem_only = (move_code form \<in> set kMemOnlyLoads);
       use_mem \<leftarrow> (if mem_only then State_Monad.return True
                  else do { q \<leftarrow> rand_int 0 2; State_Monad.return (q \<noteq> 0) });
       if use_mem then do {
         touch_memory;
         ret (iwith (move_code form) [XR reg, mem_operand disp])
       } else do {
         s \<leftarrow> pick_xmm_index;
         ret (iwith (move_code form) [XR reg, XR s])
       }
     }
   }"

lemma kSseMove_nonempty: "kSseMoveStore \<noteq> []" "kSseMoveLoad \<noteq> []"
  by (simp_all add: kSseMoveStore_def kSseMoveLoad_def)

lemma gen_sse_move_ok: "wp gen_sse_move fam_post (fresh_ctx g)"
  by (auto simp: gen_sse_move_def kSseMove_nonempty wp_simps gen_simps ctx_ok_unfold Let_def
      intro!: wp_rules)

subsection \<open>VEX and EVEX\<close>

datatype vex_shape = VexDstSrcRm | VexDstRm | VexRmDst | VexDstSrcImm | VexDstSrcSrc | VexDstRmImm
  | VexDstSrcRm64 | VexDstSrcRm32 | VexDstRm64 | VexDstSrcRmImm

record vex_entry =
  vex_code :: code
  vex_shape_of :: vex_shape
  vex_evex :: bool
  vex_broadcast :: bool

definition vex_row :: "code \<Rightarrow> vex_shape \<Rightarrow> bool \<Rightarrow> bool \<Rightarrow> vex_entry" where
  "vex_row c s e b = \<lparr>vex_code = c, vex_shape_of = s, vex_evex = e, vex_broadcast = b\<rparr>"

definition kVexSimd_evex :: "vex_entry list" where
  "kVexSimd_evex = [
    vex_row ''EVEX_VMOVAPD_XMMM128_K1Z_XMM'' VexRmDst True False,
    vex_row ''EVEX_VMOVAPD_XMM_K1Z_XMMM128'' VexDstRm True False,
    vex_row ''EVEX_VMOVAPS_XMMM128_K1Z_XMM'' VexRmDst True False,
    vex_row ''EVEX_VMOVAPS_XMM_K1Z_XMMM128'' VexDstRm True False,
    vex_row ''EVEX_VMOVDDUP_XMM_K1Z_XMMM64'' VexDstRm64 True False,
    vex_row ''EVEX_VMOVDQA32_XMMM128_K1Z_XMM'' VexRmDst True False,
    vex_row ''EVEX_VMOVDQA32_XMM_K1Z_XMMM128'' VexDstRm True False,
    vex_row ''EVEX_VMOVDQA64_XMMM128_K1Z_XMM'' VexRmDst True False,
    vex_row ''EVEX_VMOVDQA64_XMM_K1Z_XMMM128'' VexDstRm True False,
    vex_row ''EVEX_VMOVDQU16_XMMM128_K1Z_XMM'' VexRmDst True False,
    vex_row ''EVEX_VMOVDQU16_XMM_K1Z_XMMM128'' VexDstRm True False,
    vex_row ''EVEX_VMOVDQU32_XMMM128_K1Z_XMM'' VexRmDst True False,
    vex_row ''EVEX_VMOVDQU32_XMM_K1Z_XMMM128'' VexDstRm True False,
    vex_row ''EVEX_VMOVDQU64_XMMM128_K1Z_XMM'' VexRmDst True False,
    vex_row ''EVEX_VMOVDQU64_XMM_K1Z_XMMM128'' VexDstRm True False,
    vex_row ''EVEX_VMOVDQU8_XMMM128_K1Z_XMM'' VexRmDst True False,
    vex_row ''EVEX_VMOVDQU8_XMM_K1Z_XMMM128'' VexDstRm True False,
    vex_row ''EVEX_VMOVHLPS_XMM_XMM_XMM'' VexDstSrcSrc True False,
    vex_row ''EVEX_VMOVLHPS_XMM_XMM_XMM'' VexDstSrcSrc True False,
    vex_row ''EVEX_VMOVQ_XMM_XMMM64'' VexDstRm64 True False,
    vex_row ''EVEX_VMOVSD_XMM_K1Z_XMM_XMM'' VexDstSrcSrc True False,
    vex_row ''EVEX_VMOVSHDUP_XMM_K1Z_XMMM128'' VexDstRm True False,
    vex_row ''EVEX_VMOVSLDUP_XMM_K1Z_XMMM128'' VexDstRm True False,
    vex_row ''EVEX_VMOVSS_XMM_K1Z_XMM_XMM'' VexDstSrcSrc True False,
    vex_row ''EVEX_VMOVUPD_XMMM128_K1Z_XMM'' VexRmDst True False,
    vex_row ''EVEX_VMOVUPD_XMM_K1Z_XMMM128'' VexDstRm True False,
    vex_row ''EVEX_VMOVUPS_XMMM128_K1Z_XMM'' VexRmDst True False,
    vex_row ''EVEX_VMOVUPS_XMM_K1Z_XMMM128'' VexDstRm True False,
    vex_row ''EVEX_VPACKSSDW_XMM_K1Z_XMM_XMMM128B32'' VexDstSrcRm True True,
    vex_row ''EVEX_VPACKSSWB_XMM_K1Z_XMM_XMMM128'' VexDstSrcRm True False,
    vex_row ''EVEX_VPACKUSWB_XMM_K1Z_XMM_XMMM128'' VexDstSrcRm True False,
    vex_row ''EVEX_VPADDB_XMM_K1Z_XMM_XMMM128'' VexDstSrcRm True False,
    vex_row ''EVEX_VPADDD_XMM_K1Z_XMM_XMMM128B32'' VexDstSrcRm True True,
    vex_row ''EVEX_VPADDQ_XMM_K1Z_XMM_XMMM128B64'' VexDstSrcRm True True,
    vex_row ''EVEX_VPADDSB_XMM_K1Z_XMM_XMMM128'' VexDstSrcRm True False,
    vex_row ''EVEX_VPADDSW_XMM_K1Z_XMM_XMMM128'' VexDstSrcRm True False,
    vex_row ''EVEX_VPADDUSB_XMM_K1Z_XMM_XMMM128'' VexDstSrcRm True False,
    vex_row ''EVEX_VPADDUSW_XMM_K1Z_XMM_XMMM128'' VexDstSrcRm True False,
    vex_row ''EVEX_VPADDW_XMM_K1Z_XMM_XMMM128'' VexDstSrcRm True False,
    vex_row ''EVEX_VPANDD_XMM_K1Z_XMM_XMMM128B32'' VexDstSrcRm True True,
    vex_row ''EVEX_VPANDND_XMM_K1Z_XMM_XMMM128B32'' VexDstSrcRm True True,
    vex_row ''EVEX_VPANDNQ_XMM_K1Z_XMM_XMMM128B64'' VexDstSrcRm True True,
    vex_row ''EVEX_VPANDQ_XMM_K1Z_XMM_XMMM128B64'' VexDstSrcRm True True,
    vex_row ''EVEX_VPAVGB_XMM_K1Z_XMM_XMMM128'' VexDstSrcRm True False,
    vex_row ''EVEX_VPAVGW_XMM_K1Z_XMM_XMMM128'' VexDstSrcRm True False,
    vex_row ''EVEX_VPMULLW_XMM_K1Z_XMM_XMMM128'' VexDstSrcRm True False,
    vex_row ''EVEX_VPORD_XMM_K1Z_XMM_XMMM128B32'' VexDstSrcRm True True,
    vex_row ''EVEX_VPORQ_XMM_K1Z_XMM_XMMM128B64'' VexDstSrcRm True True,
    vex_row ''EVEX_VPSLLD_XMM_K1Z_XMMM128B32_IMM8'' VexDstRmImm True True,
    vex_row ''EVEX_VPSLLD_XMM_K1Z_XMM_XMMM128'' VexDstSrcRm True False,
    vex_row ''EVEX_VPSLLQ_XMM_K1Z_XMMM128B64_IMM8'' VexDstRmImm True True,
    vex_row ''EVEX_VPSLLQ_XMM_K1Z_XMM_XMMM128'' VexDstSrcRm True False,
    vex_row ''EVEX_VPSLLW_XMM_K1Z_XMMM128_IMM8'' VexDstRmImm True False,
    vex_row ''EVEX_VPSLLW_XMM_K1Z_XMM_XMMM128'' VexDstSrcRm True False,
    vex_row ''EVEX_VPSRAD_XMM_K1Z_XMMM128B32_IMM8'' VexDstRmImm True True,
    vex_row ''EVEX_VPSRAD_XMM_K1Z_XMM_XMMM128'' VexDstSrcRm True False,
    vex_row ''EVEX_VPSRAW_XMM_K1Z_XMMM128_IMM8'' VexDstRmImm True False,
    vex_row ''EVEX_VPSRAW_XMM_K1Z_XMM_XMMM128'' VexDstSrcRm True False,
    vex_row ''EVEX_VPSRLD_XMM_K1Z_XMMM128B32_IMM8'' VexDstRmImm True True,
    vex_row ''EVEX_VPSRLD_XMM_K1Z_XMM_XMMM128'' VexDstSrcRm True False,
    vex_row ''EVEX_VPSRLQ_XMM_K1Z_XMMM128B64_IMM8'' VexDstRmImm True True,
    vex_row ''EVEX_VPSRLQ_XMM_K1Z_XMM_XMMM128'' VexDstSrcRm True False,
    vex_row ''EVEX_VPSRLW_XMM_K1Z_XMMM128_IMM8'' VexDstRmImm True False,
    vex_row ''EVEX_VPSRLW_XMM_K1Z_XMM_XMMM128'' VexDstSrcRm True False,
    vex_row ''EVEX_VPSUBB_XMM_K1Z_XMM_XMMM128'' VexDstSrcRm True False,
    vex_row ''EVEX_VPSUBD_XMM_K1Z_XMM_XMMM128B32'' VexDstSrcRm True True,
    vex_row ''EVEX_VPSUBQ_XMM_K1Z_XMM_XMMM128B64'' VexDstSrcRm True True,
    vex_row ''EVEX_VPSUBSB_XMM_K1Z_XMM_XMMM128'' VexDstSrcRm True False,
    vex_row ''EVEX_VPSUBSW_XMM_K1Z_XMM_XMMM128'' VexDstSrcRm True False,
    vex_row ''EVEX_VPSUBUSB_XMM_K1Z_XMM_XMMM128'' VexDstSrcRm True False,
    vex_row ''EVEX_VPSUBUSW_XMM_K1Z_XMM_XMMM128'' VexDstSrcRm True False,
    vex_row ''EVEX_VPSUBW_XMM_K1Z_XMM_XMMM128'' VexDstSrcRm True False,
    vex_row ''EVEX_VPUNPCKHBW_XMM_K1Z_XMM_XMMM128'' VexDstSrcRm True False,
    vex_row ''EVEX_VPUNPCKHDQ_XMM_K1Z_XMM_XMMM128B32'' VexDstSrcRm True True,
    vex_row ''EVEX_VPUNPCKHWD_XMM_K1Z_XMM_XMMM128'' VexDstSrcRm True False,
    vex_row ''EVEX_VPUNPCKLBW_XMM_K1Z_XMM_XMMM128'' VexDstSrcRm True False,
    vex_row ''EVEX_VPUNPCKLDQ_XMM_K1Z_XMM_XMMM128B32'' VexDstSrcRm True True,
    vex_row ''EVEX_VPUNPCKLWD_XMM_K1Z_XMM_XMMM128'' VexDstSrcRm True False,
    vex_row ''EVEX_VPXORD_XMM_K1Z_XMM_XMMM128B32'' VexDstSrcRm True True,
    vex_row ''EVEX_VPXORQ_XMM_K1Z_XMM_XMMM128B64'' VexDstSrcRm True True,
    vex_row ''EVEX_VSHUFPD_XMM_K1Z_XMM_XMMM128B64_IMM8'' VexDstSrcRmImm True True,
    vex_row ''EVEX_VSHUFPS_XMM_K1Z_XMM_XMMM128B32_IMM8'' VexDstSrcRmImm True True,
    vex_row ''EVEX_VUNPCKHPD_XMM_K1Z_XMM_XMMM128B64'' VexDstSrcRm True True,
    vex_row ''EVEX_VUNPCKHPS_XMM_K1Z_XMM_XMMM128B32'' VexDstSrcRm True True,
    vex_row ''EVEX_VUNPCKLPD_XMM_K1Z_XMM_XMMM128B64'' VexDstSrcRm True True,
    vex_row ''EVEX_VUNPCKLPS_XMM_K1Z_XMM_XMMM128B32'' VexDstSrcRm True True]"

definition kVexSimd_vex :: "vex_entry list" where
  "kVexSimd_vex = [
    vex_row ''VEX_VADDPD_XMM_XMM_XMMM128'' VexDstSrcRm False False,
    vex_row ''VEX_VADDPS_XMM_XMM_XMMM128'' VexDstSrcRm False False,
    vex_row ''VEX_VADDSD_XMM_XMM_XMMM64'' VexDstSrcRm64 False False,
    vex_row ''VEX_VADDSS_XMM_XMM_XMMM32'' VexDstSrcRm32 False False,
    vex_row ''VEX_VANDNPD_XMM_XMM_XMMM128'' VexDstSrcRm False False,
    vex_row ''VEX_VANDNPS_XMM_XMM_XMMM128'' VexDstSrcRm False False,
    vex_row ''VEX_VANDPD_XMM_XMM_XMMM128'' VexDstSrcRm False False,
    vex_row ''VEX_VANDPS_XMM_XMM_XMMM128'' VexDstSrcRm False False,
    vex_row ''VEX_VDIVPD_XMM_XMM_XMMM128'' VexDstSrcRm False False,
    vex_row ''VEX_VDIVPS_XMM_XMM_XMMM128'' VexDstSrcRm False False,
    vex_row ''VEX_VDIVSD_XMM_XMM_XMMM64'' VexDstSrcRm64 False False,
    vex_row ''VEX_VDIVSS_XMM_XMM_XMMM32'' VexDstSrcRm32 False False,
    vex_row ''VEX_VMAXPD_XMM_XMM_XMMM128'' VexDstSrcRm False False,
    vex_row ''VEX_VMAXPS_XMM_XMM_XMMM128'' VexDstSrcRm False False,
    vex_row ''VEX_VMAXSD_XMM_XMM_XMMM64'' VexDstSrcRm64 False False,
    vex_row ''VEX_VMAXSS_XMM_XMM_XMMM32'' VexDstSrcRm32 False False,
    vex_row ''VEX_VMINPD_XMM_XMM_XMMM128'' VexDstSrcRm False False,
    vex_row ''VEX_VMINPS_XMM_XMM_XMMM128'' VexDstSrcRm False False,
    vex_row ''VEX_VMINSD_XMM_XMM_XMMM64'' VexDstSrcRm64 False False,
    vex_row ''VEX_VMINSS_XMM_XMM_XMMM32'' VexDstSrcRm32 False False,
    vex_row ''VEX_VMOVAPD_XMMM128_XMM'' VexRmDst False False,
    vex_row ''VEX_VMOVAPD_XMM_XMMM128'' VexDstRm False False,
    vex_row ''VEX_VMOVAPS_XMMM128_XMM'' VexRmDst False False,
    vex_row ''VEX_VMOVAPS_XMM_XMMM128'' VexDstRm False False,
    vex_row ''VEX_VMOVDDUP_XMM_XMMM64'' VexDstRm64 False False,
    vex_row ''VEX_VMOVDQA_XMMM128_XMM'' VexRmDst False False,
    vex_row ''VEX_VMOVDQA_XMM_XMMM128'' VexDstRm False False,
    vex_row ''VEX_VMOVDQU_XMMM128_XMM'' VexRmDst False False,
    vex_row ''VEX_VMOVDQU_XMM_XMMM128'' VexDstRm False False,
    vex_row ''VEX_VMOVHLPS_XMM_XMM_XMM'' VexDstSrcSrc False False,
    vex_row ''VEX_VMOVLHPS_XMM_XMM_XMM'' VexDstSrcSrc False False,
    vex_row ''VEX_VMOVQ_XMM_XMMM64'' VexDstRm64 False False,
    vex_row ''VEX_VMOVSD_XMM_XMM_XMM'' VexDstSrcSrc False False,
    vex_row ''VEX_VMOVSHDUP_XMM_XMMM128'' VexDstRm False False,
    vex_row ''VEX_VMOVSLDUP_XMM_XMMM128'' VexDstRm False False,
    vex_row ''VEX_VMOVSS_XMM_XMM_XMM'' VexDstSrcSrc False False,
    vex_row ''VEX_VMOVUPD_XMMM128_XMM'' VexRmDst False False,
    vex_row ''VEX_VMOVUPD_XMM_XMMM128'' VexDstRm False False,
    vex_row ''VEX_VMOVUPS_XMMM128_XMM'' VexRmDst False False,
    vex_row ''VEX_VMOVUPS_XMM_XMMM128'' VexDstRm False False,
    vex_row ''VEX_VMULPD_XMM_XMM_XMMM128'' VexDstSrcRm False False,
    vex_row ''VEX_VMULPS_XMM_XMM_XMMM128'' VexDstSrcRm False False,
    vex_row ''VEX_VMULSD_XMM_XMM_XMMM64'' VexDstSrcRm64 False False,
    vex_row ''VEX_VMULSS_XMM_XMM_XMMM32'' VexDstSrcRm32 False False,
    vex_row ''VEX_VORPD_XMM_XMM_XMMM128'' VexDstSrcRm False False,
    vex_row ''VEX_VORPS_XMM_XMM_XMMM128'' VexDstSrcRm False False,
    vex_row ''VEX_VPACKSSDW_XMM_XMM_XMMM128'' VexDstSrcRm False False,
    vex_row ''VEX_VPACKSSWB_XMM_XMM_XMMM128'' VexDstSrcRm False False,
    vex_row ''VEX_VPACKUSWB_XMM_XMM_XMMM128'' VexDstSrcRm False False,
    vex_row ''VEX_VPADDB_XMM_XMM_XMMM128'' VexDstSrcRm False False,
    vex_row ''VEX_VPADDD_XMM_XMM_XMMM128'' VexDstSrcRm False False,
    vex_row ''VEX_VPADDQ_XMM_XMM_XMMM128'' VexDstSrcRm False False,
    vex_row ''VEX_VPADDSB_XMM_XMM_XMMM128'' VexDstSrcRm False False,
    vex_row ''VEX_VPADDSW_XMM_XMM_XMMM128'' VexDstSrcRm False False,
    vex_row ''VEX_VPADDUSB_XMM_XMM_XMMM128'' VexDstSrcRm False False,
    vex_row ''VEX_VPADDUSW_XMM_XMM_XMMM128'' VexDstSrcRm False False,
    vex_row ''VEX_VPADDW_XMM_XMM_XMMM128'' VexDstSrcRm False False,
    vex_row ''VEX_VPANDN_XMM_XMM_XMMM128'' VexDstSrcRm False False,
    vex_row ''VEX_VPAND_XMM_XMM_XMMM128'' VexDstSrcRm False False,
    vex_row ''VEX_VPAVGB_XMM_XMM_XMMM128'' VexDstSrcRm False False,
    vex_row ''VEX_VPAVGW_XMM_XMM_XMMM128'' VexDstSrcRm False False,
    vex_row ''VEX_VPCMPEQB_XMM_XMM_XMMM128'' VexDstSrcRm False False,
    vex_row ''VEX_VPCMPEQD_XMM_XMM_XMMM128'' VexDstSrcRm False False,
    vex_row ''VEX_VPCMPEQQ_XMM_XMM_XMMM128'' VexDstSrcRm False False,
    vex_row ''VEX_VPCMPEQW_XMM_XMM_XMMM128'' VexDstSrcRm False False,
    vex_row ''VEX_VPCMPGTB_XMM_XMM_XMMM128'' VexDstSrcRm False False,
    vex_row ''VEX_VPCMPGTD_XMM_XMM_XMMM128'' VexDstSrcRm False False,
    vex_row ''VEX_VPCMPGTQ_XMM_XMM_XMMM128'' VexDstSrcRm False False,
    vex_row ''VEX_VPCMPGTW_XMM_XMM_XMMM128'' VexDstSrcRm False False,
    vex_row ''VEX_VPMULLW_XMM_XMM_XMMM128'' VexDstSrcRm False False,
    vex_row ''VEX_VPOR_XMM_XMM_XMMM128'' VexDstSrcRm False False,
    vex_row ''VEX_VPSLLDQ_XMM_XMM_IMM8'' VexDstSrcImm False False,
    vex_row ''VEX_VPSLLD_XMM_XMM_IMM8'' VexDstSrcImm False False,
    vex_row ''VEX_VPSLLD_XMM_XMM_XMMM128'' VexDstSrcRm False False,
    vex_row ''VEX_VPSLLQ_XMM_XMM_IMM8'' VexDstSrcImm False False,
    vex_row ''VEX_VPSLLQ_XMM_XMM_XMMM128'' VexDstSrcRm False False,
    vex_row ''VEX_VPSLLW_XMM_XMM_IMM8'' VexDstSrcImm False False,
    vex_row ''VEX_VPSLLW_XMM_XMM_XMMM128'' VexDstSrcRm False False,
    vex_row ''VEX_VPSRAD_XMM_XMM_IMM8'' VexDstSrcImm False False,
    vex_row ''VEX_VPSRAD_XMM_XMM_XMMM128'' VexDstSrcRm False False,
    vex_row ''VEX_VPSRAW_XMM_XMM_IMM8'' VexDstSrcImm False False,
    vex_row ''VEX_VPSRAW_XMM_XMM_XMMM128'' VexDstSrcRm False False,
    vex_row ''VEX_VPSRLDQ_XMM_XMM_IMM8'' VexDstSrcImm False False,
    vex_row ''VEX_VPSRLD_XMM_XMM_IMM8'' VexDstSrcImm False False,
    vex_row ''VEX_VPSRLD_XMM_XMM_XMMM128'' VexDstSrcRm False False,
    vex_row ''VEX_VPSRLQ_XMM_XMM_IMM8'' VexDstSrcImm False False,
    vex_row ''VEX_VPSRLQ_XMM_XMM_XMMM128'' VexDstSrcRm False False,
    vex_row ''VEX_VPSRLW_XMM_XMM_IMM8'' VexDstSrcImm False False,
    vex_row ''VEX_VPSRLW_XMM_XMM_XMMM128'' VexDstSrcRm False False,
    vex_row ''VEX_VPSUBB_XMM_XMM_XMMM128'' VexDstSrcRm False False,
    vex_row ''VEX_VPSUBD_XMM_XMM_XMMM128'' VexDstSrcRm False False,
    vex_row ''VEX_VPSUBQ_XMM_XMM_XMMM128'' VexDstSrcRm False False,
    vex_row ''VEX_VPSUBSB_XMM_XMM_XMMM128'' VexDstSrcRm False False,
    vex_row ''VEX_VPSUBSW_XMM_XMM_XMMM128'' VexDstSrcRm False False,
    vex_row ''VEX_VPSUBUSB_XMM_XMM_XMMM128'' VexDstSrcRm False False,
    vex_row ''VEX_VPSUBUSW_XMM_XMM_XMMM128'' VexDstSrcRm False False,
    vex_row ''VEX_VPSUBW_XMM_XMM_XMMM128'' VexDstSrcRm False False,
    vex_row ''VEX_VPUNPCKHBW_XMM_XMM_XMMM128'' VexDstSrcRm False False,
    vex_row ''VEX_VPUNPCKHDQ_XMM_XMM_XMMM128'' VexDstSrcRm False False,
    vex_row ''VEX_VPUNPCKHWD_XMM_XMM_XMMM128'' VexDstSrcRm False False,
    vex_row ''VEX_VPUNPCKLBW_XMM_XMM_XMMM128'' VexDstSrcRm False False,
    vex_row ''VEX_VPUNPCKLDQ_XMM_XMM_XMMM128'' VexDstSrcRm False False,
    vex_row ''VEX_VPUNPCKLWD_XMM_XMM_XMMM128'' VexDstSrcRm False False,
    vex_row ''VEX_VPXOR_XMM_XMM_XMMM128'' VexDstSrcRm False False,
    vex_row ''VEX_VSHUFPD_XMM_XMM_XMMM128_IMM8'' VexDstSrcRmImm False False,
    vex_row ''VEX_VSHUFPS_XMM_XMM_XMMM128_IMM8'' VexDstSrcRmImm False False,
    vex_row ''VEX_VSQRTSD_XMM_XMM_XMMM64'' VexDstSrcRm64 False False,
    vex_row ''VEX_VSQRTSS_XMM_XMM_XMMM32'' VexDstSrcRm32 False False,
    vex_row ''VEX_VSUBPD_XMM_XMM_XMMM128'' VexDstSrcRm False False,
    vex_row ''VEX_VSUBPS_XMM_XMM_XMMM128'' VexDstSrcRm False False,
    vex_row ''VEX_VSUBSD_XMM_XMM_XMMM64'' VexDstSrcRm64 False False,
    vex_row ''VEX_VSUBSS_XMM_XMM_XMMM32'' VexDstSrcRm32 False False,
    vex_row ''VEX_VUNPCKHPD_XMM_XMM_XMMM128'' VexDstSrcRm False False,
    vex_row ''VEX_VUNPCKHPS_XMM_XMM_XMMM128'' VexDstSrcRm False False,
    vex_row ''VEX_VUNPCKLPD_XMM_XMM_XMMM128'' VexDstSrcRm False False,
    vex_row ''VEX_VUNPCKLPS_XMM_XMM_XMMM128'' VexDstSrcRm False False,
    vex_row ''VEX_VXORPD_XMM_XMM_XMMM128'' VexDstSrcRm False False,
    vex_row ''VEX_VXORPS_XMM_XMM_XMMM128'' VexDstSrcRm False False]"

definition kVexSimd :: "vex_entry list" where
  "kVexSimd = kVexSimd_evex @ kVexSimd_vex"

lemma kVexSimd_nonempty: "kVexSimd \<noteq> []"
  by (simp add: kVexSimd_def kVexSimd_evex_def)

definition evex_usable :: "host_caps \<Rightarrow> bool" where
  "evex_usable caps \<longleftrightarrow> avx512f caps \<and> avx512vl caps \<and> avx512bw caps \<and> avx512dq caps"

text \<open>The retry loop: at most \<open>n\<close> more picks, the first usable one wins.\<close>

fun pick_vex :: "bool \<Rightarrow> nat \<Rightarrow> vex_entry option draw" where
  "pick_vex evex_ok 0 = State_Monad.return None"
| "pick_vex evex_ok (Suc n) = do {
     candidate \<leftarrow> pick kVexSimd;
     if vex_evex candidate \<and> \<not> evex_ok then pick_vex evex_ok n
     else State_Monad.return (Some candidate)
   }"

definition finish :: "bool \<Rightarrow> instruction \<Rightarrow> instruction" where
  "finish broadcast i = (if broadcast then add_setters [SetBroadcast True] i else i)"

definition emit_vex :: "vex_entry \<Rightarrow> instruction option draw" where
  "emit_vex entry = do {
     let code = vex_code entry;
     d \<leftarrow> pick_xmm_index;
     s1 \<leftarrow> pick_xmm_index;
     s2 \<leftarrow> pick_xmm_index;
     m \<leftarrow> rand_int 0 3;
     let use_mem = (m = 0);
     broadcast \<leftarrow> (if use_mem \<and> vex_broadcast entry
                 then do { q \<leftarrow> rand_int 0 2; State_Monad.return (q = 0) }
                 else State_Monad.return False);
     (case vex_shape_of entry of
        VexDstSrcSrc \<Rightarrow> ret (iwith code [XR d, XR s1, XR s2])
      | VexDstSrcImm \<Rightarrow> do {
          v \<leftarrow> random_imm 8;
          let imm = to_i32 v;
          ret (set_imm8 (iwith code [XR d, XR s1, AI imm]) 2 (imm_u64 imm))
        }
      | VexDstSrcRmImm \<Rightarrow> do {
          v \<leftarrow> random_imm 8;
          let imm = to_i32 v;
          if use_mem then do {
            touch_memory;
            disp \<leftarrow> random_disp8;
            ret (finish broadcast
              (set_imm8 (iwith code [XR d, XR s1, mem_operand disp, AI imm]) 3 (imm_u64 imm)))
          } else ret (set_imm8 (iwith code [XR d, XR s1, XR s2, AI imm]) 3 (imm_u64 imm))
        }
      | VexDstRmImm \<Rightarrow> do {
          v \<leftarrow> random_imm 8;
          let imm = to_i32 v;
          if use_mem then do {
            touch_memory;
            disp \<leftarrow> random_disp8;
            ret (set_imm8 (iwith code [XR d, mem_operand disp, AI imm]) 2 (imm_u64 imm))
          } else ret (set_imm8 (iwith code [XR d, XR s1, AI imm]) 2 (imm_u64 imm))
        }
      | VexRmDst \<Rightarrow>
          if use_mem then do {
            touch_memory;
            disp \<leftarrow> random_disp8;
            ret (iwith code [mem_operand disp, XR s1])
          } else ret (iwith code [XR d, XR s1])
      | shape \<Rightarrow>
          if shape = VexDstRm \<or> shape = VexDstRm64 then
            (if use_mem then do {
               touch_memory;
               disp \<leftarrow> random_disp8;
               ret (finish broadcast (iwith code [XR d, mem_operand disp]))
             } else ret (iwith code [XR d, XR s1]))
          else
            (if use_mem then do {
               touch_memory;
               disp \<leftarrow> random_disp8;
               ret (finish broadcast (iwith code [XR d, XR s1, mem_operand disp]))
             } else ret (iwith code [XR d, XR s1, XR s2])))
   }"

definition gen_vex_simd :: "host_caps \<Rightarrow> instruction option draw" where
  "gen_vex_simd caps =
     (if \<not> avx caps \<or> \<not> avx2 caps then ret_none
      else do {
        set_flags_mask 0;
        entry \<leftarrow> pick_vex (evex_usable caps) 8;
        (case entry of None \<Rightarrow> ret_none | Some e \<Rightarrow> emit_vex e)
      })"

definition kUnstampedVex :: "code list" where
  "kUnstampedVex = [''EVEX_VSHUFPD_XMM_K1Z_XMM_XMMM128B64_IMM8'', ''EVEX_VSHUFPS_XMM_K1Z_XMM_XMMM128B32_IMM8'',
                    ''VEX_VSHUFPD_XMM_XMM_XMMM128_IMM8'', ''VEX_VSHUFPS_XMM_XMM_XMMM128_IMM8'']"

lemma kVexSimd_unstamped:
  "list_all (\<lambda>e. (vex_code e \<in> set kUnstampedVex) = (vex_shape_of e = VexDstSrcRmImm)) kVexSimd"
  by (simp add: kVexSimd_def kVexSimd_evex_def kVexSimd_vex_def vex_row_def kUnstampedVex_def)

lemma kVexSimd_evex_flag:
  "list_all (\<lambda>e. if vex_evex e then take 5 (vex_code e) = ''EVEX_'' else take 4 (vex_code e) = ''VEX_'') kVexSimd"
  by (simp add: kVexSimd_def kVexSimd_evex_def kVexSimd_vex_def vex_row_def)

lemma wp_pick_vex:
  assumes "\<And>e g. e \<in> set kVexSimd \<Longrightarrow> (vex_evex e \<Longrightarrow> ok) \<Longrightarrow> Q (Some e) (c\<lparr>rng := g\<rparr>)"
    "\<And>g. Q None (c\<lparr>rng := g\<rparr>)"
  shows "wp (pick_vex ok n) Q c"
  using assms
proof (induction n arbitrary: c)
  case 0
  then show ?case using 0(2) [of "rng c"] by (simp add: wp_simps)
next
  case (Suc n)
  have "wp (pick_vex ok n) Q (c\<lparr>rng := g\<rparr>)" for g
    by (rule Suc.IH) (simp_all add: Suc.prems)
  moreover have "Q (Some x) (c\<lparr>rng := g\<rparr>)" if "x \<in> set kVexSimd" "\<not> (vex_evex x \<and> \<not> ok)" for x g
    by (rule Suc.prems(1)) (use that in auto)
  ultimately show ?case
    by (simp add: wp_simps del: de_Morgan_conj) (intro wp_pick kVexSimd_nonempty wp_if, simp_all add: wp_simps)
qed

lemma finish_simps [gen_simps]:
  "instr_ok (finish b i) c = instr_ok i c" "code_of (finish b i) = code_of i"
  by (simp_all add: finish_def gen_simps)

lemma imm_stamped_broadcast [gen_simps]: "imm_stamped (finish b i) = imm_stamped i"
  by (simp add: finish_def imm_stamped_def add_setters_def kinds_at_def value_kinds_def split: build.splits)

text \<open>The rows with an immediate byte name it as a byte, and none is widened.\<close>

lemma kVexSimd_kinds:
  "list_all (\<lambda>e. vex_shape_of e = VexDstSrcImm \<or> vex_shape_of e = VexDstRmImm \<longrightarrow> imm_kind (vex_code e) = IMMEDIATE8) kVexSimd"
  by code_simp

lemma emit_vex_ok:
  assumes "e \<in> set kVexSimd"
  shows "wp (emit_vex e) (fam_post_except kUnstampedVex) ((fresh_ctx g)\<lparr>c_flags_mask := 0, rng := g'\<rparr>)"
proof -
  have k: "(vex_code e \<in> set kUnstampedVex) = (vex_shape_of e = VexDstSrcRmImm)"
    using kVexSimd_unstamped assms by (simp add: list_all_iff)
  have i: "vex_shape_of e = VexDstSrcImm \<or> vex_shape_of e = VexDstRmImm \<Longrightarrow> imm_kind (vex_code e) = IMMEDIATE8"
    using kVexSimd_kinds assms unfolding list_all_iff by blast
  show ?thesis
    by (cases "vex_shape_of e")
      (auto simp: emit_vex_def wp_simps gen_simps ctx_ok_unfold Let_def k i intro!: wp_rules)
qed

lemma gen_vex_simd_ok: "wp (gen_vex_simd caps) (fam_post_except kUnstampedVex) (fresh_ctx g)"
proof (cases "avx caps \<and> avx2 caps")
  case True
  then show ?thesis
    using emit_vex_ok
    by (auto simp: gen_vex_simd_def wp_simps gen_simps fresh_ctx_def intro!: wp_pick_vex)
next
  case False
  then show ?thesis by (auto simp: gen_vex_simd_def wp_simps gen_simps)
qed

end
