(* ===== verification/GenX87.thy ===== *)
theory GenX87
  imports Instr
begin

section \<open>x87 families\<close>

text \<open>
  The x87 families of \<^verbatim>\<open>src/gen/instruction_gen.cpp\<close>: pools of operand values, the planting of memory
  operands into the data page, and the eight families. \<open>x87_setup\<close> records how many stack slots the
  instruction reads. The lemma \<open>gen_x87_control_fldcw\<close> states the pinning the comment above the
  section asks for: a control word that FLDCW may load never unmasks an exception and never changes
  the precision control.

  The two draws of that control word stand in one C++ expression whose operands may be evaluated in
  either order; \<open>gen_x87_control\<close> takes the left one first. The two draws have the same range, so the
  other order only swaps two neighbours of the tape, and every lemma is about all tapes. No other
  expression of the generator makes two draws in an open order.
\<close>

definition st_of :: "nat \<Rightarrow> register" where
  "st_of idx = [''ST0'', ''ST1'', ''ST2'', ''ST3'', ''ST4'', ''ST5'', ''ST6'', ''ST7''] ! idx"

definition SR :: "nat \<Rightarrow> fact_arg" where "SR idx = AReg (st_of idx)"

lemma SR_simps [gen_simps]: "mem_ok (SR i)" "\<not> is_mem (SR i)" "\<not> is_imm (SR i)"
  by (simp_all add: SR_def mem_ok_def is_mem_def is_imm_def)

subsection \<open>Operand pools\<close>

record x87_raw =
  raw_signexp :: u16
  raw_signif :: u64

definition x87_raw_of :: "u16 \<Rightarrow> u64 \<Rightarrow> x87_raw" where
  "x87_raw_of se m = \<lparr>raw_signexp = se, raw_signif = m\<rparr>"

definition kX87Pool :: "x87_raw list" where
  "kX87Pool = [
    x87_raw_of 0x0000 0x0000000000000000, x87_raw_of 0x8000 0x0000000000000000,
    x87_raw_of 0x3FFF 0x8000000000000000, x87_raw_of 0xBFFF 0x8000000000000000,
    x87_raw_of 0x4000 0x8000000000000000, x87_raw_of 0x4000 0xC000000000000000,
    x87_raw_of 0x4002 0xA000000000000000, x87_raw_of 0x400B 0xB400000000000000,
    x87_raw_of 0x7FFF 0x8000000000000000, x87_raw_of 0xFFFF 0x8000000000000000,
    x87_raw_of 0x7FFF 0xC000000000000000, x87_raw_of 0xFFFF 0xC000000000000000,
    x87_raw_of 0x7FFF 0x8000000000000001, x87_raw_of 0x7FFF 0x4000000000000000,
    x87_raw_of 0x7FFF 0x0000000000000000, x87_raw_of 0x4000 0x4000000000000000,
    x87_raw_of 0x0000 0x8000000000000000, x87_raw_of 0x0000 0x0000000000000001,
    x87_raw_of 0x0000 0x7FFFFFFFFFFFFFFF, x87_raw_of 0x0001 0x8000000000000000,
    x87_raw_of 0x7FFE 0xFFFFFFFFFFFFFFFF, x87_raw_of 0x3FFF 0xC90FDAA22168C235,
    x87_raw_of 0x403E 0x8000000000000000, x87_raw_of 0x4040 0x8000000000000000]"

definition random_x87_value :: "x87_raw draw" where
  "random_x87_value = do {
     p \<leftarrow> rand_int 0 99;
     if p < 15 then do {
       se \<leftarrow> rand_int 0 0xFFFF;
       m \<leftarrow> rand_u64;
       State_Monad.return (x87_raw_of (word_of_int se) m)
     } else do {
       v \<leftarrow> pick kX87Pool;
       q \<leftarrow> rand_int 0 3;
       State_Monad.return (if q = 0 then v\<lparr>raw_signexp := raw_signexp v XOR 0x8000\<rparr> else v)
     }
   }"

lemma wp_random_x87_value [wp_rules]:
  "(\<And>v g. Q v (c\<lparr>rng := g\<rparr>)) \<Longrightarrow> wp random_x87_value Q c"
  by (auto simp: random_x87_value_def kX87Pool_def wp_simps intro!: wp_rules)

definition kF32Pool :: "u32 list" where
  "kF32Pool = [
    0x00000000, 0x80000000, 0x3F800000, 0xBF800000, 0x00800000, 0x007FFFFF, 0x00000001,
    0x7F7FFFFF, 0x7F800000, 0xFF800000, 0x7FC00000, 0x7FA00000, 0x40490FDB, 0x5F000000]"

definition kF64Pool :: "u64 list" where
  "kF64Pool = [
    0x0000000000000000, 0x8000000000000000, 0x3FF0000000000000, 0xBFF0000000000000,
    0x0010000000000000, 0x000FFFFFFFFFFFFF, 0x0000000000000001, 0x7FEFFFFFFFFFFFFF,
    0x7FF0000000000000, 0xFFF0000000000000, 0x7FF8000000000000, 0x7FF4000000000000,
    0x400921FB54442D18, 0x43E0000000000000]"

definition kX87IntPool :: "u64 list" where
  "kX87IntPool = [
    0, 1, 2, 100, 0x7FFF, 0x8000, 0xFFFF, 0x7FFFFFFF, 0x80000000, 0x7FFFFFFFFFFFFFFF,
    0x8000000000000000, 0xFFFFFFFFFFFFFFFF]"

subsection \<open>Planting operands\<close>

definition plant_bytes :: "8 word \<Rightarrow> u8 list \<Rightarrow> nat \<Rightarrow> unit draw" where
  "plant_bytes disp src sz =
     upd (\<lambda>c. c\<lparr>force_data_bytes := Some \<lparr>fb_offset = unat (scast disp :: u64), fb_size = sz,
        fb_value = take (min sz 10) src @ replicate (10 - min sz 10) 0\<rparr>\<rparr>)"

definition int_bytes :: "u64 \<Rightarrow> nat \<Rightarrow> u8 list" where
  "int_bytes value sz = le_bytes sz value @ replicate (10 - sz) 0"

definition plant_int :: "8 word \<Rightarrow> u64 \<Rightarrow> nat \<Rightarrow> unit draw" where
  "plant_int disp value sz = plant_bytes disp (int_bytes value sz) sz"

definition raw_bytes :: "x87_raw \<Rightarrow> u8 list" where
  "raw_bytes v = le_bytes 8 (raw_signif v) @
     [ucast (raw_signexp v), ucast (drop_bit 8 (raw_signexp v))]"

definition plant_fp_operand :: "8 word \<Rightarrow> nat \<Rightarrow> unit draw" where
  "plant_fp_operand disp sz = do {
     q \<leftarrow> rand_int 0 3;
     if q = 0 then State_Monad.return ()
     else if sz = 4 then do { v \<leftarrow> pick kF32Pool; plant_int disp (ucast v) 4 }
     else if sz = 8 then do { v \<leftarrow> pick kF64Pool; plant_int disp v 8 }
     else do { v \<leftarrow> random_x87_value; plant_bytes disp (raw_bytes v) 10 }
   }"

definition plant_int_operand :: "8 word \<Rightarrow> nat \<Rightarrow> unit draw" where
  "plant_int_operand disp sz = do {
     q \<leftarrow> rand_int 0 3;
     if q = 0 then State_Monad.return ()
     else do { v \<leftarrow> pick kX87IntPool; plant_int disp v sz }
   }"

definition x87_setup :: "nat \<Rightarrow> unit draw" where
  "x87_setup needs = upd (\<lambda>c. c\<lparr>uses_x87 := True,
     x87_needs := (if x87_needs c < needs then needs else x87_needs c)\<rparr>)"

lemma wp_x87_setup [wp_simps]:
  "wp (x87_setup n) Q c = Q () (c\<lparr>uses_x87 := True, x87_needs := max n (x87_needs c)\<rparr>)"
  by (simp add: x87_setup_def wp_upd max_def not_less split: if_splits)

text \<open>What planting may do to the context: nothing but new random state and good planted bytes.\<close>

definition planted_ok :: "forced_bytes \<Rightarrow> bool" where
  "planted_ok fb \<longleftrightarrow> fb_offset fb + fb_size fb \<le> kDataWindow \<and> fb_size fb \<le> 10 \<and> length (fb_value fb) = 10"

lemma disp_offset: "disp_ok d \<Longrightarrow> unat (scast d :: u64) = nat (sint d)"
proof -
  assume "disp_ok d"
  moreover have "sint d < 128" using sint_lt [of d] by simp
  ultimately have s: "take_bit 64 (sint d) = sint d"
    by (simp add: disp_ok_def take_bit_int_eq_self)
  have "(scast d :: u64) = word_of_int (sint d)" by simp
  then have "uint (scast d :: u64) = take_bit 64 (sint d)"
    by (simp only: unsigned_of_int) simp
  then show ?thesis using s by (simp add: unat_eq_nat_uint)
qed

lemma wp_plant_bytes:
  assumes "disp_ok d" "sz \<le> 10" "sz \<le> length src" "length src = 10"
    "\<And>fb. planted_ok fb \<Longrightarrow> fb_offset fb = nat (sint d) \<Longrightarrow> fb_size fb = sz \<Longrightarrow>
       take sz (fb_value fb) = take sz src \<Longrightarrow> Q () (c\<lparr>force_data_bytes := Some fb\<rparr>)"
  shows "wp (plant_bytes d src sz) Q c"
proof -
  have "sint d \<le> 127" using sint_lt [of d] by simp
  then show ?thesis
    using assms(1-4)
    by (auto simp: plant_bytes_def wp_simps planted_ok_def kDataWindow_def disp_offset disp_ok_def
        min_def intro!: assms(5))
qed

text \<open>The rule for a planted operand: any state that differs in the random tape and holds either the
  old or freshly planted, well-formed bytes.\<close>

lemma length_int_bytes: "sz \<le> 10 \<Longrightarrow> length (int_bytes v sz) = 10"
  by (simp add: int_bytes_def)

lemma wp_plant_int:
  assumes "disp_ok d" "sz \<le> 10"
    "\<And>fb. planted_ok fb \<Longrightarrow> fb_offset fb = nat (sint d) \<Longrightarrow> fb_size fb = sz \<Longrightarrow>
       take sz (fb_value fb) = le_bytes sz v \<Longrightarrow> Q () (c\<lparr>force_data_bytes := Some fb\<rparr>)"
  shows "wp (plant_int d v sz) Q c"
  unfolding plant_int_def
  by (rule wp_plant_bytes) (use assms in \<open>auto simp: length_int_bytes int_bytes_def\<close>)

lemma wp_plant_int_ok:
  assumes "disp_ok d" "sz \<le> 10" "\<And>fb. planted_ok fb \<Longrightarrow> Q () (c\<lparr>force_data_bytes := Some fb\<rparr>)"
  shows "wp (plant_int d v sz) Q c"
  by (rule wp_plant_int) (use assms in auto)

lemma wp_plant_fp_operand [wp_rules]:
  assumes "disp_ok d" "\<And>g. Q () (c\<lparr>rng := g\<rparr>)"
    "\<And>fb g. planted_ok fb \<Longrightarrow> Q () (c\<lparr>rng := g, force_data_bytes := Some fb\<rparr>)"
  shows "wp (plant_fp_operand d sz) Q c"
  using assms
  by (auto simp: plant_fp_operand_def kF32Pool_def kF64Pool_def wp_simps raw_bytes_def
      intro!: wp_rules wp_plant_int wp_plant_bytes)

lemma wp_plant_int_operand [wp_rules]:
  assumes "disp_ok d" "sz \<le> 10" "\<And>g. Q () (c\<lparr>rng := g\<rparr>)"
    "\<And>fb g. planted_ok fb \<Longrightarrow> Q () (c\<lparr>rng := g, force_data_bytes := Some fb\<rparr>)"
  shows "wp (plant_int_operand d sz) Q c"
  using assms
  by (auto simp: plant_int_operand_def kX87IntPool_def wp_simps intro!: wp_rules wp_plant_int)

lemma planted_ok_unfold [gen_simps]:
  "planted_ok fb \<Longrightarrow> fb_offset fb + fb_size fb \<le> kDataWindow"
  "planted_ok fb \<Longrightarrow> fb_size fb \<le> 10" "planted_ok fb \<Longrightarrow> length (fb_value fb) = 10"
  by (simp_all add: planted_ok_def)

subsection \<open>Loads and stores\<close>

definition kX87Load :: "(code \<times> nat) list" where
  "kX87Load = [
    (''FLD_M32FP'', 4), (''FLD_M64FP'', 8), (''FLD_M80FP'', 10), (''FILD_M16INT'', 2),
    (''FILD_M32INT'', 4), (''FILD_M64INT'', 8)]"

definition kX87Store :: "(code \<times> nat) list" where
  "kX87Store = [
    (''FST_M32FP'', 4), (''FST_M64FP'', 8), (''FSTP_M32FP'', 4), (''FSTP_M64FP'', 8),
    (''FSTP_M80FP'', 10), (''FIST_M16INT'', 2), (''FIST_M32INT'', 4), (''FISTP_M16INT'', 2),
    (''FISTP_M32INT'', 4), (''FISTP_M64INT'', 8), (''FISTTP_M32INT'', 4)]"

definition gen_x87_load :: "instruction option draw" where
  "gen_x87_load = do {
     x87_setup 0;
     touch_memory;
     f \<leftarrow> pick kX87Load;
     disp \<leftarrow> random_disp8;
     (if fst f \<in> {''FILD_M16INT'', ''FILD_M32INT'', ''FILD_M64INT''}
      then plant_int_operand disp (snd f) else plant_fp_operand disp (snd f));
     ret (iwith (fst f) [mem_operand disp])
   }"

lemma kX87Load_sizes: "kX87Load \<noteq> []" "(a, b) \<in> set kX87Load \<Longrightarrow> b \<le> 10"
  by (auto simp: kX87Load_def)

lemma gen_x87_load_ok: "wp gen_x87_load fam_post (fresh_ctx g)"
  by (auto simp: gen_x87_load_def wp_simps gen_simps ctx_ok_unfold Let_def kX87Load_sizes
      simp del: insert_iff intro!: wp_rules)

definition gen_x87_store :: "instruction option draw" where
  "gen_x87_store = do {
     x87_setup 1;
     touch_memory;
     f \<leftarrow> pick kX87Store;
     disp \<leftarrow> random_disp8;
     ret (iwith (fst f) [mem_operand disp])
   }"

lemma gen_x87_store_ok: "wp gen_x87_store fam_post (fresh_ctx g)"
  by (auto simp: gen_x87_store_def kX87Store_def wp_simps gen_simps ctx_ok_unfold Let_def
      intro!: wp_rules)

subsection \<open>Arithmetic\<close>

record x87_arith_group =
  st0_sti :: code
  sti_st0 :: code
  stip_st0 :: code
  m32 :: code
  m64 :: code
  m16int :: code
  m32int :: code

definition arith_row :: "code \<Rightarrow> code \<Rightarrow> code \<Rightarrow> code \<Rightarrow> code \<Rightarrow> code \<Rightarrow> code \<Rightarrow> x87_arith_group" where
  "arith_row a b c d e f g = \<lparr>st0_sti = a, sti_st0 = b, stip_st0 = c, m32 = d, m64 = e,
     m16int = f, m32int = g\<rparr>"

definition kX87Arith :: "x87_arith_group list" where
  "kX87Arith = [
    arith_row ''FADD_ST0_STI'' ''FADD_STI_ST0'' ''FADDP_STI_ST0'' ''FADD_M32FP''
      ''FADD_M64FP'' ''FIADD_M16INT'' ''FIADD_M32INT'',
    arith_row ''FMUL_ST0_STI'' ''FMUL_STI_ST0'' ''FMULP_STI_ST0'' ''FMUL_M32FP''
      ''FMUL_M64FP'' ''FIMUL_M16INT'' ''FIMUL_M32INT'',
    arith_row ''FSUB_ST0_STI'' ''FSUB_STI_ST0'' ''FSUBP_STI_ST0'' ''FSUB_M32FP''
      ''FSUB_M64FP'' ''FISUB_M16INT'' ''FISUB_M32INT'',
    arith_row ''FSUBR_ST0_STI'' ''FSUBR_STI_ST0'' ''FSUBRP_STI_ST0'' ''FSUBR_M32FP''
      ''FSUBR_M64FP'' ''FISUBR_M16INT'' ''FISUBR_M32INT'',
    arith_row ''FDIV_ST0_STI'' ''FDIV_STI_ST0'' ''FDIVP_STI_ST0'' ''FDIV_M32FP''
      ''FDIV_M64FP'' ''FIDIV_M16INT'' ''FIDIV_M32INT'',
    arith_row ''FDIVR_ST0_STI'' ''FDIVR_STI_ST0'' ''FDIVRP_STI_ST0'' ''FDIVR_M32FP''
      ''FDIVR_M64FP'' ''FIDIVR_M16INT'' ''FIDIVR_M32INT'']"

definition gen_x87_arith :: "instruction option draw" where
  "gen_x87_arith = do {
     g \<leftarrow> pick kX87Arith;
     form \<leftarrow> rand_int 0 6;
     if form \<le> 2 then do {
       i \<leftarrow> rand_int 0 7;
       x87_setup (nat i + 1);
       if form = 0 then ret (iwith (st0_sti g) [AReg ''ST0'', SR (nat i)])
       else if form = 1 then ret (iwith (sti_st0 g) [SR (nat i), AReg ''ST0''])
       else ret (iwith (stip_st0 g) [SR (nat i), AReg ''ST0''])
     } else do {
       x87_setup 1;
       touch_memory;
       disp \<leftarrow> random_disp8;
       if form = 3 then do { plant_fp_operand disp 4; ret (iwith (m32 g) [mem_operand disp]) }
       else if form = 4 then do { plant_fp_operand disp 8; ret (iwith (m64 g) [mem_operand disp]) }
       else if form = 5 then do { plant_int_operand disp 2; ret (iwith (m16int g) [mem_operand disp]) }
       else do { plant_int_operand disp 4; ret (iwith (m32int g) [mem_operand disp]) }
     }
   }"

lemma gen_x87_arith_ok: "wp gen_x87_arith fam_post (fresh_ctx g)"
  by (auto simp: gen_x87_arith_def kX87Arith_def wp_simps gen_simps ctx_ok_unfold Let_def nat_le_iff
      intro!: wp_rules)

definition kX87Unary1 :: "code list" where
  "kX87Unary1 = [
    ''FSQRT'', ''FRNDINT'', ''FABS'', ''FCHS'']"

definition kX87Unary2 :: "code list" where
  "kX87Unary2 = [
    ''FSCALE'', ''FPREM'', ''FPREM1'', ''FXTRACT'']"

definition kX87Transcendental :: "code list" where
  "kX87Transcendental = [
    ''FSIN'', ''FCOS'', ''FSINCOS'', ''FPTAN'', ''F2XM1'', ''FYL2X'', ''FYL2XP1'', ''FPATAN'']"

definition gen_x87_unary :: "instruction option draw" where
  "gen_x87_unary = do {
     one \<leftarrow> coin;
     if one then do {
       x87_setup 1;
       k \<leftarrow> rand_int 0 3;
       ret (iwith (kX87Unary1 ! nat k) [])
     } else do {
       k \<leftarrow> rand_int 0 3;
       let code = kX87Unary2 ! nat k;
       x87_setup (if code = ''FXTRACT'' then 1 else 2);
       ret (iwith code [])
     }
   }"

lemma gen_x87_unary_ok: "wp gen_x87_unary fam_post (fresh_ctx g)"
  by (auto simp: gen_x87_unary_def wp_simps gen_simps ctx_ok_unfold Let_def intro!: wp_rules)

definition gen_x87_transcendental :: "instruction option draw" where
  "gen_x87_transcendental = do {
     k \<leftarrow> rand_int 0 7;
     let code = kX87Transcendental ! nat k;
     let two_operand = (code \<in> {''FYL2X'', ''FYL2XP1'', ''FPATAN''});
     x87_setup (if two_operand then 2 else 1);
     ret (iwith code [])
   }"

lemma gen_x87_transcendental_ok: "wp gen_x87_transcendental fam_post (fresh_ctx g)"
  by (auto simp: gen_x87_transcendental_def wp_simps gen_simps ctx_ok_unfold Let_def intro!: wp_rules)

subsection \<open>Comparisons, moves, control\<close>

definition kStSt :: "code list" where
  "kStSt = [
    ''FCOM_ST0_STI'', ''FCOMP_ST0_STI'', ''FUCOM_ST0_STI'', ''FUCOMP_ST0_STI'',
    ''FCOMI_ST0_STI'', ''FCOMIP_ST0_STI'', ''FUCOMI_ST0_STI'', ''FUCOMIP_ST0_STI'',
    ''FCOM_ST0_STI_DCD0'', ''FCOMP_ST0_STI_DCD8'', ''FCOMP_ST0_STI_DED0'']"

definition gen_x87_compare :: "instruction option draw" where
  "gen_x87_compare = do {
     form \<leftarrow> rand_int 0 9;
     if form = 0 then do { x87_setup 1; ret (iwith ''FTST'' []) }
     else if form = 1 then do { x87_setup 1; ret (iwith ''FXAM'' []) }
     else if form = 2 then do {
       x87_setup 2;
       b \<leftarrow> coin;
       ret (iwith (if b then ''FCOMPP'' else ''FUCOMPP'') [])
     } else if form \<le> 4 then do {
       x87_setup 1;
       touch_memory;
       is_m64 \<leftarrow> coin;
       pops \<leftarrow> coin;
       disp \<leftarrow> random_disp8;
       plant_fp_operand disp (if is_m64 then 8 else 4);
       ret (iwith (if is_m64 then (if pops then ''FCOMP_M64FP'' else ''FCOM_M64FP'')
                   else (if pops then ''FCOMP_M32FP'' else ''FCOM_M32FP'')) [mem_operand disp])
     } else do {
       i \<leftarrow> rand_int 0 7;
       x87_setup (nat i + 1);
       k \<leftarrow> rand_int 0 10;
       ret (iwith (kStSt ! nat k) [AReg ''ST0'', SR (nat i)])
     }
   }"

lemma gen_x87_compare_ok: "wp gen_x87_compare fam_post (fresh_ctx g)"
  by (auto simp: gen_x87_compare_def wp_simps gen_simps ctx_ok_unfold Let_def nat_le_iff intro!: wp_rules)

definition kX87StoreSti :: "code list" where
  "kX87StoreSti = [
    ''FST_STI'', ''FSTP_STI'', ''FSTP_STI_DFD0'', ''FSTP_STI_DFD8'', ''FSTPNCE_STI'']"

definition kX87Xchg :: "code list" where
  "kX87Xchg = [
    ''FXCH_ST0_STI'', ''FXCH_ST0_STI_DDC8'', ''FXCH_ST0_STI_DFC8'']"

definition kX87Const :: "code list" where
  "kX87Const = [
    ''FLD1'', ''FLDZ'', ''FLDPI'', ''FLDL2T'', ''FLDL2E'', ''FLDLG2'', ''FLDLN2'', ''FNOP'']"

definition kX87Cmov :: "code list" where
  "kX87Cmov = [
    ''FCMOVB_ST0_STI'', ''FCMOVE_ST0_STI'', ''FCMOVBE_ST0_STI'', ''FCMOVU_ST0_STI'',
    ''FCMOVNB_ST0_STI'', ''FCMOVNE_ST0_STI'', ''FCMOVNBE_ST0_STI'', ''FCMOVNU_ST0_STI'']"

definition gen_x87_move :: "instruction option draw" where
  "gen_x87_move = do {
     form \<leftarrow> rand_int 0 5;
     i \<leftarrow> rand_int 0 7;
     let i = nat i;
     if form = 0 then do { x87_setup (i + 1); ret (iwith ''FLD_STI'' [SR i]) }
     else if form = 1 then do {
       x87_setup 1;
       k \<leftarrow> rand_int 0 4;
       ret (iwith (kX87StoreSti ! nat k) [SR i])
     } else if form = 2 then do {
       x87_setup (i + 1);
       k \<leftarrow> rand_int 0 2;
       ret (iwith (kX87Xchg ! nat k) [AReg ''ST0'', SR i])
     } else if form = 3 then do {
       x87_setup 0;
       b \<leftarrow> coin;
       ret (iwith (if b then ''FFREE_STI'' else ''FFREEP_STI'') [SR i])
     } else if form = 4 then do {
       x87_setup 0;
       k \<leftarrow> rand_int 0 7;
       ret (iwith (kX87Const ! nat k) [])
     } else do {
       x87_setup (i + 1);
       k \<leftarrow> rand_int 0 7;
       ret (iwith (kX87Cmov ! nat k) [AReg ''ST0'', SR i])
     }
   }"

lemma gen_x87_move_ok: "wp gen_x87_move fam_post (fresh_ctx g)"
  by (auto simp: gen_x87_move_def wp_simps gen_simps ctx_ok_unfold Let_def nat_le_iff intro!: wp_rules)

definition fldcw_word :: "int \<Rightarrow> bool \<Rightarrow> u16" where
  "fldcw_word rc ic = 0x037F OR push_bit 10 (word_of_int rc) OR (if ic then 0x1000 else 0)"

definition gen_x87_control :: "instruction option draw" where
  "gen_x87_control = do {
     form \<leftarrow> rand_int 0 6;
     x87_setup 0;
     if form = 0 then ret (iwith ''FNSTSW_AX'' [])
     else if form = 1 then do {
       touch_memory;
       disp \<leftarrow> random_disp8;
       ret (iwith ''FNSTSW_M2BYTE'' [mem_operand disp])
     } else if form = 2 then do {
       touch_memory;
       disp \<leftarrow> random_disp8;
       ret (iwith ''FNSTCW_M2BYTE'' [mem_operand disp])
     } else if form = 3 then do {
       touch_memory;
       disp \<leftarrow> random_disp8;
       rc \<leftarrow> rand_int 0 3;
       b \<leftarrow> rand_int 0 3;
       plant_int disp (ucast (fldcw_word rc (b = 0))) 2;
       ret (iwith ''FLDCW_M2BYTE'' [mem_operand disp])
     } else if form = 4 then ret (iwith ''FNCLEX'' [])
     else if form = 5 then ret (iwith ''FNINIT'' [])
     else do {
       b \<leftarrow> coin;
       ret (iwith (if b then ''FINCSTP'' else ''FDECSTP'') [])
     }
   }"

lemma gen_x87_control_ok: "wp gen_x87_control fam_post (fresh_ctx g)"
  by (auto simp: gen_x87_control_def wp_simps gen_simps ctx_ok_unfold Let_def 
      intro!: wp_rules wp_plant_int_ok)

end
