(* ===== verification/Format.thy ===== *)
theory Format
  imports Prelude
begin

section \<open>The printf conversions the program uses\<close>

text \<open>
  \<^verbatim>\<open>%X\<close>, \<^verbatim>\<open>%u\<close> and \<^verbatim>\<open>%d\<close> of non-negative values, with the zero-padded and left-justified
  widths that occur in the sources, and \<^verbatim>\<open>snprintf\<close>'s truncation to the buffer. Every line of a
  finding is built from these. The lemmas show that the conversions are injective (a printed value
  can be read back) and how long their results are (so that no buffer truncates).
\<close>

named_theorems fmt \<open>lengths of formatted strings\<close>

definition hex_digit :: "nat \<Rightarrow> char" where
  "hex_digit d = (''0123456789ABCDEF'' ! d)"

fun nat_digits :: "nat \<Rightarrow> nat \<Rightarrow> nat list" where
  "nat_digits b n = (if b \<le> 1 \<or> n < b then [n] else nat_digits b (n div b) @ [n mod b])"

declare nat_digits.simps [simp del]

definition of_digits :: "nat \<Rightarrow> nat list \<Rightarrow> nat" where
  "of_digits b ds = foldl (\<lambda>acc d. b * acc + d) 0 ds"

definition show_nat :: "nat \<Rightarrow> nat \<Rightarrow> string" where
  "show_nat b n = map hex_digit (nat_digits b n)"

definition pad_left :: "char \<Rightarrow> nat \<Rightarrow> string \<Rightarrow> string" where
  "pad_left c w s = replicate (w - length s) c @ s"

definition pad_right :: "char \<Rightarrow> nat \<Rightarrow> string \<Rightarrow> string" where
  "pad_right c w s = s @ replicate (w - length s) c"

text \<open>\<^verbatim>\<open>%0wX\<close> of an unsigned word, \<^verbatim>\<open>%0wd\<close> and \<^verbatim>\<open>%u\<close> of a natural number.\<close>

definition fmt_X :: "nat \<Rightarrow> 'a::len word \<Rightarrow> string" where
  "fmt_X w v = pad_left CHR ''0'' w (show_nat 16 (unat v))"

definition fmt_0d :: "nat \<Rightarrow> nat \<Rightarrow> string" where
  "fmt_0d w n = pad_left CHR ''0'' w (show_nat 10 n)"

definition fmt_u :: "nat \<Rightarrow> string" where
  "fmt_u n = show_nat 10 n"

text \<open>\<^verbatim>\<open>%d\<close> and \<^verbatim>\<open>%0wd\<close> of an \<^verbatim>\<open>int\<close>: the sign counts towards the width.\<close>

definition fmt_d :: "int \<Rightarrow> string" where
  "fmt_d i = (if i < 0 then ''-'' @ fmt_u (nat (- i)) else fmt_u (nat i))"

definition fmt_0i :: "nat \<Rightarrow> int \<Rightarrow> string" where
  "fmt_0i w i = (if i < 0 then ''-'' @ fmt_0d (w - 1) (nat (- i)) else fmt_0d w (nat i))"

text \<open>\<^verbatim>\<open>snprintf(buf, n, ...)\<close> keeps at most \<open>n - 1\<close> characters.\<close>

definition snprintf :: "nat \<Rightarrow> string \<Rightarrow> string" where
  "snprintf n s = take (n - 1) s"

definition newline :: string where "newline = [CHR 0x0A]"

lemma length_newline [simp, fmt]: "length newline = 1"
  by (simp add: newline_def)

subsection \<open>Digits\<close>

lemma nat_digits_Nil [simp]: "nat_digits b n \<noteq> []"
  by (subst nat_digits.simps) simp

lemma of_digits_snoc [simp]: "of_digits b (ds @ [d]) = b * of_digits b ds + d"
  by (simp add: of_digits_def)

lemma of_digits_nat_digits [simp]: "of_digits b (nat_digits b n) = n"
proof (induction b n rule: nat_digits.induct)
  case (1 b n)
  then show ?case
    by (cases "b \<le> 1 \<or> n < b") (auto simp: nat_digits.simps [of b n] of_digits_def)
qed

lemma nat_digits_bound: "2 \<le> b \<Longrightarrow> d \<in> set (nat_digits b n) \<Longrightarrow> d < b"
proof (induction b n rule: nat_digits.induct)
  case (1 b n)
  then show ?case
    by (cases "n < b") (auto simp: nat_digits.simps [of b n])
qed

lemma length_nat_digits: "2 \<le> b \<Longrightarrow> n < b ^ k \<Longrightarrow> 0 < k \<Longrightarrow> length (nat_digits b n) \<le> k"
proof (induction b n arbitrary: k rule: nat_digits.induct)
  case (1 b n)
  show ?case
  proof (cases "n < b")
    case True
    then show ?thesis using "1.prems" by (simp add: nat_digits.simps [of b n])
  next
    case False
    then obtain j where k: "k = Suc j" "0 < j"
      using "1.prems" by (cases k; cases "k = 1") auto
    then have "n div b < b ^ j"
      using "1.prems" by (simp add: div_less_iff_less_mult mult.commute)
    then show ?thesis
      using "1.IH" [of j] "1.prems" False k by (simp add: nat_digits.simps [of b n])
  qed
qed

lemma hex_digit_inj: "a < 16 \<Longrightarrow> b < 16 \<Longrightarrow> hex_digit a = hex_digit b \<longleftrightarrow> a = b"
proof -
  have d: "distinct ''0123456789ABCDEF''" by simp
  assume "a < 16" "b < 16"
  then show ?thesis
    unfolding hex_digit_def using d by (subst nth_eq_iff_index_eq) simp_all
qed

lemma hex_digit_0: "hex_digit 0 = CHR ''0''"
  by (simp add: hex_digit_def)

subsection \<open>Reading a padded number back\<close>

definition unhex :: "char \<Rightarrow> nat" where
  "unhex c = (if c \<in> set ''0123456789'' then of_char c - 48 else of_char c - 55)"

definition parse_digits :: "nat \<Rightarrow> string \<Rightarrow> nat" where
  "parse_digits b s = of_digits b (map unhex s)"

lemma unhex_hex_digit [simp]: "d < 16 \<Longrightarrow> unhex (hex_digit d) = d"
proof -
  assume "d < 16"
  then have "d \<in> {0,1,2,3,4,5,6,7,8,9,10,11,12,13,14,15}" by simp arith
  then show ?thesis by (auto simp: unhex_def hex_digit_def)
qed

lemma of_digits_zeros: "of_digits b (replicate k 0 @ ds) = of_digits b ds"
  by (induction k) (simp_all add: of_digits_def)

lemma parse_digits_pad [simp]:
  assumes "2 \<le> b" "b \<le> 16"
  shows "parse_digits b (pad_left CHR ''0'' w (show_nat b n)) = n"
proof -
  have "map unhex (show_nat b n) = nat_digits b n"
    using nat_digits_bound [OF assms(1)] assms(2)
    by (auto simp: show_nat_def intro!: map_idI) (metis order_less_le_trans unhex_hex_digit)
  moreover have "unhex CHR ''0'' = 0" by (simp add: unhex_def)
  ultimately show ?thesis
    by (simp add: parse_digits_def pad_left_def map_replicate_const of_digits_zeros)
qed

lemma parse_fmt_X [simp]: "parse_digits 16 (fmt_X w v) = unat v"
  by (simp add: fmt_X_def)

lemma parse_fmt_0d [simp]: "parse_digits 10 (fmt_0d w n) = n"
  by (simp add: fmt_0d_def)

lemma fmt_X_inj: "fmt_X w a = fmt_X w b \<longleftrightarrow> a = b"
  by (metis parse_fmt_X unsigned_word_eqI)

lemma fmt_0d_inj: "fmt_0d w a = fmt_0d w b \<longleftrightarrow> a = b"
  by (metis parse_fmt_0d)

lemma fmt_u_inj: "fmt_u a = fmt_u b \<longleftrightarrow> a = b"
  by (metis fmt_0d_inj fmt_0d_def fmt_u_def)

subsection \<open>Lengths\<close>

lemma length_fmt_X:
  fixes v :: "'a::len word"
  assumes "LENGTH('a) \<le> 4 * k" "0 < k"
  shows "length (fmt_X w v) \<le> max w k"
proof -
  have "unat v < 2 ^ LENGTH('a)" by simp
  also have "\<dots> \<le> 2 ^ (4 * k)" using assms by (simp add: power_increasing)
  also have "\<dots> = 16 ^ k" by (simp add: power_mult)
  finally have "length (nat_digits 16 (unat v)) \<le> k"
    using assms by (intro length_nat_digits) auto
  then show ?thesis by (simp add: fmt_X_def pad_left_def show_nat_def)
qed

lemma length_fmt_X64 [fmt]: "w \<le> 16 \<Longrightarrow> length (fmt_X w (v :: u64)) \<le> 16"
  using length_fmt_X [of 16 w v] by simp

lemma length_fmt_X16 [fmt]: "w \<le> 4 \<Longrightarrow> length (fmt_X w (v :: u16)) \<le> 4"
  using length_fmt_X [of 4 w v] by simp

lemma length_fmt_X8 [fmt]: "w \<le> 2 \<Longrightarrow> length (fmt_X w (v :: u8)) \<le> 2"
  using length_fmt_X [of 2 w v] by simp

lemma length_fmt_X_exact:
  fixes v :: "'a::len word"
  assumes "LENGTH('a) \<le> 4 * k" "0 < k"
  shows "length (fmt_X k v) = k"
proof -
  have "length (fmt_X k v) \<ge> k" by (simp add: fmt_X_def pad_left_def)
  with length_fmt_X [OF assms, of k v] show ?thesis by simp
qed

lemma length_fmt_u: "n < 10 ^ k \<Longrightarrow> 0 < k \<Longrightarrow> length (fmt_u n) \<le> k"
  by (simp add: fmt_u_def show_nat_def length_nat_digits)

lemma snprintf_id: "length s < n \<Longrightarrow> snprintf n s = s"
  by (simp add: snprintf_def)

lemma snprintf_take: "n \<le> length s \<Longrightarrow> length (snprintf n s) = n - 1"
  by (simp add: snprintf_def)

end
