(* ===== verification/GenNext.thy ===== *)
theory GenNext
  imports GenInt GenFlow GenArith GenSimd GenX87 Format
begin

section \<open>The generator: from a family to a test case\<close>

text \<open>
  \<^verbatim>\<open>InstructionGenerator::next\<close> of \<^verbatim>\<open>src/gen/instruction_gen.cpp\<close>: pick a family, encode its
  instruction, fill in the initial state around it, retry up to 200 times. The encoder is
  third-party, a parameter \<open>enc\<close> that returns bytes, an error, or throws. \<open>attempt\<close> is one iteration
  of the loop; besides the test case it returns the instruction it came from, which \<open>next\<close> drops.
\<close>

datatype enc_result = EncOk "u8 list" | EncErr | EncThrow

type_synonym encoder = "u64 \<Rightarrow> instruction \<Rightarrow> enc_result"

subsection \<open>Filling in the initial state\<close>

fun draw_list :: "nat \<Rightarrow> 'a draw \<Rightarrow> 'a list draw" where
  "draw_list 0 m = State_Monad.return []"
| "draw_list (Suc n) m = do { x \<leftarrow> m; xs \<leftarrow> draw_list n m; State_Monad.return (x # xs) }"

text \<open>OR in each bit of a list when a draw from \<open>0..hi\<close> is zero.\<close>

fun or_random :: "int \<Rightarrow> 'a::len word list \<Rightarrow> 'a word \<Rightarrow> 'a word draw" where
  "or_random hi [] w = State_Monad.return w"
| "or_random hi (b # bs) w = do {
     v \<leftarrow> rand_int 0 hi;
     or_random hi bs (if v = 0 then w OR b else w)
   }"

definition hex_dump :: "u8 list \<Rightarrow> string" where
  "hex_dump b = concat (map (\<lambda>i. (if i \<noteq> 0 then '' '' else []) @
     [hex_digit (unat (drop_bit 4 (b ! i))), hex_digit (unat (b ! i AND 0xF))]) [0..<length b])"

definition pin_gprs :: "bool \<Rightarrow> u64 list \<Rightarrow> u64 list" where
  "pin_gprs mem rs = (let rs1 = rs[4 := kStackTop] in if mem then rs1[7 := kDataBase] else rs1)"

definition apply_forced :: "u64 option list \<Rightarrow> u64 list \<Rightarrow> u64 list" where
  "apply_forced fs rs = map (\<lambda>i. case fs ! i of Some v \<Rightarrow> v | None \<Rightarrow> rs ! i) [0..<16]"

definition kStaleBits :: "u16 list" where
  "kStaleBits = [0x0001, 0x0002, 0x0004, 0x0008, 0x0010, 0x0020, 0x0040, 0x0100, 0x0200, 0x0400, 0x4000]"

text \<open>One live slot: the stack-relative value, and its tag at the physical position.\<close>

definition set_tag :: "u16 \<Rightarrow> nat \<Rightarrow> u8 \<Rightarrow> u16" where
  "set_tag tw phys t = (tw AND NOT (push_bit (2 * phys) 3)) OR push_bit (2 * phys) (ucast t)"

fun fill_st :: "nat \<Rightarrow> nat list \<Rightarrow> x87_state \<Rightarrow> x87_state draw" where
  "fill_st tp [] x = State_Monad.return x"
| "fill_st tp (i # is) x = do {
     v \<leftarrow> random_x87_value;
     let phys = (tp + i) mod 8;
     fill_st tp is (x\<lparr>signexp := (signexp x)[i := raw_signexp v], signif := (signif x)[i := raw_signif v],
       tag_word := set_tag (tag_word x) phys (x87_classify_tag (raw_signexp v) (raw_signif v))\<rparr>)
   }"

definition draw_x87 :: "nat \<Rightarrow> x87_state draw" where
  "draw_x87 needs = do {
     rc \<leftarrow> rand_int 0 3;
     let cw = (0x037F OR push_bit 10 (word_of_int rc) :: u16);
     tp \<leftarrow> rand_int 0 7;
     p \<leftarrow> rand_int 0 99;
     depth \<leftarrow> (if p < 10 then rand_int 0 8
               else do { e \<leftarrow> rand_int 0 (8 - int needs); State_Monad.return (int needs + e) });
     let sw0 = (push_bit 11 (word_of_int tp) :: u16);
     q \<leftarrow> rand_int 0 3;
     sw \<leftarrow> (if q = 0 then or_random 5 kStaleBits sw0 else State_Monad.return sw0);
     fill_st (nat tp) [0..<nat depth] (x87_default\<lparr>control_word := cw, status_word := sw, tag_word := 0xFFFF\<rparr>)
   }"

definition kRandFlags :: "u64 list" where
  "kRandFlags = [0x1, 0x4, 0x10, 0x40, 0x80, 0x400, 0x800]"

definition draw_flags :: "u64 draw" where
  "draw_flags = do { fl \<leftarrow> or_random 1 kRandFlags 0x2; State_Monad.return (fl OR 0x200) }"

text \<open>Writing bytes into the data page image, byte by byte.\<close>

definition poke :: "nat \<Rightarrow> u8 list \<Rightarrow> u8 list \<Rightarrow> u8 list" where
  "poke off bs seed = fold (\<lambda>b s. s[off + b := bs ! b]) [0..<length bs] seed"

definition overlay_qword :: "(nat \<times> u64) option \<Rightarrow> u8 list \<Rightarrow> u8 list" where
  "overlay_qword fq seed = (case fq of None \<Rightarrow> seed
     | Some (off, v) \<Rightarrow> if off + 8 \<le> length seed then poke off (le_bytes 8 v) seed else seed)"

definition overlay_bytes :: "forced_bytes option \<Rightarrow> u8 list \<Rightarrow> u8 list" where
  "overlay_bytes fo seed = (case fo of None \<Rightarrow> seed
     | Some fb \<Rightarrow> if fb_offset fb + fb_size fb \<le> length seed
                  then poke (fb_offset fb) (take (fb_size fb) (fb_value fb)) seed else seed)"

definition bsf_source :: "ctx \<Rightarrow> u64 list \<Rightarrow> u8 list \<Rightarrow> u64 option" where
  "bsf_source c gprs seed =
     (let wb = bsf_bsr_width_bytes c;
          v = (case bsf_bsr_src_reg c of
            Some s \<Rightarrow> Some (gprs ! s)
          | None \<Rightarrow> (case bsf_bsr_src_mem_disp c of
              Some p \<Rightarrow> (let off = unat (scast p :: u64) in
                if off + wb \<le> length seed then Some (of_le_bytes (take wb (drop off seed))) else None)
            | None \<Rightarrow> None))
      in map_option (\<lambda>x. if 0 < wb \<and> wb < 8 then x AND (push_bit (8 * wb) 1 - 1) else x) v)"

definition gpr_mask :: "ctx \<Rightarrow> u64 list \<Rightarrow> u8 list \<Rightarrow> u32" where
  "gpr_mask c gprs seed = (case bsf_bsr_dest c of
     None \<Rightarrow> 0xFFFF
   | Some d \<Rightarrow> if bsf_source c gprs seed = Some 0 then 0xFFFF AND NOT (push_bit d 1) else 0xFFFF)"

definition draw_fpu :: "ctx \<Rightarrow> x87_state draw" where
  "draw_fpu c = (if uses_x87 c then draw_x87 (x87_needs c) else State_Monad.return x87_default)"

definition fill_case :: "ctx \<Rightarrow> u8 list \<Rightarrow> test_case draw" where
  "fill_case c bytes = do {
     rs \<leftarrow> draw_list 16 random_interesting_u64;
     let gprs = apply_forced (force_gpr c) (pin_gprs (c_touches_memory c) rs);
     xs \<leftarrow> draw_list 16 (do { lo \<leftarrow> random_interesting_u64; hi \<leftarrow> random_interesting_u64;
                              State_Monad.return (lo, hi) });
     x \<leftarrow> draw_fpu c;
     fl \<leftarrow> draw_flags;
     ds \<leftarrow> draw_list kDataWindow (do { v \<leftarrow> rand_int 0 255; State_Monad.return (word_of_int v) });
     let seed = overlay_bytes (force_data_bytes c) (overlay_qword (force_data_qword c) ds);
     State_Monad.return \<lparr>tc_text = hex_dump bytes, tc_bytes = bytes,
       tc_initial = reg_default\<lparr>gpr := gprs, rflags := fl, xmm_lo := map fst xs, xmm_hi := map snd xs, x87 := x\<rparr>,
       tc_touches_memory = c_touches_memory c, tc_flags_mask = c_flags_mask c, tc_data_seed = seed,
       tc_gpr_compare_mask = gpr_mask c gprs seed\<rparr>
   }"

subsection \<open>The retry loop\<close>

type_synonym families = "instruction option draw list"

definition attempt :: "families \<Rightarrow> encoder \<Rightarrow> nat stream \<Rightarrow> (instruction \<times> ctx \<times> test_case) option \<times> nat stream" where
  "attempt fams enc g =
     (let (fam, c1) = run_state (pick fams) (fresh_ctx g);
          (r, c2) = run_state fam c1
      in case r of
        None \<Rightarrow> (None, rng c2)
      | Some i \<Rightarrow> (case enc kCodeBase i of
          EncOk bytes \<Rightarrow>
            if bytes = [] then (None, rng c2)
            else (let (tc, c3) = run_state (fill_case c2 bytes) c2 in (Some (i, c2, tc), rng c3))
        | EncErr \<Rightarrow> (None, rng c2)
        | EncThrow \<Rightarrow> (None, rng c2)))"

definition fallback_case :: test_case where
  "fallback_case = tc_default\<lparr>tc_bytes := [0x90], tc_text := ''90'',
     tc_initial := reg_default\<lparr>gpr := (gpr reg_default)[4 := kStackTop], rflags := 0x202\<rparr>\<rparr>"

record generator =
  gen_rng :: "nat stream"
  gen_discarded :: nat

fun next_loop :: "families \<Rightarrow> encoder \<Rightarrow> nat \<Rightarrow> generator \<Rightarrow> test_case \<times> generator" where
  "next_loop fams enc 0 s = (fallback_case, s)"
| "next_loop fams enc (Suc n) s =
     (case attempt fams enc (gen_rng s) of
        (Some (i, c, tc), g) \<Rightarrow> (tc, s\<lparr>gen_rng := g\<rparr>)
      | (None, g) \<Rightarrow> next_loop fams enc n (s\<lparr>gen_rng := g, gen_discarded := gen_discarded s + 1\<rparr>))"

definition gen_next :: "families \<Rightarrow> encoder \<Rightarrow> generator \<Rightarrow> test_case \<times> generator" where
  "gen_next fams enc s = next_loop fams enc 200 s"

definition kFamilies :: "host_caps \<Rightarrow> families" where
  "kFamilies caps = [
     gen_alu, gen_test, gen_unary, gen_shift, gen_mov, gen_movx, gen_movsxd,
     gen_pushpop, gen_lea, gen_jcc, gen_jmp, gen_call, gen_ret, gen_setcc,
     gen_cmovcc, gen_bt, gen_rmsrc, gen_bswap,
     gen_loop, gen_xchg, gen_xadd_cmpxchg, gen_shld_shrd, gen_movbe_crc32_nop, gen_moffs,
     gen_string_ops,
     gen_bmi,
     gen_muldiv, gen_imul_multi,
     gen_simd_shuffle, gen_simd_logic, gen_simd_pack, gen_simd_shift, gen_simd_fp, gen_vex_simd caps,
     gen_sse_arith, gen_packed_int, gen_sse_move,
     gen_privileged, gen_privileged_movcrdr,
     gen_x87_load, gen_x87_store, gen_x87_arith, gen_x87_unary, gen_x87_compare, gen_x87_move,
     gen_x87_control,
     gen_x87_transcendental]"

lemma length_kFamilies: "length (kFamilies caps) = 47"
  by (simp add: kFamilies_def)

subsection \<open>Rules for the draws\<close>

lemma wp_draw_list:
  assumes m: "\<And>c Q. (\<And>x g. P x \<Longrightarrow> Q x (c\<lparr>rng := g\<rparr>)) \<Longrightarrow> wp m Q c"
    and Q: "\<And>xs g. length xs = n \<Longrightarrow> list_all P xs \<Longrightarrow> Q xs (c\<lparr>rng := g\<rparr>)"
  shows "wp (draw_list n m) Q c"
  using Q
proof (induction n arbitrary: c Q)
  case 0
  show ?case using 0 [of "[]" "rng c"] by (simp add: wp_simps)
next
  case (Suc n)
  have "wp (draw_list n m \<bind> (\<lambda>xs. State_Monad.return (x # xs))) Q (c\<lparr>rng := g\<rparr>)" if "P x" for x g
    unfolding wp_bind by (rule Suc.IH) (simp add: wp_simps Suc.prems that)
  then show ?case by (simp add: wp_simps m)
qed

lemma wp_or_random:
  assumes "0 \<le> hi" "I w" "\<And>b v. b \<in> set bs \<Longrightarrow> I v \<Longrightarrow> I (v OR b)"
    "\<And>v g. I v \<Longrightarrow> Q v (c\<lparr>rng := g\<rparr>)"
  shows "wp (or_random hi bs w) Q c"
  using assms(2-4)
proof (induction bs arbitrary: w c)
  case Nil
  then show ?case using Nil(3) [of w "rng c"] by (simp add: wp_simps)
next
  case (Cons b bs)
  show ?case
    by (simp add: wp_simps)
      (rule wp_rand_int [OF assms(1)], rule Cons.IH, use Cons.prems in auto)
qed

lemma length_poke [simp]: "length (poke off bs seed) = length seed"
proof -
  have "length (fold (\<lambda>b s. s[off + b := bs ! b]) ks seed) = length seed" for ks
    by (induction ks arbitrary: seed) auto
  then show ?thesis by (simp add: poke_def)
qed

lemma nth_poke:
  assumes "off + length bs \<le> length seed" "k < length seed"
  shows "poke off bs seed ! k = (if off \<le> k \<and> k < off + length bs then bs ! (k - off) else seed ! k)"
proof -
  have "fold (\<lambda>b s. s[off + b := bs ! b]) [0..<n] seed ! k =
      (if off \<le> k \<and> k < off + n then bs ! (k - off) else seed ! k) \<and>
      length (fold (\<lambda>b s. s[off + b := bs ! b]) [0..<n] seed) = length seed" if "n \<le> length bs" for n
    using that
  proof (induction n)
    case (Suc n)
    then show ?case using assms by (auto simp: nth_list_update)
  qed auto
  then show ?thesis by (simp add: poke_def)
qed

lemma take_drop_poke:
  "off + length bs \<le> length seed \<Longrightarrow> take (length bs) (drop off (poke off bs seed)) = bs"
  by (rule nth_equalityI) (simp_all add: nth_poke)

lemma length_overlays [simp]:
  "length (overlay_qword q seed) = length seed" "length (overlay_bytes fb seed) = length seed"
  by (simp_all add: overlay_qword_def overlay_bytes_def split: option.splits prod.splits)

subsection \<open>The drawn x87 state\<close>

lemma tag_field_set_tag:
  assumes "p < 8" "q < 8" "t < 4"
  shows "tag_field (set_tag tw p t) q = (if q = p then t else tag_field tw q)"
proof (rule bit_word_eqI)
  fix n assume "n < LENGTH(8)"
  have t: "\<not> bit t m" if "2 \<le> m" for m
  proof -
    have "unat t < 2 ^ 2" using assms(3) by (simp add: word_less_nat_alt)
    also have "(2 :: nat) ^ 2 \<le> 2 ^ m" by (rule power_increasing) (use that in auto)
    finally have "\<not> bit (unat t) m" by (simp add: bit_iff_odd)
    then show ?thesis by (simp add: bit_unsigned_iff)
  qed
  have d: "2 * q + n \<ge> 2 * p \<longleftrightarrow> q \<ge> p" "2 * q + n - 2 * p < 2 \<longleftrightarrow> q \<le> p" if "n < 2"
    using that by linarith+
  show "bit (tag_field (set_tag tw p t) q) n = bit (if q = p then t else tag_field tw q) n"
  proof (cases "n < 2")
    case True
    then have "2 * q + n < 16" using assms(2) by linarith
    with True show ?thesis
      using assms(1,2) d t
      by (auto simp: bit_tag_field set_tag_def bit_or_iff bit_and_iff bit_not_iff bit_push_bit_iff
          bit_ucast_iff)
  next
    case False
    then show ?thesis using t by (simp add: bit_tag_field)
  qed
qed

definition st_live :: "nat \<Rightarrow> nat \<Rightarrow> x87_state \<Rightarrow> bool" where
  "st_live tp k x \<longleftrightarrow> x87_shape x \<and> (\<forall>i < 8. tag_field (tag_word x) ((tp + i) mod 8) =
     (if i < k then x87_classify_tag (signexp x ! i) (signif x ! i) else 3))"

lemma phys_inj: "i < 8 \<Longrightarrow> j < 8 \<Longrightarrow> (tp + i) mod 8 = (tp + j) mod 8 \<Longrightarrow> i = (j :: nat)"
proof -
  assume ij: "i < 8" "j < 8" and m: "(tp + i) mod 8 = (tp + j) mod 8"
  define a where "a = tp mod 8"
  have a: "a < 8" by (simp add: a_def)
  have "(a + i) mod 8 = (a + j) mod 8" using m by (simp add: a_def mod_add_left_eq)
  moreover have "(a + k) mod 8 = (if a + k < 8 then a + k else a + k - 8)" if "k < 8" for k
    using a that by (simp add: le_mod_geq not_less)
  ultimately show "i = j" using ij a by (auto split: if_splits)
qed

lemma wp_fill_st:
  assumes "st_live tp k x" "k + n \<le> 8"
    "\<And>y g. st_live tp (k + n) y \<Longrightarrow> control_word y = control_word x \<Longrightarrow>
       status_word y = status_word x \<Longrightarrow> Q y (c\<lparr>rng := g\<rparr>)"
  shows "wp (fill_st tp [k..<k + n] x) Q c"
  using assms
proof (induction n arbitrary: k x c)
  case 0
  then show ?case using 0(3) [of x "rng c"] by (simp add: wp_simps)
next
  case (Suc n)
  have u: "[k..<k + Suc n] = k # [Suc k..<Suc k + n]" by (simp add: upt_rec)
  have step: "st_live tp (Suc k) (x\<lparr>signexp := (signexp x)[k := raw_signexp v],
      signif := (signif x)[k := raw_signif v],
      tag_word := set_tag (tag_word x) ((tp + k) mod 8) (x87_classify_tag (raw_signexp v) (raw_signif v))\<rparr>)" for v
  proof -
    have t: "x87_classify_tag a b < 4" for a b
      using x87_classify_tag_less_3 [of a b] by (simp add: word_less_nat_alt)
    have p: "((tp + i) mod 8 = (tp + k) mod 8) = (i = k)" if "i < 8" for i
      using phys_inj [of i k tp] that Suc.prems(2) by auto
    show ?thesis
      using Suc.prems(1,2) by (auto simp: st_live_def x87_shape_def tag_field_set_tag t p nth_list_update)
  qed
  show ?case
    unfolding u fill_st.simps Let_def
    by (simp only: wp_simps)
      (rule wp_random_x87_value, rule Suc.IH, rule step, use Suc.prems in auto)
qed

text \<open>What every drawn FPU state satisfies.\<close>

definition fpu_pinned :: "x87_state \<Rightarrow> bool" where
  "fpu_pinned x \<longleftrightarrow> control_word x AND 0x033F = 0x033F \<and> status_word x AND 0x8080 = 0"

lemma st_live_well_tagged:
  assumes "st_live tp k x" "unat (x87_top_of x) = tp"
  shows "well_tagged x"
  using assms by (auto simp: well_tagged_def x87_tag_of_st_eq st_phys_def st_live_def)

lemma cw_pinned: "((0x037F OR push_bit 10 w) :: u16) AND 0x033F = 0x033F"
proof (rule bit_word_eqI)
  fix n assume "n < LENGTH(16)"
  then have "n \<in> {0,1,2,3,4,5,6,7,8,9,10,11,12,13,14,15}" by simp arith
  then show "bit ((0x037F OR push_bit 10 w) AND (0x033F :: u16)) n = bit (0x033F :: u16) n"
    by (auto simp: bit_and_iff bit_or_iff bit_push_bit_iff)
qed

text \<open>TOP and the ES and B bits survive the stale condition bits.\<close>

definition sw_inv :: "u16 \<Rightarrow> u16 \<Rightarrow> bool" where
  "sw_inv sw0 sw \<longleftrightarrow> sw AND 0xB880 = sw0 AND 0xB880"

lemma sw_inv_or: "b \<in> set kStaleBits \<Longrightarrow> sw_inv sw0 v \<Longrightarrow> sw_inv sw0 (v OR b)"
proof -
  assume b: "b \<in> set kStaleBits" and v: "sw_inv sw0 v"
  have "b AND 0xB880 = 0" using b by (auto simp: kStaleBits_def)
  moreover have "(v OR b) AND 0xB880 = (v AND 0xB880) OR (b AND 0xB880)"
    by (rule bit_word_eqI) (auto simp: bit_and_iff bit_or_iff)
  ultimately show ?thesis using v by (simp add: sw_inv_def)
qed

lemma sw_inv_top:
  assumes "sw_inv (push_bit 11 (word_of_int tp)) sw" "0 \<le> tp" "tp \<le> 7" "status_word x = sw"
  shows "unat (x87_top_of x) = nat tp" "sw AND 0x8080 = 0"
proof -
  have tp: "tp \<in> {0,1,2,3,4,5,6,7}" using assms(2,3) by simp arith
  have "sw AND 0x3800 = sw AND (0xB880 AND 0x3800)" "sw AND 0x8080 = sw AND (0xB880 AND 0x8080)" by simp_all
  then have e: "sw AND 0x3800 = (sw AND 0xB880) AND 0x3800" "sw AND 0x8080 = (sw AND 0xB880) AND 0x8080"
    by (simp_all only: and.assoc)
  then have m: "sw AND 0x3800 = (push_bit 11 (word_of_int tp) AND 0xB880) AND 0x3800"
    "sw AND 0x8080 = (push_bit 11 (word_of_int tp) AND 0xB880) AND 0x8080"
    by (simp_all only: e assms(1) [unfolded sw_inv_def])
  show "sw AND 0x8080 = 0" using m(2) tp by auto
  have "drop_bit 11 sw AND 7 = drop_bit 11 (sw AND 0x3800)" by (simp add: drop_bit_and)
  also have "\<dots> = word_of_int tp" unfolding m(1) using tp by auto
  finally show "unat (x87_top_of x) = nat tp"
    using tp assms(4) by (auto simp: x87_top_of_def)
qed

lemma tag_field_empty: "p < 8 \<Longrightarrow> tag_field 0xFFFF p = 3"
proof (rule bit_word_eqI)
  fix n assume "p < 8" "n < LENGTH(8)"
  moreover have "(0xFFFF :: u16) = mask 16" by (simp add: mask_eq_exp_minus_1)
  ultimately show "bit (tag_field 0xFFFF p) n = bit (3 :: u8) n"
    by (simp only: bit_tag_field bit_mask_iff bit_3_gen) auto
qed

lemma st_live_empty: "st_live tp 0 (x87_default\<lparr>control_word := cw, status_word := sw, tag_word := 0xFFFF\<rparr>)"
  by (simp add: st_live_def x87_shape_def x87_default_def tag_field_empty)

lemma wp_draw_x87:
  assumes "needs \<le> 8"
    "\<And>x g. well_tagged x \<Longrightarrow> fpu_pinned x \<Longrightarrow> x87_shape x \<Longrightarrow> Q x (c\<lparr>rng := g\<rparr>)"
  shows "wp (draw_x87 needs) Q c"
proof -
  have fill: "wp (fill_st (nat tp) [0..<nat depth]
        (x87_default\<lparr>control_word := 0x037F OR push_bit 10 (word_of_int rc), status_word := sw, tag_word := 0xFFFF\<rparr>))
        Q (c\<lparr>rng := g\<rparr>)"
    if "0 \<le> tp" "tp \<le> 7" "depth \<le> 8" "sw_inv (push_bit 11 (word_of_int tp)) sw" for tp depth rc sw g
  proof -
    have "wp (fill_st (nat tp) [0..<0 + nat depth]
        (x87_default\<lparr>control_word := 0x037F OR push_bit 10 (word_of_int rc), status_word := sw, tag_word := 0xFFFF\<rparr>))
        Q (c\<lparr>rng := g\<rparr>)"
    proof (rule wp_fill_st [OF st_live_empty])
      show "0 + nat depth \<le> 8" using that by simp
      fix y g' assume y: "st_live (nat tp) (0 + nat depth) y"
        "control_word y = control_word (x87_default\<lparr>control_word := 0x037F OR push_bit 10 (word_of_int rc),
           status_word := sw, tag_word := 0xFFFF\<rparr>)"
        "status_word y = status_word (x87_default\<lparr>control_word := 0x037F OR push_bit 10 (word_of_int rc),
           status_word := sw, tag_word := 0xFFFF\<rparr>)"
      then have "status_word y = sw" by simp
      note tp = sw_inv_top [OF that(4,1,2) this]
      have "well_tagged y" by (rule st_live_well_tagged [OF y(1) tp(1)])
      moreover have "fpu_pinned y" using y(2) tp(2) \<open>status_word y = sw\<close> by (simp add: fpu_pinned_def cw_pinned)
      ultimately show "Q y ((c\<lparr>rng := g\<rparr>)\<lparr>rng := g'\<rparr>)"
        using assms(2) y(1) by (simp add: st_live_def)
    qed
    then show ?thesis by simp
  qed
  have stale: "wp (or_random 5 kStaleBits (push_bit 11 (word_of_int tp))) (\<lambda>sw. wp (fill_st (nat tp) [0..<nat depth]
        (x87_default\<lparr>control_word := 0x037F OR push_bit 10 (word_of_int rc), status_word := sw, tag_word := 0xFFFF\<rparr>)) Q)
        (c\<lparr>rng := g\<rparr>)"
    if "0 \<le> tp" "tp \<le> 7" "depth \<le> 8" for tp depth rc g
    by (rule wp_or_random [where I = "sw_inv (push_bit 11 (word_of_int tp))"])
      (use that in \<open>auto simp: sw_inv_or fill sw_inv_def [of _ "push_bit 11 _"]\<close>)
  show ?thesis
    unfolding draw_x87_def Let_def
    using assms(1)
    by (auto simp: wp_simps sw_inv_def intro!: wp_rules stale fill)
qed

subsection \<open>The drawn flags\<close>

definition rflags_ok :: "u64 \<Rightarrow> bool" where
  "rflags_ok fl \<longleftrightarrow> fl AND 0x202 = 0x202 \<and> fl AND NOT 0xED7 = 0"

lemma wp_draw_flags:
  assumes "\<And>fl g. rflags_ok fl \<Longrightarrow> Q fl (c\<lparr>rng := g\<rparr>)"
  shows "wp draw_flags Q c"
proof -
  have step: "(v OR b) AND 2 = 2 \<and> (v OR b) AND NOT 0xED7 = 0"
    if "b \<in> set kRandFlags" "v AND 2 = 2 \<and> v AND NOT 0xED7 = 0" for b v :: u64
  proof -
    have "b AND 2 = 0 \<and> b AND NOT 0xED7 = 0" using that(1) by (auto simp: kRandFlags_def)
    then show ?thesis using that(2) by (simp add: bit.conj_disj_distrib2)
  qed
  have fin: "rflags_ok (v OR 0x200)" if "v AND 2 = 2 \<and> v AND NOT 0xED7 = 0" for v :: u64
  proof -
    have "(v OR 0x200) AND 0x202 = (v AND 2) OR 0x200"
    proof (rule bit_word_eqI)
      fix n
      have "(0x202 :: u64) = 2 OR 0x200" by simp
      then have "bit (0x202 :: u64) n = (bit (2 :: u64) n \<or> bit (0x200 :: u64) n)"
        by (simp only: bit_or_iff)
      then show "bit ((v OR 0x200) AND 0x202) n = bit ((v AND 2) OR 0x200) n"
        using that by (auto simp: bit_and_iff bit_or_iff dest: arg_cong [where f = "\<lambda>w. bit w n"])
    qed
    then show ?thesis using that by (simp add: rflags_ok_def bit.conj_disj_distrib2)
  qed
  show ?thesis
    unfolding draw_flags_def wp_simps
    by (rule wp_or_random [where I = "\<lambda>v. v AND 2 = 2 \<and> v AND NOT 0xED7 = 0"])
      (use step in \<open>auto simp: wp_simps intro!: assms fin\<close>)
qed

end
