(* ===== verification/GenSpec.thy ===== *)
theory GenSpec
  imports GenNext
begin

section \<open>What the generator guarantees\<close>

text \<open>
  The contract of a produced test case (\<open>case_ok\<close>), the interface between the retry loop and its
  table of families as a locale (\<open>family_table\<close>, extended by \<open>stamped_table\<close>), its interpretation on
  the 47 families of the source, and the properties of the whole generator.
\<close>

subsection \<open>The contract of a test case\<close>

definition operands_of :: "instruction \<Rightarrow> mem_operand list" where
  "operands_of i = (case build i of
     With c args \<Rightarrow> concat (map (\<lambda>a. case a of AMem m \<Rightarrow> [m] | _ \<Rightarrow> []) args)
   | _ \<Rightarrow> [])"

definition mem_address :: "test_case \<Rightarrow> mem_operand \<Rightarrow> u64" where
  "mem_address tc m = (case m of
     MemBaseDispl b d s \<Rightarrow> gpr (tc_initial tc) ! 7 + scast d
   | MemDispl a s \<Rightarrow> a)"

definition in_window :: "u64 \<Rightarrow> bool" where
  "in_window a \<longleftrightarrow> kDataBase \<le> a \<and> a - kDataBase \<le> 127"

definition branch_ok :: "instruction \<Rightarrow> bool" where
  "branch_ok i \<longleftrightarrow> (case build i of WithBranch c t \<Rightarrow> target_ok t | _ \<Rightarrow> True)"

definition pins_ok :: "instruction \<Rightarrow> test_case \<Rightarrow> bool" where
  "pins_ok i tc \<longleftrightarrow>
     (gpr (tc_initial tc) ! 4 = kStackTop \<or> code_of i \<in> set kRspForcing) \<and>
     (if tc_touches_memory tc
      then gpr (tc_initial tc) ! 7 = (if is_string_op i then kMidWindow else kDataBase)
      else \<not> uses_memory i)"

definition state_ok :: "test_case \<Rightarrow> bool" where
  "state_ok tc \<longleftrightarrow> reg_shape (tc_initial tc) \<and> length (tc_data_seed tc) = kDataWindow \<and>
     well_tagged (x87 (tc_initial tc)) \<and> fpu_pinned (x87 (tc_initial tc)) \<and>
     rflags_ok (rflags (tc_initial tc)) \<and> tc_flags_mask tc AND NOT kCompareFlagsMask = 0"

definition case_ok :: "instruction \<Rightarrow> test_case \<Rightarrow> bool" where
  "case_ok i tc \<longleftrightarrow> state_ok tc \<and> pins_ok i tc \<and> branch_ok i \<and>
     list_all (\<lambda>m. in_window (mem_address tc m)) (operands_of i)"

subsection \<open>Filling a case keeps the contract\<close>

lemma length_apply_forced [simp]: "length (apply_forced fs rs) = 16"
  by (simp add: apply_forced_def)

lemma nth_apply_forced [simp]:
  "i < 16 \<Longrightarrow> apply_forced fs rs ! i = (case fs ! i of Some v \<Rightarrow> v | None \<Rightarrow> rs ! i)"
  by (cases "fs ! i") (simp_all add: apply_forced_def)

lemma nth_pin_gprs [simp]:
  "length rs = 16 \<Longrightarrow> pin_gprs m rs ! 4 = kStackTop"
  "length rs = 16 \<Longrightarrow> pin_gprs True rs ! 7 = kDataBase"
  by (simp_all add: pin_gprs_def Let_def)

lemma default_x87_ok: "well_tagged x87_default" "fpu_pinned x87_default" "x87_shape x87_default"
proof -
  show "well_tagged x87_default"
    by (simp add: well_tagged_def x87_tag_of_st_eq) (simp add: x87_default_def tag_field_empty)
qed (simp_all add: fpu_pinned_def x87_shape_def x87_default_def)

text \<open>What is known of a filled case: its parts, and the recorded requests of the family.\<close>

definition filled :: "ctx \<Rightarrow> u8 list \<Rightarrow> test_case \<Rightarrow> bool" where
  "filled c bytes tc \<longleftrightarrow> tc_bytes tc = bytes \<and> tc_text tc = hex_dump bytes \<and> state_ok tc \<and>
     tc_touches_memory tc = c_touches_memory c \<and>
     (\<exists>rs ds. length rs = 16 \<and> length ds = kDataWindow \<and>
        gpr (tc_initial tc) = apply_forced (force_gpr c) (pin_gprs (c_touches_memory c) rs) \<and>
        tc_data_seed tc = overlay_bytes (force_data_bytes c) (overlay_qword (force_data_qword c) ds) \<and>
        tc_gpr_compare_mask tc = gpr_mask c (gpr (tc_initial tc)) (tc_data_seed tc))"

lemma wp_draw_words:
  assumes "\<And>xs g. length xs = n \<Longrightarrow> Q xs (c\<lparr>rng := g\<rparr>)"
  shows "wp (draw_list n random_interesting_u64) Q c"
  by (rule wp_draw_list [where P = "\<lambda>_. True"]) (auto intro!: wp_rules assms)

lemma wp_draw_pairs:
  assumes "\<And>xs g. length xs = n \<Longrightarrow> Q xs (c\<lparr>rng := g\<rparr>)"
  shows "wp (draw_list n (do { lo \<leftarrow> random_interesting_u64; hi \<leftarrow> random_interesting_u64;
                            State_Monad.return (lo, hi) })) Q c"
  by (rule wp_draw_list [where P = "\<lambda>_. True"]) (auto simp: wp_simps intro!: wp_rules assms)

lemma wp_draw_bytes:
  assumes "\<And>xs g. length xs = n \<Longrightarrow> Q xs (c\<lparr>rng := g\<rparr>)"
  shows "wp (draw_list n (do { v \<leftarrow> rand_int 0 255; State_Monad.return (word_of_int v) })) Q c"
  by (rule wp_draw_list [where P = "\<lambda>_. True"]) (auto simp: wp_simps intro!: wp_rules assms)

lemma wp_draw_fpu:
  assumes "ctx_ok c" "\<And>x g. well_tagged x \<Longrightarrow> fpu_pinned x \<Longrightarrow> x87_shape x \<Longrightarrow> Q x (c'\<lparr>rng := g\<rparr>)"
  shows "wp (draw_fpu c) Q c'"
proof -
  have "Q x87_default c'" using assms(2) [of x87_default "rng c'"] default_x87_ok by simp
  then show ?thesis
    using assms by (auto simp: draw_fpu_def wp_simps ctx_ok_def x87_ok_def intro!: wp_draw_x87)
qed

lemma wp_fill_case:
  assumes "ctx_ok c" "\<And>tc g. filled c bytes tc \<Longrightarrow> Q tc (c'\<lparr>rng := g\<rparr>)"
  shows "wp (fill_case c bytes) Q c'"
proof -
  have fin: "Q \<lparr>tc_text = hex_dump bytes, tc_bytes = bytes,
       tc_initial = reg_default\<lparr>gpr := apply_forced (force_gpr c) (pin_gprs (c_touches_memory c) rs),
         rflags := fl, xmm_lo := map fst xs, xmm_hi := map snd xs, x87 := x\<rparr>,
       tc_touches_memory = c_touches_memory c, tc_flags_mask = c_flags_mask c,
       tc_data_seed = overlay_bytes (force_data_bytes c) (overlay_qword (force_data_qword c) ds),
       tc_gpr_compare_mask = gpr_mask c (apply_forced (force_gpr c) (pin_gprs (c_touches_memory c) rs))
         (overlay_bytes (force_data_bytes c) (overlay_qword (force_data_qword c) ds))\<rparr> (c'\<lparr>rng := g\<rparr>)"
    if "length rs = 16" "length xs = 16" "length ds = kDataWindow" "rflags_ok fl"
      "well_tagged x" "fpu_pinned x" "x87_shape x" for rs xs ds fl x g
    by (rule assms(2))
      (use that assms(1) in \<open>auto simp: filled_def state_ok_def reg_shape_def reg_default_def ctx_ok_def flags_ok_def\<close>)
  show ?thesis
    unfolding fill_case_def Let_def
    by (simp only: wp_simps, rule wp_draw_words, simp only: wp_simps, rule wp_draw_pairs,
        simp only: wp_simps, rule wp_draw_fpu [OF assms(1)], simp only: wp_simps, rule wp_draw_flags,
        simp only: wp_simps, rule wp_draw_bytes, simp only: wp_simps)
      (simp add: fin)
qed

subsection \<open>From the contract of a family to the contract of its case\<close>

lemma mem_address_in_window:
  assumes "mem_ok (AMem m)" "gpr (tc_initial tc) ! 7 = kDataBase"
  shows "in_window (mem_address tc m)"
proof (cases m)
  case (MemBaseDispl b d s)
  then have d: "disp_ok d" using assms(1) by (simp add: mem_ok_def)
  have "sint d < 128" using sint_lt [of d] by simp
  then have n: "nat (sint d) \<le> 127" using d by (simp add: disp_ok_def)
  have u: "unat (scast d :: u64) = nat (sint d)" by (rule disp_offset [OF d])
  have "unat (kDataBase + scast d) = unat kDataBase + nat (sint d)"
    using n u by (simp add: unat_word_ariths kDataBase_def)
  then show ?thesis
    using MemBaseDispl assms(2) u n by (simp add: in_window_def mem_address_def word_le_nat_alt)
next
  case (MemDispl a s)
  then have "kDataBase \<le> a" "a - kDataBase \<le> 120" using assms(1) by (simp_all add: mem_ok_def)
  then show ?thesis using MemDispl by (simp add: in_window_def mem_address_def word_le_nat_alt)
qed

lemma filled_case_ok:
  assumes "instr_ok i c" "filled c bytes tc"
  shows "case_ok i tc"
proof -
  obtain rs where g: "gpr (tc_initial tc) = apply_forced (force_gpr c) (pin_gprs (c_touches_memory c) rs)"
    and rs: "length rs = 16" and t: "tc_touches_memory tc = c_touches_memory c" and st: "state_ok tc"
    using assms(2) by (auto simp: filled_def)
  have i: "build_ok i" "uses_memory i \<Longrightarrow> c_touches_memory c" "rdi_ok i c" "rsp_ok i c"
    using assms(1) by (simp_all add: instr_ok_def)
  have rdi: "gpr (tc_initial tc) ! 7 = (if is_string_op i then kMidWindow else kDataBase)" if "c_touches_memory c"
    using i(3) that rs by (simp add: g rdi_ok_def)
  have pins: "pins_ok i tc"
    using i(2,4) rs rdi by (auto simp: pins_ok_def g t rsp_ok_def)
  have "in_window (mem_address tc m)" if mem: "m \<in> set (operands_of i)" for m
  proof -
    obtain k args where b: "build i = With k args" and m: "AMem m \<in> set args"
      using mem by (cases "build i") (auto simp: operands_of_def split: fact_arg.splits)
    have "mem_ok (AMem m)" using i(1) b m by (simp add: build_ok_def list_all_iff)
    moreover have "uses_memory i" using b m 
      by (auto simp: uses_memory_def list_ex_iff is_mem_def intro!: bexI [of _ "AMem m"])
    ultimately show ?thesis
      using mem_address_in_window rdi i(2) b by (simp add: is_string_op_def)
  qed
  moreover have "branch_ok i" using i(1) by (simp add: branch_ok_def build_ok_def split: build.splits)
  ultimately show ?thesis using st pins by (simp add: case_ok_def list_all_iff)
qed

subsection \<open>The retry loop over a sound table\<close>

text \<open>
  \<^verbatim>\<open>next()\<close> relies on its table only through this interface: the table is not empty and each family,
  from a fresh context, ends in a context its instruction can be given to \<^verbatim>\<open>next()\<close> with.
\<close>

lemma wp_pick_fresh: "fams \<noteq> [] \<Longrightarrow> (\<And>fam g'. fam \<in> set fams \<Longrightarrow> Q fam (fresh_ctx g')) \<Longrightarrow> wp (pick fams) Q (fresh_ctx g)"
  by (rule wp_pick) (auto simp: fresh_ctx_def)

locale family_table =
  fixes fams :: families
  assumes fams_nonempty: "fams \<noteq> []"
    and fams_sound: "fam \<in> set fams \<Longrightarrow> wp fam gen_post (fresh_ctx g)"
begin

lemma attempt_from:
  assumes "attempt fams enc g = (Some (i, c, tc), g')"
  shows "\<exists>fam g1 c2. fam \<in> set fams \<and> run_state fam (fresh_ctx g1) = (Some i, c) \<and>
    enc kCodeBase i = EncOk (tc_bytes tc) \<and> tc_bytes tc \<noteq> [] \<and>
    run_state (fill_case c (tc_bytes tc)) c = (tc, c2) \<and> filled c (tc_bytes tc) tc"
proof -
  obtain fam c1 where f: "run_state (pick fams) (fresh_ctx g) = (fam, c1)" by fastforce
  have "fam \<in> set fams \<and> (\<exists>g1. c1 = fresh_ctx g1)"
    by (rule wpD [OF wp_pick_fresh [OF fams_nonempty] f]) auto
  then obtain g1 where fam: "fam \<in> set fams" "c1 = fresh_ctx g1" by auto
  obtain r c' where r: "run_state fam c1 = (r, c')" by fastforce
  from assms f r obtain bytes c3 where b: "r = Some i" "c' = c" "enc kCodeBase i = EncOk bytes" "bytes \<noteq> []"
    "run_state (fill_case c bytes) c = (tc, c3)"
    by (auto simp: attempt_def split: option.splits enc_result.splits if_splits prod.splits)
  have "instr_ok i c" using wpD [OF fams_sound [OF fam(1)], of g1 r c'] fam(2) r b(1,2) by (simp add: gen_post_def)
  then have ok: "ctx_ok c" by (simp add: instr_ok_def)
  have fl: "filled c bytes tc" by (rule wpD [OF wp_fill_case [OF ok] b(5)])
  then have "tc_bytes tc = bytes" by (simp add: filled_def)
  with fl b fam r show ?thesis by blast
qed

lemma attempt_sound:
  assumes "attempt fams enc g = (Some (i, c, tc), g')"
  shows "enc kCodeBase i = EncOk (tc_bytes tc)" "tc_bytes tc \<noteq> []" "tc_text tc = hex_dump (tc_bytes tc)"
    "case_ok i tc"
proof -
  from attempt_from [OF assms] obtain fam g1 where
    f: "fam \<in> set fams" "run_state fam (fresh_ctx g1) = (Some i, c)" and
    e: "enc kCodeBase i = EncOk (tc_bytes tc)" "tc_bytes tc \<noteq> []" "filled c (tc_bytes tc) tc" by blast
  have "instr_ok i c" using wpD [OF fams_sound [OF f(1)] f(2)] by (simp add: gen_post_def)
  then show "case_ok i tc" using e(3) by (rule filled_case_ok)
  show "enc kCodeBase i = EncOk (tc_bytes tc)" "tc_bytes tc \<noteq> []" "tc_text tc = hex_dump (tc_bytes tc)"
    using e by (simp_all add: filled_def)
qed

text \<open>The test case returned within \<open>n\<close> attempts: a sound one, or the fallback after \<open>n\<close> discards.\<close>

lemma next_loop_sound:
  assumes "next_loop fams enc n s = (tc, s')"
  shows "(\<exists>i c g g'. attempt fams enc g = (Some (i, c, tc), g') \<and>
            gen_discarded s \<le> gen_discarded s' \<and> gen_discarded s' < gen_discarded s + n) \<or>
         (tc = fallback_case \<and> gen_discarded s' = gen_discarded s + n)"
  using assms
proof (induction n arbitrary: s)
  case (Suc n)
  obtain r g where a: "attempt fams enc (gen_rng s) = (r, g)" by fastforce
  show ?case
  proof (cases r)
    case None
    then have "next_loop fams enc n (s\<lparr>gen_rng := g, gen_discarded := gen_discarded s + 1\<rparr>) = (tc, s')"
      using Suc.prems a by simp
    from Suc.IH [OF this] show ?thesis by auto
  next
    case (Some x)
    obtain i c t where x: "x = (i, c, t)" by (cases x) auto
    then have "t = tc" "gen_discarded s' = gen_discarded s" using Suc.prems a Some by auto
    then show ?thesis using a Some x by auto
  qed
qed simp

end

text \<open>A table whose families stamp the operand kind of exactly their immediate operands, but for the
  codes of an exception list.\<close>

locale stamped_table = family_table +
  fixes exempt :: "code list"
  assumes fams_stamped: "fam \<in> set fams \<Longrightarrow>
    wp fam (\<lambda>r c. case r of None \<Rightarrow> True | Some i \<Rightarrow> imm_stamped i \<or> code_of i \<in> set exempt) (fresh_ctx g)"
begin

lemma attempt_stamped:
  assumes "attempt fams enc g = (Some (i, c, tc), g')"
  shows "imm_stamped i \<or> code_of i \<in> set exempt"
proof -
  from attempt_from [OF assms] obtain fam g1 where
    "fam \<in> set fams" "run_state fam (fresh_ctx g1) = (Some i, c)" by blast
  from wpD [OF fams_stamped [OF this(1)] this(2)] show ?thesis by simp
qed

end

subsection \<open>The table of the source\<close>

definition kUnstamped :: "code list" where
  "kUnstamped = [''MOV_R64_IMM64'', ''VEX_RORX_R32_RM32_IMM8'', ''VEX_RORX_R64_RM64_IMM8''] @ kUnstampedVex"

definition stamp_or :: "code list \<Rightarrow> instruction option \<Rightarrow> bool" where
  "stamp_or cs r \<longleftrightarrow> (case r of None \<Rightarrow> True | Some i \<Rightarrow> imm_stamped i \<or> code_of i \<in> set cs)"

lemma fam_post_both: "wp m fam_post c \<Longrightarrow> wp m (\<lambda>r c. gen_post r c \<and> stamp_or cs r) c"
  by (erule wp_mono) (auto simp: fam_post_def stamp_post_def stamp_or_def split: option.splits)

lemma fam_post_except_both:
  "wp m (fam_post_except ds) c \<Longrightarrow> set ds \<subseteq> set cs \<Longrightarrow> wp m (\<lambda>r c. gen_post r c \<and> stamp_or cs r) c"
  by (erule wp_mono) (auto simp: fam_post_except_def stamp_or_def split: option.splits)

lemmas plain_families = gen_alu_ok gen_test_ok gen_unary_ok gen_shift_ok gen_movx_ok gen_movsxd_ok
  gen_pushpop_ok gen_lea_ok gen_jcc_ok gen_jmp_ok gen_call_ok gen_ret_ok gen_setcc_ok
  gen_cmovcc_ok gen_bt_ok gen_rmsrc_ok gen_bswap_ok gen_loop_ok gen_xchg_ok gen_xadd_cmpxchg_ok
  gen_shld_shrd_ok gen_movbe_crc32_nop_ok gen_moffs_ok gen_string_ops_ok gen_muldiv_ok
  gen_imul_multi_ok gen_simd_shuffle_ok gen_simd_logic_ok gen_simd_pack_ok gen_simd_shift_ok
  gen_simd_fp_ok gen_sse_arith_ok gen_packed_int_ok gen_sse_move_ok gen_privileged_ok
  gen_privileged_movcrdr_ok gen_x87_load_ok gen_x87_store_ok gen_x87_arith_ok gen_x87_unary_ok
  gen_x87_compare_ok gen_x87_move_ok gen_x87_control_ok gen_x87_transcendental_ok

lemma kFamilies_sound:
  "list_all (\<lambda>fam. wp fam (\<lambda>r c. gen_post r c \<and> stamp_or kUnstamped r) (fresh_ctx g)) (kFamilies caps)"
proof -
  have "wp gen_mov (\<lambda>r c. gen_post r c \<and> stamp_or kUnstamped r) (fresh_ctx g)"
    "wp gen_bmi (\<lambda>r c. gen_post r c \<and> stamp_or kUnstamped r) (fresh_ctx g)"
    "wp (gen_vex_simd caps) (\<lambda>r c. gen_post r c \<and> stamp_or kUnstamped r) (fresh_ctx g)"
    by (rule fam_post_except_both [OF gen_mov_ok] fam_post_except_both [OF gen_bmi_ok]
        fam_post_except_both [OF gen_vex_simd_ok]; auto simp: kUnstamped_def)+
  then show ?thesis
    by (simp add: kFamilies_def plain_families [THEN fam_post_both])
qed

lemma kFamilies_member:
  assumes "fam \<in> set (kFamilies caps)"
  shows "wp fam gen_post (fresh_ctx g)" "wp fam (\<lambda>r c. stamp_or kUnstamped r) (fresh_ctx g)"
proof -
  have "wp fam (\<lambda>r c. gen_post r c \<and> stamp_or kUnstamped r) (fresh_ctx g)"
    using kFamilies_sound [of g caps] assms by (simp add: list_all_iff)
  then show "wp fam gen_post (fresh_ctx g)" "wp fam (\<lambda>r c. stamp_or kUnstamped r) (fresh_ctx g)"
    by (auto elim!: wp_mono)
qed

interpretation ft: stamped_table "kFamilies caps" kUnstamped for caps
  using kFamilies_member by unfold_locales (auto simp: kFamilies_def stamp_or_def)

subsection \<open>Properties of the generator\<close>

lemma gen_next_cases:
  "case gen_next (kFamilies caps) enc s of (tc, s') \<Rightarrow>
     (\<exists>i. enc kCodeBase i = EncOk (tc_bytes tc) \<and> tc_bytes tc \<noteq> [] \<and>
        tc_text tc = hex_dump (tc_bytes tc) \<and> case_ok i tc \<and>
        gen_discarded s \<le> gen_discarded s' \<and> gen_discarded s' < gen_discarded s + 200) \<or>
     (tc = fallback_case \<and> gen_discarded s' = gen_discarded s + 200)"
proof -
  obtain tc s' where n: "gen_next (kFamilies caps) enc s = (tc, s')" by fastforce
  then have "next_loop (kFamilies caps) enc 200 s = (tc, s')" by (simp add: gen_next_def)
  from ft.next_loop_sound [OF this] show ?thesis
  proof (elim disjE exE conjE)
    fix i c g g'
    assume a: "attempt (kFamilies caps) enc g = (Some (i, c, tc), g')"
      "gen_discarded s \<le> gen_discarded s'" "gen_discarded s' < gen_discarded s + 200"
    show ?thesis unfolding n using ft.attempt_sound [OF a(1)] a(2,3) by blast
  qed (simp add: n)
qed

text \<open>
  C10: Whatever the random engine, the host and the encoder do, \<open>next\<close> returns the encoding of some
  instruction in a state that satisfies the contract: RSP pinned (but for two families), RDI pinned
  and every base+displacement operand inside the first 128 bytes of the data page, direct branch
  targets inside the code page, a well-tagged FPU state with all exceptions masked and extended
  precision, legal flags; or, after exactly 200 discarded attempts, the NOP fallback.
\<close>
theorem next_wellformed:
  "case gen_next (kFamilies caps) enc s of (tc, s') \<Rightarrow>
     (\<exists>i. enc kCodeBase i = EncOk (tc_bytes tc) \<and> tc_bytes tc \<noteq> [] \<and>
        tc_text tc = hex_dump (tc_bytes tc) \<and> case_ok i tc \<and>
        gen_discarded s \<le> gen_discarded s' \<and> gen_discarded s' < gen_discarded s + 200) \<or>
     (tc = fallback_case \<and> gen_discarded s' = gen_discarded s + 200)"
  by (rule gen_next_cases)

lemma fallback_state_ok: "state_ok fallback_case"
  using default_x87_ok
  by (simp add: state_ok_def fallback_case_def tc_default_def reg_default_def reg_shape_def rflags_ok_def)

lemma gen_next_state_ok: "state_ok (fst (gen_next (kFamilies caps) enc s))"
proof -
  obtain tc s' where n: "next_loop (kFamilies caps) enc 200 s = (tc, s')" by fastforce
  from ft.next_loop_sound [OF n] have "state_ok tc"
    using fallback_state_ok by (auto dest!: ft.attempt_sound(4) simp: case_ok_def)
  then show ?thesis by (simp add: gen_next_def n)
qed

lemma gen_next_bytes:
  "(\<exists>i. enc kCodeBase i = EncOk (tc_bytes (fst (gen_next (kFamilies caps) enc s)))) \<or>
     fst (gen_next (kFamilies caps) enc s) = fallback_case"
  using gen_next_cases [where caps = caps and enc = enc and s = s] by (auto split: prod.splits)

text \<open>
  C35: Whatever family an attempt draws, on every host, the operand kinds of the instruction it builds are
  stamped as the encoder wants them: each immediate operand is stamped exactly once, with the kind that the
  name of its code demands (a byte, 16 or 32 bits, or a byte or 32 bits widened to the operand), the value is
  stored by the setter of that kind, and no other operand is stamped. The codes for which this may fail are
  seven: MOV r64,imm64, the two of RORX and the four of VEX/EVEX SHUFPS and SHUFPD.
\<close>
theorem attempt_stamped_or_listed:
  "case fst (attempt (kFamilies caps) enc g) of None \<Rightarrow> True
   | Some (i, c, tc) \<Rightarrow> imm_stamped i \<or> code_of i \<in> set kUnstamped"
proof -
  obtain r g' where a: "attempt (kFamilies caps) enc g = (r, g')" by fastforce
  show ?thesis
    unfolding a using ft.attempt_stamped [of caps enc g] a
    by (cases r) (auto split: prod.splits)
qed

subsection \<open>Register names can be read back\<close>

definition decode_reg :: "register \<Rightarrow> (width \<times> nat) option" where
  "decode_reg r = (case find_index r kRegs8 of Some k \<Rightarrow> Some (W8, k)
     | None \<Rightarrow> (case find_index r kRegs16 of Some k \<Rightarrow> Some (W16, k)
     | None \<Rightarrow> (case find_index r kRegs32 of Some k \<Rightarrow> Some (W32, k)
     | None \<Rightarrow> map_option (Pair W64) (find_index r kRegs64))))"

lemma decode_reg_tables:
  "list_all (\<lambda>i. list_all (\<lambda>w. decode_reg (reg_of w i) = Some (w, i)) [W8, W16, W32, W64]) [0..<16]"
  by (simp add: decode_reg_def kRegs8_def kRegs16_def kRegs32_def kRegs64_def numeral_eq_Suc)

lemma decode_reg_of: "i < 16 \<Longrightarrow> decode_reg (reg_of w i) = Some (w, i)"
  using decode_reg_tables by (cases w) (auto simp: list_all_iff)

subsection \<open>Operand values in a test case\<close>

definition width_mask :: "width \<Rightarrow> u64" where
  "width_mask w = mask (bits_of w)"

lemma and_mask_64 [simp]: "(x :: u64) AND mask 64 = x"
  by (rule bit_word_eqI) (simp add: bit_and_iff bit_mask_iff)

text \<open>The value an operand reads before execution, at width \<open>w\<close>; memory operands must be relative to
  the pinned base.\<close>

definition operand_value :: "test_case \<Rightarrow> width \<Rightarrow> fact_arg \<Rightarrow> u64 option" where
  "operand_value tc w a = (case a of
     AReg r \<Rightarrow> map_option (\<lambda>(_, k). gpr (tc_initial tc) ! k AND width_mask w) (decode_reg r)
   | AMem (MemBaseDispl b d s) \<Rightarrow>
       Some (of_le_bytes (take (bits_of w div 8) (drop (nat (sint d)) (tc_data_seed tc))))
   | _ \<Rightarrow> None)"

lemma operand_value_simps:
  "i < 16 \<Longrightarrow> operand_value tc w (AR w i) = Some (gpr (tc_initial tc) ! i AND width_mask w)"
  "operand_value tc w (mem_operand d) =
     Some (of_le_bytes (take (bits_of w div 8) (drop (nat (sint d)) (tc_data_seed tc))))"
  by (simp_all add: operand_value_def AR_def mem_operand_def decode_reg_of)

subsection \<open>Branch targets\<close>

definition branch_dest :: "instruction \<Rightarrow> test_case \<Rightarrow> u64 option" where
  "branch_dest i tc = (case build i of
     WithBranch k t \<Rightarrow> Some t
   | With k args \<Rightarrow> (case args of [a] \<Rightarrow> operand_value tc W64 a | _ \<Rightarrow> None)
   | WithString f a r \<Rightarrow> None)"

definition branch_post :: "instruction option \<Rightarrow> ctx \<Rightarrow> bool" where
  "branch_post r c \<longleftrightarrow> ctx_ok c \<and> (case r of None \<Rightarrow> True | Some i \<Rightarrow>
     (\<exists>k t. i = with_branch k t \<and> target_ok t) \<or>
     (\<exists>k n t. i = iwith k [AR W64 n] \<and> n < 16 \<and> force_gpr c ! n = Some t \<and> target_ok t) \<or>
     (\<exists>k n t. i = iwith k [mem_operand (of_nat n)] \<and> n + 8 \<le> 128 \<and> target_ok t \<and>
        force_data_qword c = Some (n, t) \<and> force_data_bytes c = None))"

lemma branch_families:
  "wp gen_jmp branch_post (fresh_ctx g)" "wp gen_call branch_post (fresh_ctx g)"
  "wp gen_jcc branch_post (fresh_ctx g)" "wp gen_loop branch_post (fresh_ctx g)"
  by (auto simp: gen_jmp_def gen_call_def gen_jcc_def gen_loop_def wp_simps gen_simps ctx_ok_unfold Let_def
      branch_post_def intro!: wp_rules) blast+

lemma branch_post_dest:
  assumes "branch_post (Some i) c" "filled c bytes tc"
  shows "\<exists>t. branch_dest i tc = Some t \<and> target_ok t"
proof -
  obtain rs ds where f: "gpr (tc_initial tc) = apply_forced (force_gpr c) (pin_gprs (c_touches_memory c) rs)"
    "tc_data_seed tc = overlay_bytes (force_data_bytes c) (overlay_qword (force_data_qword c) ds)"
    "length ds = kDataWindow" using assms(2) by (auto simp: filled_def)
  consider (direct) k t where "i = with_branch k t" "target_ok t"
    | (reg) k n t where "i = iwith k [AR W64 n]" "n < 16" "force_gpr c ! n = Some t" "target_ok t"
    | (mem) k n t where "i = iwith k [mem_operand (of_nat n)]" "n + 8 \<le> 128" "target_ok t"
        "force_data_qword c = Some (n, t)" "force_data_bytes c = None"
    using assms(1) by (auto simp: branch_post_def)
  then show ?thesis
  proof cases
    case direct
    then show ?thesis by (simp add: branch_dest_def with_branch_def)
  next
    case reg
    then show ?thesis by (simp add: branch_dest_def iwith_def operand_value_simps f width_mask_def)
  next
    case mem
    have n: "nat (sint (of_nat n :: 8 word)) = n"
      using mem(2) by (simp add: signed_of_nat signed_take_bit_int_eq_self)
    have "take 8 (drop n (poke n (le_bytes 8 t) ds)) = le_bytes 8 t"
      using take_drop_poke [of n "le_bytes 8 t" ds] mem(2) f(3) by (simp add: kDataWindow_def)
    then show ?thesis
      using mem f(2,3)
      by (simp add: branch_dest_def iwith_def operand_value_simps n overlay_bytes_def overlay_qword_def
          kDataWindow_def of_le_bytes_le_bytes)
  qed
qed

text \<open>A family followed by the filling of its case, as one iteration of \<^verbatim>\<open>next()\<close> composes them.\<close>

definition family_case :: "instruction option draw \<Rightarrow> u8 list \<Rightarrow> nat stream \<Rightarrow> (instruction \<times> test_case) option" where
  "family_case fam bytes g =
     (case run_state fam (fresh_ctx g) of
        (None, c) \<Rightarrow> None
      | (Some i, c) \<Rightarrow> Some (i, fst (run_state (fill_case c bytes) c)))"

lemma family_case_rule:
  assumes "wp fam P (fresh_ctx g)" "\<And>i c. P (Some i) c \<Longrightarrow> ctx_ok c"
    "\<And>i c tc. P (Some i) c \<Longrightarrow> filled c bytes tc \<Longrightarrow> R i tc"
  shows "case family_case fam bytes g of None \<Rightarrow> True | Some (i, tc) \<Rightarrow> R i tc"
proof -
  obtain r c where r: "run_state fam (fresh_ctx g) = (r, c)" by fastforce
  have P: "P r c" by (rule wpD [OF assms(1) r])
  show ?thesis
  proof (cases r)
    case (Some i)
    obtain tc c' where f: "run_state (fill_case c bytes) c = (tc, c')" by fastforce
    have "ctx_ok c" using assms(2) P Some by simp
    then have "wp (fill_case c bytes) (\<lambda>tc _. filled c bytes tc) c" by (rule wp_fill_case)
    then have "filled c bytes tc" using f by (rule wpD)
    then show ?thesis using assms(3) P r Some f by (simp add: family_case_def)
  qed (simp add: family_case_def r)
qed

text \<open>
  C25: Every branch the direct, indirect, conditional and loop families produce, however its target is
  encoded (displacement, register, or qword in the data page), goes to an address in the code page
  with at least 16 bytes of page left, once the initial state has been filled in.
\<close>
theorem branch_targets_in_page:
  "list_all (\<lambda>fam. case family_case fam bytes g of None \<Rightarrow> True
      | Some (i, tc) \<Rightarrow> \<exists>t. branch_dest i tc = Some t \<and> target_ok t)
     [gen_jcc, gen_jmp, gen_call, gen_loop]"
  by (simp only: list.pred_inject, intro conjI TrueI;
      rule family_case_rule, rule branch_families, simp add: branch_post_def, erule (1) branch_post_dest)

subsection \<open>BSF and BSR\<close>

text \<open>The comparison mask as the comment in \<^verbatim>\<open>types.hpp\<close> describes it, from the instruction and the
  test case alone: the destination of BSF or BSR is left out exactly when the source operand is zero.\<close>

definition kBsfBsr :: "code list" where "kBsfBsr = take 3 (kRmSrcFamily ! 0) @ take 3 (kRmSrcFamily ! 1)"

definition expected_mask :: "instruction \<Rightarrow> test_case \<Rightarrow> u32" where
  "expected_mask i tc = (case build i of
     With k [AReg r, src] \<Rightarrow> (case decode_reg r of
         Some (w, d) \<Rightarrow> if k \<in> set kBsfBsr \<and> operand_value tc w src = Some 0
                        then 0xFFFF AND NOT (push_bit d 1) else 0xFFFF
       | None \<Rightarrow> 0xFFFF)
   | _ \<Rightarrow> 0xFFFF)"

definition rmsrc_rec :: "code \<Rightarrow> width \<Rightarrow> nat \<Rightarrow> fact_arg \<Rightarrow> ctx \<Rightarrow> bool" where
  "rmsrc_rec k w d src c \<longleftrightarrow> d < 16 \<and> w \<noteq> W8 \<and>
     ((\<exists>s. src = AR w s \<and> s < 16 \<and> (k \<in> set kBsfBsr \<longrightarrow> bsf_bsr_src_reg c = Some s)) \<or>
      (\<exists>p. src = mem_operand p \<and> disp_ok p \<and>
         (k \<in> set kBsfBsr \<longrightarrow> bsf_bsr_src_reg c = None \<and> bsf_bsr_src_mem_disp c = Some p))) \<and>
     (if k \<in> set kBsfBsr then bsf_bsr_dest c = Some d \<and> bsf_bsr_width_bytes c = bits_of w div 8
      else bsf_bsr_dest c = None)"

definition rmsrc_post :: "instruction option \<Rightarrow> ctx \<Rightarrow> bool" where
  "rmsrc_post r c \<longleftrightarrow> ctx_ok c \<and> (\<exists>k w d src. r = Some (iwith k [AR w d, src]) \<and> rmsrc_rec k w d src c)"

lemma kRmSrc_codes:
  assumes "w \<noteq> W8"
  shows "kRmSrcFamily ! 0 ! widx16_32_64 w \<in> set kBsfBsr" "kRmSrcFamily ! Suc 0 ! widx16_32_64 w \<in> set kBsfBsr"
    "0 \<le> p \<Longrightarrow> p \<le> 4 \<Longrightarrow> p \<noteq> 0 \<Longrightarrow> p \<noteq> 1 \<Longrightarrow> kRmSrcFamily ! nat p ! widx16_32_64 w \<notin> set kBsfBsr"
proof -
  have "p \<in> {2, 3, 4}" if "0 \<le> p" "p \<le> 4" "p \<noteq> 0" "p \<noteq> 1" using that by simp arith
  then show "0 \<le> p \<Longrightarrow> p \<le> 4 \<Longrightarrow> p \<noteq> 0 \<Longrightarrow> p \<noteq> 1 \<Longrightarrow> kRmSrcFamily ! nat p ! widx16_32_64 w \<notin> set kBsfBsr"
    using assms
    by (cases w) (auto simp: kBsfBsr_def kRmSrcFamily_def sf_rmsrc_def widx16_32_64_def numeral_eq_Suc)
qed (use assms in \<open>cases w; simp add: kBsfBsr_def kRmSrcFamily_def sf_rmsrc_def widx16_32_64_def numeral_eq_Suc\<close>)+

lemma rmsrc_post_reg:
  assumes "ctx_ok c" "d < 16" "s < 16" "w \<noteq> W8" "k \<in> set kBsfBsr \<Longrightarrow> bsf_bsr_src_reg c = Some s"
    "k \<in> set kBsfBsr \<Longrightarrow> bsf_bsr_dest c = Some d \<and> bsf_bsr_width_bytes c = bits_of w div 8"
    "k \<notin> set kBsfBsr \<Longrightarrow> bsf_bsr_dest c = None"
  shows "rmsrc_post (Some (iwith k [AR w d, AR w s])) c"
proof -
  have "rmsrc_rec k w d (AR w s) c" using assms by (auto simp: rmsrc_rec_def)
  then show ?thesis using assms(1) unfolding rmsrc_post_def by blast
qed

lemma rmsrc_post_mem:
  assumes "ctx_ok c" "d < 16" "disp_ok p" "w \<noteq> W8"
    "k \<in> set kBsfBsr \<Longrightarrow> bsf_bsr_src_reg c = None \<and> bsf_bsr_src_mem_disp c = Some p"
    "k \<in> set kBsfBsr \<Longrightarrow> bsf_bsr_dest c = Some d \<and> bsf_bsr_width_bytes c = bits_of w div 8"
    "k \<notin> set kBsfBsr \<Longrightarrow> bsf_bsr_dest c = None"
  shows "rmsrc_post (Some (iwith k [AR w d, mem_operand p])) c"
proof -
  have "rmsrc_rec k w d (mem_operand p) c" using assms by (auto simp: rmsrc_rec_def)
  then show ?thesis using assms(1) unfolding rmsrc_post_def by blast
qed

lemma gen_rmsrc_post: "wp gen_rmsrc rmsrc_post (fresh_ctx g)"
  by (auto simp: gen_rmsrc_def wp_simps gen_simps ctx_ok_unfold Let_def bits_of_bytes kRmSrc_codes
      intro!: wp_rules rmsrc_post_reg rmsrc_post_mem)

lemma operand_zero_width:
  "w \<noteq> W8 \<Longrightarrow> (if 0 < bits_of w div 8 \<and> bits_of w div 8 < 8
     then x AND (push_bit (8 * (bits_of w div 8)) 1 - 1) else x) = x AND width_mask w"
  using and_mask_64 [of x] by (cases w) (simp_all add: width_mask_def mask_eq_exp_minus_1)

lemma bits_div8: "w \<noteq> W8 \<Longrightarrow> 0 < bits_of w div 8 \<and> bits_of w div 8 \<le> 8"
  by (cases w) simp_all

lemma of_le_bytes_masked:
  assumes "w \<noteq> W8" "length bs = bits_of w div 8"
  shows "(of_le_bytes bs :: u64) AND width_mask w = of_le_bytes bs"
proof (rule bit_word_eqI)
  fix n assume n: "n < LENGTH(64)"
  have "bit (width_mask w) n = (n < bits_of w)"
    using n by (simp add: width_mask_def bit_mask_iff)
  moreover have "bit (of_le_bytes bs :: u64) n \<Longrightarrow> n < bits_of w"
    using assms n by (cases w) (auto simp: bit_of_le_bytes)
  ultimately show "bit ((of_le_bytes bs :: u64) AND width_mask w) n = bit (of_le_bytes bs :: u64) n"
    by (auto simp: bit_and_iff)
qed

lemma rmsrc_mask:
  assumes "rmsrc_post (Some i) c" "filled c bytes tc"
  shows "tc_gpr_compare_mask tc = expected_mask i tc"
proof -
  obtain k w d src where i: "i = iwith k [AR w d, src]" and r: "rmsrc_rec k w d src c"
    using assms(1) by (auto simp: rmsrc_post_def)
  have dw: "d < 16" "w \<noteq> W8" using r by (simp_all add: rmsrc_rec_def)
  have dec: "decode_reg (reg_of w d) = Some (w, d)" by (rule decode_reg_of [OF dw(1)])
  have m: "tc_gpr_compare_mask tc = gpr_mask c (gpr (tc_initial tc)) (tc_data_seed tc)"
    and len: "length (tc_data_seed tc) = kDataWindow"
    using assms(2) by (auto simp: filled_def state_ok_def)
  have e: "expected_mask i tc =
      (if k \<in> set kBsfBsr \<and> operand_value tc w src = Some 0 then 0xFFFF AND NOT (push_bit d 1) else 0xFFFF)"
    by (simp add: expected_mask_def i iwith_def AR_def dec)
  show ?thesis
  proof (cases "k \<in> set kBsfBsr")
    case False
    then have "bsf_bsr_dest c = None" using r by (simp add: rmsrc_rec_def)
    then show ?thesis using False by (simp add: m e gpr_mask_def)
  next
    case True
    then have b: "bsf_bsr_dest c = Some d" "bsf_bsr_width_bytes c = bits_of w div 8"
      using r by (simp_all add: rmsrc_rec_def)
    have "bsf_source c (gpr (tc_initial tc)) (tc_data_seed tc) = operand_value tc w src"
    proof -
      consider (reg) s where "src = AR w s" "s < 16" "bsf_bsr_src_reg c = Some s"
        | (mem) p where "src = mem_operand p" "disp_ok p" "bsf_bsr_src_reg c = None" "bsf_bsr_src_mem_disp c = Some p"
        using r True by (auto simp: rmsrc_rec_def)
      then show ?thesis
      proof cases
        case reg
        then show ?thesis
          by (simp add: bsf_source_def Let_def b(2) operand_zero_width [OF dw(2)] operand_value_simps)
      next
        case mem
        have "sint p < 128" using sint_lt [of p] by simp
        then have fits: "nat (sint p) + bits_of w div 8 \<le> kDataWindow"
          using bits_div8 [OF dw(2)] unfolding kDataWindow_def by linarith
        have "length (take (bits_of w div 8) (drop (nat (sint p)) (tc_data_seed tc))) = bits_of w div 8"
          using fits len by simp
        note masked = of_le_bytes_masked [OF dw(2) this]
        show ?thesis
          using mem fits len masked
          by (simp add: bsf_source_def Let_def b(2) operand_zero_width [OF dw(2)] operand_value_simps
              disp_offset)
      qed
    qed
    then show ?thesis using True b by (simp add: m e gpr_mask_def)
  qed
qed

text \<open>
  C21: For every instruction of the BSF/BSR/POPCNT/LZCNT/TZCNT family, register or memory source, at
  every width, the comparison mask of the finished test case leaves out the destination register
  exactly when the instruction is BSF or BSR and its source operand is zero at that width in the
  finished initial state.
\<close>
theorem bsf_mask_exact:
  "case family_case gen_rmsrc bytes g of None \<Rightarrow> True
   | Some (i, tc) \<Rightarrow> tc_gpr_compare_mask tc = expected_mask i tc"
  by (rule family_case_rule, rule gen_rmsrc_post, simp add: rmsrc_post_def, erule (1) rmsrc_mask)

subsection \<open>FLDCW\<close>

definition fldcw_loads :: "instruction \<Rightarrow> test_case \<Rightarrow> u16 option" where
  "fldcw_loads i tc = (case build i of
     With k [AMem (MemBaseDispl b d s)] \<Rightarrow>
       if k = ''FLDCW_M2BYTE'' then Some (of_le_bytes (take 2 (drop (nat (sint d)) (tc_data_seed tc))))
       else None
   | _ \<Rightarrow> None)"

definition planted_cw :: "8 word \<Rightarrow> forced_bytes \<Rightarrow> bool" where
  "planted_cw d fb \<longleftrightarrow> planted_ok fb \<and> fb_offset fb = nat (sint d) \<and> fb_size fb = 2 \<and>
     (\<exists>rc ic. take 2 (fb_value fb) = le_bytes 2 (ucast (fldcw_word rc ic) :: u64))"

definition fldcw_post :: "instruction option \<Rightarrow> ctx \<Rightarrow> bool" where
  "fldcw_post r c \<longleftrightarrow> ctx_ok c \<and> (case r of None \<Rightarrow> True | Some i \<Rightarrow>
     code_of i \<noteq> ''FLDCW_M2BYTE'' \<or>
     (\<exists>d fb. i = iwith ''FLDCW_M2BYTE'' [mem_operand d] \<and> disp_ok d \<and>
        force_data_bytes c = Some fb \<and> planted_cw d fb))"

lemma wp_plant_cw:
  assumes "disp_ok d" "\<And>fb. planted_cw d fb \<Longrightarrow> Q () (c\<lparr>force_data_bytes := Some fb\<rparr>)"
  shows "wp (plant_int d (ucast (fldcw_word rc ic)) 2) Q c"
  by (rule wp_plant_int [OF assms(1)]) (use assms(2) in \<open>auto simp: planted_cw_def\<close>)

lemma planted_cw_ok: "planted_cw d fb \<Longrightarrow> fb_offset fb + fb_size fb \<le> kDataWindow"
  "planted_cw d fb \<Longrightarrow> fb_size fb \<le> 10" "planted_cw d fb \<Longrightarrow> length (fb_value fb) = 10"
  by (simp_all add: planted_cw_def planted_ok_def)

lemma fldcw_post_simps:
  "k \<noteq> ''FLDCW_M2BYTE'' \<Longrightarrow> fldcw_post (Some (iwith k args)) c = ctx_ok c"
  "fldcw_post (Some (iwith ''FLDCW_M2BYTE'' [mem_operand d])) c =
     (ctx_ok c \<and> disp_ok d \<and> (\<exists>fb. force_data_bytes c = Some fb \<and> planted_cw d fb))"
  by (auto simp: fldcw_post_def gen_simps) (auto simp: iwith_def mem_operand_def)

lemma gen_x87_control_fldcw: "wp gen_x87_control fldcw_post (fresh_ctx g)"
  by (auto simp: gen_x87_control_def wp_simps gen_simps ctx_ok_unfold Let_def fldcw_post_simps planted_cw_ok
      intro!: wp_rules wp_plant_cw)

lemma fldcw_word_pinned: "fldcw_word rc ic AND 0x033F = 0x033F"
proof -
  have "fldcw_word rc ic = 0x037F OR (push_bit 10 (word_of_int rc) OR (if ic then 0x1000 else 0))"
    by (simp only: fldcw_word_def or.assoc)
  moreover have "((0x037F OR w) :: u16) AND 0x033F = 0x033F" for w
  proof (rule bit_word_eqI)
    fix n assume "n < LENGTH(16)"
    then have "n \<in> {0,1,2,3,4,5,6,7,8,9,10,11,12,13,14,15}" by simp arith
    then show "bit ((0x037F OR w) AND (0x033F :: u16)) n = bit (0x033F :: u16) n"
      by (auto simp: bit_and_iff bit_or_iff)
  qed
  ultimately show ?thesis by simp
qed

lemma fldcw_filled:
  assumes "fldcw_post (Some i) c" "filled c bytes tc"
  shows "case fldcw_loads i tc of None \<Rightarrow> True | Some cw \<Rightarrow> cw AND 0x033F = 0x033F"
proof (cases "code_of i = ''FLDCW_M2BYTE''")
  case False
  then show ?thesis
    by (auto simp: fldcw_loads_def code_of_def split: build.splits list.splits fact_arg.splits mem_operand.splits)
next
  case True
  then obtain d fb where i: "i = iwith ''FLDCW_M2BYTE'' [mem_operand d]" and
    f: "disp_ok d" "force_data_bytes c = Some fb" "planted_cw d fb"
    using assms(1) by (auto simp: fldcw_post_def)
  obtain rc ic where b: "take 2 (fb_value fb) = le_bytes 2 (ucast (fldcw_word rc ic) :: u64)"
    and o: "fb_offset fb = nat (sint d)" "fb_size fb = 2" "length (fb_value fb) = 10"
    and w: "nat (sint d) + 2 \<le> kDataWindow"
    using f(3) by (auto simp: planted_cw_def planted_ok_def)
  obtain sd where s: "tc_data_seed tc = overlay_bytes (Some fb) sd" "length sd = kDataWindow"
    using assms(2) f(2) by (auto simp: filled_def)
  have "take 2 (drop (nat (sint d)) (tc_data_seed tc)) = take 2 (fb_value fb)"
    using take_drop_poke [of "nat (sint d)" "take 2 (fb_value fb)" sd] o w s
    by (simp add: overlay_bytes_def)
  moreover have "(of_le_bytes (le_bytes 2 (ucast (fldcw_word rc ic) :: u64)) :: u16) = fldcw_word rc ic"
  proof -
    have "le_bytes 2 (ucast (fldcw_word rc ic) :: u64) = le_bytes 2 (fldcw_word rc ic)"
      by (auto simp: le_bytes_def intro!: bit_word_eqI) (auto simp: bit_ucast_iff bit_drop_bit_eq)
    then show ?thesis by (simp add: of_le_bytes_le_bytes)
  qed
  ultimately show ?thesis
    using fldcw_word_pinned [of rc ic]
    by (simp add: i fldcw_loads_def iwith_def mem_operand_def b)
qed

text \<open>
  C26: Every control word the generated FLDCW loads keeps all six exception masks set and the
  precision control at extended: the two bytes it reads from the finished data page always are a
  word with these bits set, so no exception is unmasked for a later test case.
\<close>
theorem fldcw_keeps_masks:
  "case family_case gen_x87_control bytes g of None \<Rightarrow> True
   | Some (i, tc) \<Rightarrow> (case fldcw_loads i tc of None \<Rightarrow> True | Some cw \<Rightarrow> cw AND 0x033F = 0x033F)"
  by (rule family_case_rule, rule gen_x87_control_fldcw, simp add: fldcw_post_def, erule (1) fldcw_filled)

subsection \<open>VEX and EVEX against the host\<close>

definition vex_post :: "host_caps \<Rightarrow> instruction option \<Rightarrow> ctx \<Rightarrow> bool" where
  "vex_post caps r c \<longleftrightarrow> (case r of None \<Rightarrow> True | Some i \<Rightarrow>
     avx caps \<and> avx2 caps \<and> (evex_usable caps \<or> take 4 (code_of i) = ''VEX_''))"

lemma emit_vex_code: "wp (emit_vex e) (\<lambda>r c. \<exists>i. r = Some i \<and> code_of i = vex_code e) c"
  by (cases "vex_shape_of e") (auto simp: emit_vex_def wp_simps gen_simps Let_def intro!: wp_rules)

lemma gen_vex_simd_host: "wp (gen_vex_simd caps) (vex_post caps) (fresh_ctx g)"
proof (cases "avx caps \<and> avx2 caps")
  case True
  have emit: "wp (emit_vex e) (vex_post caps) c"
    if "e \<in> set kVexSimd" "\<not> vex_evex e \<or> evex_usable caps" for e c
  proof (rule wp_mono [OF emit_vex_code])
    fix x t assume "\<exists>i. x = Some i \<and> code_of i = vex_code e"
    moreover have "if vex_evex e then take 5 (vex_code e) = ''EVEX_'' else take 4 (vex_code e) = ''VEX_''"
      using kVexSimd_evex_flag that(1) by (simp add: list_all_iff)
    ultimately show "vex_post caps x t" using that(2) True by (auto simp: vex_post_def)
  qed
  have "wp (pick_vex (evex_usable caps) 8)
      (\<lambda>entry. wp (case entry of None \<Rightarrow> ret_none | Some e \<Rightarrow> emit_vex e) (vex_post caps)) c" for c
    by (rule wp_pick_vex) (auto simp: wp_simps vex_post_def intro: emit)
  then show ?thesis using True by (simp add: gen_vex_simd_def wp_simps)
next
  case False
  then show ?thesis by (auto simp: gen_vex_simd_def wp_simps vex_post_def)
qed

text \<open>
  C36: On every host, the VEX/EVEX family produces nothing without AVX and AVX2 and anything but VEX codes
  only when all four AVX-512 features are reported. Its immediates are stamped, once and as the byte that
  the code's name demands, on the operand that is the immediate, for every code but SHUFPS and SHUFPD in
  their four forms, and for those they never are: the operand index asked for is the fourth, which the
  stamping turns into the third.
\<close>
theorem vex_within_host:
  "case fst (run_state (gen_vex_simd caps) (fresh_ctx g)) of None \<Rightarrow> True
   | Some i \<Rightarrow> avx caps \<and> avx2 caps \<and> (evex_usable caps \<or> take 4 (code_of i) = ''VEX_'') \<and>
       (imm_stamped i \<longleftrightarrow> code_of i \<notin> set kUnstampedVex)"
proof -
  obtain r c where r: "run_state (gen_vex_simd caps) (fresh_ctx g) = (r, c)" by fastforce
  have "vex_post caps r c" by (rule wpD [OF gen_vex_simd_host r])
  moreover have "fam_post_except kUnstampedVex r c" by (rule wpD [OF gen_vex_simd_ok r])
  ultimately show ?thesis by (auto simp: r vex_post_def fam_post_except_def split: option.splits)
qed

subsection \<open>The division family\<close>

text \<open>The dividend the family plants in RAX (and RDX, above 8 bits) has the quotient and remainder it
  was built from, so the division of the planted values does not overflow.\<close>

text \<open>
  C38: The dividend built for a biased division, read as RDX:RAX, has exactly the chosen quotient and
  remainder for every nonzero divisor and every remainder below it: the two carry-propagating
  additions lose nothing, so the planted 64-bit division never overflows its quotient.
\<close>
theorem dividend_divides_back:
  assumes "divisor \<noteq> 0"
  shows "case dividend quot divisor (r mod divisor) of (lo, hi) \<Rightarrow>
     (unat hi * 2 ^ 64 + unat lo) div unat divisor = unat quot \<and>
     (unat hi * 2 ^ 64 + unat lo) mod unat divisor = unat (r mod divisor)"
proof -
  have "r mod divisor < divisor \<or> r mod divisor = 0"
    using assms by (simp add: word_mod_less_divisor word_gt_0)
  then show ?thesis
    using div_in_range [OF assms, of "r mod divisor" _ _ quot] by (auto split: prod.splits)
qed

theorem dividend_divides_back_witness:
  "case dividend 0xFFFFFFFFFFFFFFFF 0xFFFFFFFFFFFFFFFF (5 mod 0xFFFFFFFFFFFFFFFF) of (lo, hi) \<Rightarrow>
     (unat hi * 2 ^ 64 + unat lo) div unat (0xFFFFFFFFFFFFFFFF :: u64) = unat (0xFFFFFFFFFFFFFFFF :: u64)"
  using dividend_divides_back [of "0xFFFFFFFFFFFFFFFF" "0xFFFFFFFFFFFFFFFF" 5] by (simp split: prod.splits)

subsection \<open>The instruction text\<close>

fun parse_hex :: "string \<Rightarrow> u8 list" where
  "parse_hex (h # l # rest) =
     word_of_nat (16 * unhex h + unhex l) # (case rest of [] \<Rightarrow> [] | _ # cs \<Rightarrow> parse_hex cs)"
| "parse_hex _ = []"

definition byte_hex :: "u8 \<Rightarrow> string" where
  "byte_hex b = [hex_digit (unat (drop_bit 4 b)), hex_digit (unat (b AND 0xF))]"

lemma hex_dump_Cons:
  "hex_dump [] = []" "hex_dump [b] = byte_hex b"
  "bs \<noteq> [] \<Longrightarrow> hex_dump (b # bs) = byte_hex b @ '' '' @ hex_dump bs"
proof -
  have shift: "map (\<lambda>i. (if 0 < i then '' '' else []) @ byte_hex ((b # bs) ! i)) [Suc 0..<Suc n]
      = map (\<lambda>i. '' '' @ byte_hex (bs ! i)) [0..<n]" for b n and bs :: "u8 list"
    unfolding map_Suc_upt [symmetric] by simp
  have all: "hex_dump bs = concat (map (\<lambda>i. (if 0 < i then '' '' else []) @ byte_hex (bs ! i)) [0..<length bs])" for bs
    by (simp add: hex_dump_def byte_hex_def)
  have cons: "hex_dump (b # bs) = byte_hex b @ concat (map (\<lambda>i. '' '' @ byte_hex (bs ! i)) [0..<length bs])" for b bs
    unfolding all list.size add_Suc_right add_0_right
    by (subst upt_conv_Cons, simp, simp only: list.map concat.simps shift) simp
  show "hex_dump [] = []" "hex_dump [b] = byte_hex b" by (simp_all add: all)
  assume "bs \<noteq> []"
  then obtain x xs where bs: "bs = x # xs" by (cases bs) auto
  have "concat (map (\<lambda>i. '' '' @ byte_hex (bs ! i)) [0..<length bs]) = '' '' @ hex_dump bs"
    unfolding cons [of x xs] bs
    by (simp add: upt_conv_Cons del: upt_Suc) (simp add: map_Suc_upt [symmetric] comp_def del: map_Suc_upt upt_Suc)
  with cons show "hex_dump (b # bs) = byte_hex b @ '' '' @ hex_dump bs" by simp
qed

lemma parse_byte: "word_of_nat (16 * unhex (hex_digit (unat (drop_bit 4 b))) + unhex (hex_digit (unat (b AND 0xF)))) = (b :: u8)"
proof -
  have m: "(b AND 0xF) = take_bit 4 b" by (simp add: take_bit_eq_mask mask_eq_exp_minus_1)
  have "unat (take_bit 4 b) = take_bit 4 (unat b)" by (rule unsigned_take_bit_eq)
  then have l: "unat (b AND 0xF) = unat b mod 16" unfolding m by (simp only: take_bit_eq_mod) simp
  have "unat (drop_bit 4 b) = drop_bit 4 (take_bit LENGTH(8) (unat b))" by (rule unsigned_drop_bit_eq)
  also have "take_bit LENGTH(8) (unat b) = unat b" by (rule take_bit_nat_eq_self) (use unsigned_less [of b] in simp)
  also have "drop_bit 4 (unat b) = unat b div 2 ^ 4" by (rule drop_bit_eq_div)
  finally have h: "unat (drop_bit 4 b) = unat b div 16" by (simp only: power_numeral_reduce) simp
  have "unat b < 2 ^ LENGTH(8)" by (rule unsigned_less)
  then have "unat b div 16 < 16" by (simp add: less_mult_imp_div_less)
  then show ?thesis by (simp add: l h)
qed

text \<open>
  The instruction text of a test case determines its bytes: parsing the hex dump back gives the
  byte sequence, for every sequence.
\<close>
theorem hex_dump_roundtrip: "parse_hex (hex_dump b) = b"
proof (induction b)
  case (Cons b bs)
  show ?case
  proof (cases "bs = []")
    case True
    then show ?thesis by (simp add: hex_dump_Cons byte_hex_def parse_byte [simplified])
  next
    case False
    then show ?thesis using Cons by (simp add: hex_dump_Cons byte_hex_def parse_byte [simplified])
  qed
qed (simp add: hex_dump_Cons)

end
