(* ===== verification/HwContext.thy ===== *)
theory HwContext
  imports Contract Format
begin

section \<open>The hardware lane: the thread context\<close>

text \<open>
  The conversions of \<^verbatim>\<open>src/lanes/hardware_lane.cpp\<close> between \<^verbatim>\<open>RegState\<close> and the Windows \<^verbatim>\<open>CONTEXT\<close> of
  the victim's thread, with its FXSAVE area at byte level, and the mapping of debug exceptions to
  stop reasons. The interesting part is the x87 tag word: the context holds one in-use bit per
  physical register, and the full tags are recreated from the contents when it is read back. The
  round trip is exact on the states whose tag word is the recreated one, and on no others.
\<close>

subsection \<open>CONTEXT\<close>

text \<open>The FXSAVE area: a floating-point register is a slot of 16 bytes.\<close>

record flt_save =
  ControlWord :: u16
  StatusWord :: u16
  TagWord :: u8
  FloatRegisters :: "u8 list list"
  XmmRegisters :: "(u64 \<times> u64) list"

record thread_context =
  Rax :: u64
  Rcx :: u64
  Rdx :: u64
  Rbx :: u64
  Rsp :: u64
  Rbp :: u64
  Rsi :: u64
  Rdi :: u64
  R8 :: u64
  R9 :: u64
  R10 :: u64
  R11 :: u64
  R12 :: u64
  R13 :: u64
  R14 :: u64
  R15 :: u64
  Rip :: u64
  EFlags :: u32
  FltSave :: flt_save

definition apply_context_to_gpr :: "thread_context \<Rightarrow> reg_state \<Rightarrow> thread_context" where
  "apply_context_to_gpr c r = c\<lparr>
     Rax := gpr r ! 0, Rcx := gpr r ! 1, Rdx := gpr r ! 2, Rbx := gpr r ! 3,
     Rsp := gpr r ! 4, Rbp := gpr r ! 5, Rsi := gpr r ! 6, Rdi := gpr r ! 7,
     R8 := gpr r ! 8, R9 := gpr r ! 9, R10 := gpr r ! 10, R11 := gpr r ! 11,
     R12 := gpr r ! 12, R13 := gpr r ! 13, R14 := gpr r ! 14, R15 := gpr r ! 15\<rparr>"

definition apply_context_to_xmm :: "thread_context \<Rightarrow> reg_state \<Rightarrow> thread_context" where
  "apply_context_to_xmm c r =
     c\<lparr>FltSave := (FltSave c)\<lparr>XmmRegisters := map (\<lambda>i. (xmm_lo r ! i, xmm_hi r ! i)) [0..<16]\<rparr>\<rparr>"

text \<open>The abridged tag byte: one bit per physical register that is not empty.\<close>

definition abridge :: "u16 \<Rightarrow> u8" where
  "abridge tw = fold (\<lambda>phys a. if drop_bit (2 * phys) tw AND 3 \<noteq> 3 then a OR push_bit phys 1 else a) [0..<8] 0"

definition float_slot :: "u64 \<Rightarrow> u16 \<Rightarrow> u8 list" where
  "float_slot sg se = le_bytes 8 sg @ le_bytes 2 se @ replicate 6 0"

definition apply_context_to_x87 :: "thread_context \<Rightarrow> reg_state \<Rightarrow> thread_context" where
  "apply_context_to_x87 c r = c\<lparr>FltSave := (FltSave c)\<lparr>
     ControlWord := control_word (x87 r),
     StatusWord := status_word (x87 r),
     TagWord := abridge (tag_word (x87 r)),
     FloatRegisters := map (\<lambda>i. float_slot (signif (x87 r) ! i) (signexp (x87 r) ! i)) [0..<8]\<rparr>\<rparr>"

definition read_gpr_from_context :: "thread_context \<Rightarrow> reg_state \<Rightarrow> reg_state" where
  "read_gpr_from_context c r = r\<lparr>
     gpr := [Rax c, Rcx c, Rdx c, Rbx c, Rsp c, Rbp c, Rsi c, Rdi c,
             R8 c, R9 c, R10 c, R11 c, R12 c, R13 c, R14 c, R15 c],
     rip := Rip c, rflags := ucast (EFlags c)\<rparr>"

definition read_xmm_from_context :: "thread_context \<Rightarrow> reg_state \<Rightarrow> reg_state" where
  "read_xmm_from_context c r = r\<lparr>
     xmm_lo := map (\<lambda>i. fst (XmmRegisters (FltSave c) ! i)) [0..<16],
     xmm_hi := map (\<lambda>i. snd (XmmRegisters (FltSave c) ! i)) [0..<16]\<rparr>"

text \<open>The tag of one physical register: empty, or recreated from the value of its stack slot.\<close>

definition recreate_tag :: "flt_save \<Rightarrow> u64 list \<Rightarrow> u16 list \<Rightarrow> nat \<Rightarrow> u8" where
  "recreate_tag f sgs ses phys =
     (if drop_bit phys (TagWord f) AND 1 \<noteq> 0
      then (let tp = int (unat (drop_bit 11 (StatusWord f) AND 7));
                st = nat ((int phys - tp) AND 7)
            in x87_classify_tag (ses ! st) (sgs ! st))
      else 3)"

definition read_x87_from_context :: "thread_context \<Rightarrow> reg_state \<Rightarrow> reg_state" where
  "read_x87_from_context c r =
     (let f = FltSave c;
          sgs = map (\<lambda>i. of_le_bytes (take 8 (FloatRegisters f ! i))) [0..<8];
          ses = map (\<lambda>i. of_le_bytes (take 2 (drop 8 (FloatRegisters f ! i)))) [0..<8]
      in r\<lparr>x87 := \<lparr>signif = sgs, signexp = ses, control_word = ControlWord f, status_word = StatusWord f,
                   tag_word = tags_word (recreate_tag f sgs ses)\<rparr>\<rparr>)"

text \<open>What \<^verbatim>\<open>run_one\<close> writes into the context before the step, and what it reads after it.\<close>

definition start_context :: "thread_context \<Rightarrow> reg_state \<Rightarrow> thread_context" where
  "start_context c r = (apply_context_to_x87 (apply_context_to_xmm (apply_context_to_gpr c r) r) r)\<lparr>
     Rip := kCodeBase, EFlags := ucast ((rflags r AND kCompareFlagsMask) OR 0x100 OR 0x2)\<rparr>"

definition read_context :: "thread_context \<Rightarrow> reg_state \<Rightarrow> reg_state" where
  "read_context c r = read_x87_from_context c (read_xmm_from_context c (read_gpr_from_context c r))"

subsection \<open>The round trip\<close>

lemma bit_abridge: "bit (abridge tw) p = (p < 8 \<and> tag_field tw p \<noteq> 3)"
proof -
  have f: "(drop_bit (2 * q) tw AND 3 \<noteq> 3) = (tag_field tw q \<noteq> 3)" for q
  proof -
    have "drop_bit (2 * q) tw AND 3 = ucast (tag_field tw q)"
      by (rule bit_word_eqI) (auto simp: bit_tag_field bit_and_iff bit_ucast_iff bit_drop_bit_eq)
    moreover have "unat (tag_field tw q) < 2 ^ LENGTH(8)" by (rule unsigned_less)
    then have "unat (ucast (tag_field tw q) :: u16) = unat (tag_field tw q)"
      by (simp add: unsigned_ucast_eq take_bit_nat_eq_self)
    ultimately show ?thesis by (simp add: word_unat_eq_iff)
  qed
  have "bit (fold (\<lambda>phys a. if drop_bit (2 * phys) tw AND 3 \<noteq> 3 then a OR push_bit phys 1 else a) [0..<n] (0 :: u8)) p =
      (p < n \<and> tag_field tw p \<noteq> 3)" if "n \<le> 8" for n
    using that by (induction n) (auto simp: f bit_or_iff bit_exp_iff less_Suc_eq)
  from this [of 8] show ?thesis by (simp add: abridge_def)
qed

text \<open>The tags recreated from the context: empty slots stay empty, the others are classified.\<close>

lemma recreate_tag_eq:
  assumes "phys < 8"
  shows "recreate_tag f sgs ses phys =
     (if bit (TagWord f) phys
      then (let st = (phys + (8 - unat (drop_bit 11 (StatusWord f) AND 7))) mod 8
            in x87_classify_tag (ses ! st) (sgs ! st))
      else 3)"
proof -
  define tp where "tp = unat (drop_bit 11 (StatusWord f) AND 7)"
  have "drop_bit 11 (StatusWord f) AND 7 \<le> 7" by (rule word_and_le1)
  then have tp: "tp \<le> 7" by (simp add: tp_def word_le_nat_alt)
  have "(int phys - int tp) mod 8 = int ((phys + (8 - tp)) mod 8)"
  proof -
    have "int (phys + (8 - tp)) = int phys - int tp + 8" using tp by simp
    moreover have "(int phys - int tp + 8) mod 8 = (int phys - int tp) mod 8" by (rule mod_add_self2)
    ultimately show ?thesis by (metis of_nat_mod of_nat_numeral)
  qed
  moreover have "(drop_bit phys (TagWord f) AND 1 \<noteq> 0) = bit (TagWord f) phys"
    by (auto simp: and_one_eq mod_2_eq_odd bit_iff_odd_drop_bit)
  ultimately show ?thesis by (simp add: recreate_tag_def tp_def [symmetric] Let_def)
qed

lemma recreate_tag_less: "recreate_tag f sgs ses phys < 4"
proof -
  have "x87_classify_tag a b < 4" for a b
    using x87_classify_tag_less_3 [of a b] by (simp add: word_less_nat_alt)
  then show ?thesis by (simp add: recreate_tag_def Let_def)
qed

text \<open>The stack slot of a physical register undoes the physical register of a stack slot.\<close>

lemma slot_of_phys:
  fixes tp :: nat
  assumes "tp \<le> 7" "phys < 8"
  shows "(tp + (phys + (8 - tp)) mod 8) mod 8 = phys"
proof -
  have "(tp + (phys + (8 - tp)) mod 8) mod 8 = (phys + 8) mod 8"
    using assms(1) by (simp add: mod_add_right_eq)
  then show ?thesis using assms(2) by simp
qed

lemma phys_of_slot:
  fixes tp :: nat
  assumes "tp \<le> 7" "i < 8"
  shows "((tp + i) mod 8 + (8 - tp)) mod 8 = i"
proof -
  have "((tp + i) mod 8 + (8 - tp)) mod 8 = ((tp + i) + (8 - tp)) mod 8" by (rule mod_add_left_eq)
  also have "(tp + i) + (8 - tp) = i + 8" using assms(1) by simp
  finally have "((tp + i) mod 8 + (8 - tp)) mod 8 = (i + 8) mod 8" .
  then show ?thesis using assms(2) by simp
qed

lemma top_of_word: "unat (x87_top_of x) = unat (drop_bit 11 (status_word x) AND 7)"
  "unat (x87_top_of x) \<le> 7"
proof -
  have "drop_bit 11 (status_word x) AND 7 \<le> 7" by (rule word_and_le1)
  then have l: "unat (drop_bit 11 (status_word x) AND 7) \<le> 7" by (simp add: word_le_nat_alt)
  then show "unat (x87_top_of x) = unat (drop_bit 11 (status_word x) AND 7)"
    by (simp add: x87_top_of_def unsigned_ucast_eq take_bit_nat_eq_self)
  with l show "unat (x87_top_of x) \<le> 7" by simp
qed

lemma float_slot_parts [simp]:
  "of_le_bytes (take 8 (float_slot sg se)) = sg"
  "of_le_bytes (take 2 (drop 8 (float_slot sg se))) = se"
  by (simp_all add: float_slot_def)

lemma read_x87_well_tagged: "well_tagged (x87 (read_x87_from_context c r))"
proof -
  define f where "f = FltSave c"
  define sgs :: "u64 list" where "sgs = map (\<lambda>i. of_le_bytes (take 8 (FloatRegisters f ! i))) [0..<8]"
  define ses :: "u16 list" where "ses = map (\<lambda>i. of_le_bytes (take 2 (drop 8 (FloatRegisters f ! i)))) [0..<8]"
  define x where "x = \<lparr>signif = sgs, signexp = ses, control_word = ControlWord f, status_word = StatusWord f,
      tag_word = tags_word (recreate_tag f sgs ses)\<rparr>"
  have "x87_tag_of_st x (int i) = 3 \<or> x87_tag_of_st x (int i) = x87_classify_tag (signexp x ! i) (signif x ! i)"
    if "i < 8" for i
    using phys_of_slot [OF top_of_word(2) [of x] that] top_of_word(1) [of x]
    by (simp add: x87_tag_of_st_eq st_phys_def x_def tag_field_tags_word [OF recreate_tag_less] recreate_tag_eq)
  then have "well_tagged x" by (simp add: well_tagged_def)
  then show ?thesis by (simp add: read_x87_from_context_def Let_def x_def f_def sgs_def ses_def)
qed

lemma read_apply_x87:
  assumes "x87_shape (x87 r)" "FltSave c = FltSave (apply_context_to_x87 d r)"
  shows "x87 (read_x87_from_context c q) = (x87 r)\<lparr>tag_word := tags_word (\<lambda>phys.
     if tag_field (tag_word (x87 r)) phys = 3 then 3
     else let st = (phys + (8 - unat (x87_top_of (x87 r)))) mod 8
          in x87_classify_tag (signexp (x87 r) ! st) (signif (x87 r) ! st))\<rparr>"
proof -
  define x where "x = x87 r"
  have F: "FloatRegisters (FltSave c) = map (\<lambda>i. float_slot (signif x ! i) (signexp x ! i)) [0..<8]"
    by (simp add: assms(2) apply_context_to_x87_def x_def del: upt_rec_numeral)
  have l: "map (\<lambda>i. of_le_bytes (take 8 (FloatRegisters (FltSave c) ! i))) [0..<8] = signif x"
    "map (\<lambda>i. of_le_bytes (take 2 (drop 8 (FloatRegisters (FltSave c) ! i)))) [0..<8] = signexp x"
    using assms(1) unfolding F by (auto simp: x_def x87_shape_def simp del: upt_rec_numeral intro!: nth_equalityI)
  have w: "ControlWord (FltSave c) = control_word x" "StatusWord (FltSave c) = status_word x"
    "TagWord (FltSave c) = abridge (tag_word x)"
    by (simp_all add: assms(2) apply_context_to_x87_def x_def)
  have "x87 (read_x87_from_context c q) = x\<lparr>tag_word := tags_word (recreate_tag (FltSave c) (signif x) (signexp x))\<rparr>"
    unfolding read_x87_from_context_def Let_def l w by simp
  moreover have "tags_word (recreate_tag (FltSave c) (signif x) (signexp x)) = tags_word (\<lambda>phys.
     if tag_field (tag_word x) phys = 3 then 3
     else let st = (phys + (8 - unat (x87_top_of x))) mod 8
          in x87_classify_tag (signexp x ! st) (signif x ! st))"
  proof (rule tags_word_cong)
    fix p assume p: "p < (8 :: nat)"
    show "recreate_tag (FltSave c) (signif x) (signexp x) p = (if tag_field (tag_word x) p = 3 then 3
        else let st = (p + (8 - unat (x87_top_of x))) mod 8 in x87_classify_tag (signexp x ! st) (signif x ! st))"
      unfolding recreate_tag_eq [OF p] w bit_abridge top_of_word(1) using p by (cases "tag_field (tag_word x) p = 3") simp_all
  qed
  ultimately show ?thesis unfolding x_def by (simp only:)
qed

lemma well_tagged_phys:
  "well_tagged x \<longleftrightarrow> (\<forall>phys < 8. tag_field (tag_word x) phys = 3 \<or>
     tag_field (tag_word x) phys =
       (let st = (phys + (8 - unat (x87_top_of x))) mod 8 in x87_classify_tag (signexp x ! st) (signif x ! st)))"
    (is "_ \<longleftrightarrow> (\<forall>phys < 8. ?P phys)")
proof -
  have slot: "st_phys x ((phys + (8 - unat (x87_top_of x))) mod 8) = phys" if "phys < 8" for phys
    using slot_of_phys [OF top_of_word(2) that] by (simp add: st_phys_def)
  have phys: "(st_phys x i + (8 - unat (x87_top_of x))) mod 8 = i" if "i < 8" for i
    using phys_of_slot [OF top_of_word(2) that] by (simp add: st_phys_def)
  show ?thesis
  proof
    assume w: "well_tagged x"
    show "\<forall>phys < 8. ?P phys"
    proof (intro allI impI)
      fix p assume p: "p < (8 :: nat)"
      have "(p + (8 - unat (x87_top_of x))) mod 8 < 8" by simp
      then show "?P p" using w slot [OF p] unfolding well_tagged_def x87_tag_of_st_eq Let_def by metis
    qed
  next
    assume a: "\<forall>phys < 8. ?P phys"
    show "well_tagged x"
      unfolding well_tagged_def x87_tag_of_st_eq
    proof (intro allI impI)
      fix i assume "i < (8 :: nat)"
      then show "tag_field (tag_word x) (st_phys x i) = 3 \<or>
          tag_field (tag_word x) (st_phys x i) = x87_classify_tag (signexp x ! i) (signif x ! i)"
        using a [rule_format, of "st_phys x i"] phys [of i] by (simp add: Let_def)
    qed
  qed
qed

lemma x87_roundtrip_iff:
  assumes "x87_shape (x87 r)" "FltSave c = FltSave (apply_context_to_x87 d r)"
  shows "x87 (read_x87_from_context c q) = x87 r \<longleftrightarrow> well_tagged (x87 r)"
proof -
  define x where "x = x87 r"
  define t where "t phys = (if tag_field (tag_word x) phys = 3 then 3
     else let st = (phys + (8 - unat (x87_top_of x))) mod 8
          in x87_classify_tag (signexp x ! st) (signif x ! st))" for phys
  have t: "t p < 4" for p
    using x87_classify_tag_less_3 by (auto simp: t_def Let_def word_less_nat_alt intro: less_trans)
  have "x87 (read_x87_from_context c q) = x\<lparr>tag_word := tags_word t\<rparr>"
    unfolding x_def t_def [abs_def] by (rule read_apply_x87 [OF assms])
  then have "x87 (read_x87_from_context c q) = x \<longleftrightarrow> tags_word t = tag_word x" by (cases x) simp
  also have "\<dots> \<longleftrightarrow> (\<forall>p < 8. t p = tag_field (tag_word x) p)"
  proof -
    have T: "tag_field (tags_word t) p = t p" if "p < 8" for p by (rule tag_field_tags_word) (rule t, rule that)
    show ?thesis
    proof
      assume "\<forall>p < 8. t p = tag_field (tag_word x) p"
      then show "tags_word t = tag_word x" by (intro tag_field_eqI) (simp add: T)
    qed (use T in metis)
  qed
  also have "\<dots> \<longleftrightarrow> well_tagged x"
  proof -
    have "(t p = tag_field (tag_word x) p) = (tag_field (tag_word x) p = 3 \<or> tag_field (tag_word x) p =
        (let st = (p + (8 - unat (x87_top_of x))) mod 8 in x87_classify_tag (signexp x ! st) (signif x ! st)))" for p
      by (auto simp: t_def Let_def)
    then show ?thesis unfolding well_tagged_phys by simp
  qed
  finally show ?thesis by (simp add: x_def)
qed

lemma start_flags: "ucast (ucast ((f AND kCompareFlagsMask) OR 0x102 :: u64) :: u32) =
    (f AND kCompareFlagsMask) OR (0x102 :: u64)"
proof (rule bit_word_eqI)
  fix n assume n: "n < LENGTH(64)"
  have m: "kCompareFlagsMask = 0xCD5" by (simp add: kCompareFlagsMask_def)
  have c: "(0xCD5 :: u64) = ucast (0xCD5 :: u16)" "(0x102 :: u64) = ucast (0x102 :: u16)" by simp_all
  have "\<not> bit (0xCD5 :: u64) n" "\<not> bit (0x102 :: u64) n" if "32 \<le> n"
    unfolding c bit_ucast_iff using that by (auto dest: bit_imp_le_length)
  then show "bit (ucast (ucast ((f AND kCompareFlagsMask) OR 0x102) :: u32) :: u64) n =
      bit ((f AND kCompareFlagsMask) OR (0x102 :: u64)) n"
    using n by (cases "n < 32") (auto simp: m bit_ucast_iff bit_or_iff bit_and_iff or.assoc)
qed

lemma start_FltSave: "FltSave (start_context c r) =
    FltSave (apply_context_to_x87 (apply_context_to_xmm (apply_context_to_gpr c r) r) r)"
  by (simp add: start_context_def)

lemma list16:
  assumes "length xs = 16"
  shows "[xs ! 0, xs ! 1, xs ! 2, xs ! 3, xs ! 4, xs ! 5, xs ! 6, xs ! 7,
    xs ! 8, xs ! 9, xs ! 10, xs ! 11, xs ! 12, xs ! 13, xs ! 14, xs ! 15] = xs"
  using assms by (auto simp: eval_nat_numeral length_Suc_conv)

lemma read_start_context:
  assumes "reg_shape r"
  shows "read_context (start_context c r) q = q\<lparr>gpr := gpr r, rip := kCodeBase,
      rflags := (rflags r AND kCompareFlagsMask) OR 0x102,
      xmm_lo := xmm_lo r, xmm_hi := xmm_hi r, x87 := x87 r\<rparr> \<longleftrightarrow> well_tagged (x87 r)"
proof -
  define s where "s = start_context c r"
  have len: "length (gpr r) = 16" "length (xmm_lo r) = 16" "length (xmm_hi r) = 16" "x87_shape (x87 r)"
    using assms by (auto simp: reg_shape_def)
  have g: "[Rax s, Rcx s, Rdx s, Rbx s, Rsp s, Rbp s, Rsi s, Rdi s,
      R8 s, R9 s, R10 s, R11 s, R12 s, R13 s, R14 s, R15 s] = gpr r"
    using list16 [OF len(1)]
    by (simp add: s_def start_context_def apply_context_to_x87_def apply_context_to_xmm_def apply_context_to_gpr_def)
  have X: "XmmRegisters (FltSave s) = map (\<lambda>i. (xmm_lo r ! i, xmm_hi r ! i)) [0..<16]"
    by (simp add: s_def start_context_def apply_context_to_x87_def apply_context_to_xmm_def del: upt_rec_numeral)
  have x: "map (\<lambda>i. fst (XmmRegisters (FltSave s) ! i)) [0..<16] = xmm_lo r"
    "map (\<lambda>i. snd (XmmRegisters (FltSave s) ! i)) [0..<16] = xmm_hi r"
    unfolding X using len by (auto simp del: upt_rec_numeral intro!: nth_equalityI)
  have f: "Rip s = kCodeBase" "ucast (EFlags s) = (rflags r AND kCompareFlagsMask) OR 0x102"
    by (simp_all add: s_def start_context_def start_flags)
  have "read_xmm_from_context s (read_gpr_from_context s q) = q\<lparr>gpr := gpr r, rip := kCodeBase,
      rflags := (rflags r AND kCompareFlagsMask) OR 0x102, xmm_lo := xmm_lo r, xmm_hi := xmm_hi r\<rparr>"
    by (simp only: read_gpr_from_context_def read_xmm_from_context_def g x f)
  moreover have "read_x87_from_context s p = p\<lparr>x87 := x87 (read_x87_from_context s p)\<rparr>" for p
    by (simp add: read_x87_from_context_def Let_def)
  ultimately have "read_context s q = q\<lparr>gpr := gpr r, rip := kCodeBase,
      rflags := (rflags r AND kCompareFlagsMask) OR 0x102, xmm_lo := xmm_lo r, xmm_hi := xmm_hi r,
      x87 := x87 (read_x87_from_context s q)\<rparr>"
    unfolding read_context_def by (simp add: read_x87_from_context_def Let_def)
  then have "read_context s q = q\<lparr>gpr := gpr r, rip := kCodeBase,
      rflags := (rflags r AND kCompareFlagsMask) OR 0x102, xmm_lo := xmm_lo r, xmm_hi := xmm_hi r,
      x87 := x87 r\<rparr> \<longleftrightarrow> x87 (read_x87_from_context s q) = x87 r"
    by (cases q) auto
  also have "\<dots> \<longleftrightarrow> well_tagged (x87 r)"
    by (rule x87_roundtrip_iff [OF len(4)]) (unfold s_def, rule start_FltSave)
  finally show ?thesis by (simp only: s_def)
qed

text \<open>
  C17: Writing a test case's registers into the victim's thread context and reading the context back
  gives the same sixteen general registers, XMM registers and x87 state, RIP at the code page, and
  the compared flags with the trap flag and the reserved bit added. This holds exactly when the x87
  tag word is the one the recreation rule derives: the abridged tag byte loses nothing on those
  states and something on all others.
\<close>
theorem context_roundtrip:
  assumes "reg_shape r"
  shows "read_context (start_context c r) q = q\<lparr>gpr := gpr r, rip := kCodeBase,
      rflags := (rflags r AND kCompareFlagsMask) OR 0x102,
      xmm_lo := xmm_lo r, xmm_hi := xmm_hi r, x87 := x87 r\<rparr> \<longleftrightarrow> well_tagged (x87 r)"
  by (rule read_start_context [OF assms])

definition blank_context :: thread_context where
  "blank_context = \<lparr>Rax = 0, Rcx = 0, Rdx = 0, Rbx = 0, Rsp = 0, Rbp = 0, Rsi = 0, Rdi = 0, R8 = 0, R9 = 0,
     R10 = 0, R11 = 0, R12 = 0, R13 = 0, R14 = 0, R15 = 0, Rip = 0, EFlags = 0,
     FltSave = \<lparr>ControlWord = 0, StatusWord = 0, TagWord = 0, FloatRegisters = [], XmmRegisters = []\<rparr>\<rparr>"

lemma default_well_tagged: "well_tagged x87_default"
proof -
  have "tag_field 0xFFFF p = 3" if "p < 8" for p
  proof (rule bit_word_eqI)
    fix n assume "n < LENGTH(8)"
    have "bit (0xFFFF :: u16) k" if "k < 16" for k
    proof -
      have "(0xFFFF :: u16) = - 1" by simp
      then show ?thesis using that by (simp only:) simp
    qed
    then show "bit (tag_field 0xFFFF p) n = bit (3 :: u8) n" using that by (auto simp: bit_tag_field)
  qed
  then show ?thesis by (simp add: well_tagged_def x87_tag_of_st_eq x87_default_def)
qed

theorem context_roundtrip_witness:
  "read_context (start_context blank_context reg_default) reg_default =
     reg_default\<lparr>gpr := gpr reg_default, rip := kCodeBase, rflags := (rflags reg_default AND kCompareFlagsMask) OR 0x102,
       xmm_lo := xmm_lo reg_default, xmm_hi := xmm_hi reg_default, x87 := x87 reg_default\<rparr>"
proof -
  have "reg_shape reg_default" by (simp add: reg_shape_def reg_default_def x87_shape_def x87_default_def)
  from context_roundtrip [OF this] show ?thesis using default_well_tagged by (simp add: reg_default_def)
qed

text \<open>
  Whatever the victim leaves in its context, the x87 state the hardware lane reports has a tag word
  consistent with its contents under the recreation rule, so it satisfies the invariant the
  generator establishes for the states it hands out.
\<close>
theorem hardware_reports_well_tagged: "well_tagged (x87 (read_context c r))"
  by (simp add: read_context_def read_x87_well_tagged)

subsection \<open>Exceptions\<close>

text \<open>The exception codes the lane names; any other code is \<open>Exception_other\<close>.\<close>

datatype exception_code =
  EXCEPTION_SINGLE_STEP | EXCEPTION_ACCESS_VIOLATION | EXCEPTION_ARRAY_BOUNDS_EXCEEDED
  | EXCEPTION_IN_PAGE_ERROR | EXCEPTION_ILLEGAL_INSTRUCTION | EXCEPTION_PRIV_INSTRUCTION
  | EXCEPTION_INT_DIVIDE_BY_ZERO | EXCEPTION_INT_OVERFLOW | EXCEPTION_BREAKPOINT
  | Exception_other u32

record exception_record =
  ExceptionCode :: exception_code
  NumberParameters :: u32
  ExceptionInformation :: "u64 list"
  ExceptionAddress :: u64

definition gp_shaped :: "exception_record \<Rightarrow> bool" where
  "gp_shaped rec \<longleftrightarrow> 2 \<le> NumberParameters rec \<and> ExceptionInformation rec ! 1 = 0xFFFFFFFFFFFFFFFF"

definition map_exception :: "exception_record \<Rightarrow> stop_reason" where
  "map_exception rec = (case ExceptionCode rec of
     EXCEPTION_SINGLE_STEP \<Rightarrow> Stop_ok
   | EXCEPTION_ACCESS_VIOLATION \<Rightarrow> if gp_shaped rec then Stop_gp else Stop_pf
   | EXCEPTION_ARRAY_BOUNDS_EXCEEDED \<Rightarrow> Stop_pf
   | EXCEPTION_IN_PAGE_ERROR \<Rightarrow> Stop_pf
   | EXCEPTION_ILLEGAL_INSTRUCTION \<Rightarrow> Stop_ud
   | EXCEPTION_PRIV_INSTRUCTION \<Rightarrow> Stop_gp
   | EXCEPTION_INT_DIVIDE_BY_ZERO \<Rightarrow> Stop_de
   | EXCEPTION_INT_OVERFLOW \<Rightarrow> Stop_de
   | EXCEPTION_BREAKPOINT \<Rightarrow> Stop_bp
   | Exception_other code \<Rightarrow> Stop_other)"

text \<open>The detail line of \<^verbatim>\<open>run_one\<close>, written through its 96-byte buffer.\<close>

definition exception_detail :: "exception_record \<Rightarrow> string" where
  "exception_detail rec =
     (if ExceptionCode rec = EXCEPTION_ACCESS_VIOLATION \<and> map_exception rec = Stop_gp then
        snprintf 96 (''gp (access violation, no real fault address) (rip=0x'' @ fmt_X 16 (ExceptionAddress rec) @ '')'')
      else if ExceptionCode rec = EXCEPTION_ACCESS_VIOLATION \<and> 2 \<le> NumberParameters rec then
        snprintf 96 (''av '' @ (if ExceptionInformation rec ! 0 = 8 then ''exec''
                              else if ExceptionInformation rec ! 0 = 1 then ''write'' else ''read'') @
          '' at 0x'' @ fmt_X 16 (ExceptionInformation rec ! 1) @
          '' (rip=0x'' @ fmt_X 16 (ExceptionAddress rec) @ '')'')
      else (case ExceptionCode rec of
        Exception_other code \<Rightarrow> snprintf 96 (''hardware exception 0x'' @ fmt_X 8 code)
      | _ \<Rightarrow> ''''))"

end
