(* ===== verification/Compare.thy ===== *)
theory Compare
  imports Contract Format
begin

section \<open>The comparator\<close>

text \<open>
  \<^verbatim>\<open>diff_pair\<close> of \<^verbatim>\<open>src/main.cpp\<close>: what counts as a divergence between two lanes, and the lines
  it is reported with. \<open>lane_agree\<close> is the abstract specification of agreement; the lemmas show
  that \<open>diff_pair\<close> reports nothing exactly when the specification holds, which parts of the
  outcome it looks at, and that no reported line is cut by its 160-byte buffer.
\<close>

record divergence =
  pairing :: string
  lines :: "string list"

definition kNames :: "string list" where
  "kNames = [''rax'', ''rcx'', ''rdx'', ''rbx'', ''rsp'', ''rbp'', ''rsi'', ''rdi'',
             ''r8'', ''r9'', ''r10'', ''r11'', ''r12'', ''r13'', ''r14'', ''r15'']"

subsection \<open>Lines\<close>

abbreviation buf160 :: "string \<Rightarrow> string" where "buf160 \<equiv> snprintf 160"

definition gpr_lines :: "reg_state \<Rightarrow> reg_state \<Rightarrow> u32 \<Rightarrow> string list" where
  "gpr_lines ra rb gpr_compare_mask =
     concat (map (\<lambda>i.
       if drop_bit i gpr_compare_mask AND 1 = 0 then []
       else if gpr ra ! i \<noteq> gpr rb ! i
         then [buf160 (kNames ! i @ '': '' @ fmt_X 16 (gpr ra ! i) @ '' vs '' @ fmt_X 16 (gpr rb ! i))]
         else []) [0..<16])"

definition x87_lines :: "x87_state \<Rightarrow> x87_state \<Rightarrow> string list" where
  "x87_lines xa xb =
     (if control_word xa \<noteq> control_word xb
        then [buf160 (''x87 cw: '' @ fmt_X 4 (control_word xa) @ '' vs '' @ fmt_X 4 (control_word xb))]
        else []) @
     (let sa = status_word xa AND kX87StatusMask; sb = status_word xb AND kX87StatusMask in
        if sa \<noteq> sb
        then [buf160 (''x87 sw: '' @ fmt_X 4 sa @ '' vs '' @ fmt_X 4 sb @
                      '' (differing bits '' @ fmt_X 4 (sa XOR sb) @ '')'')]
        else []) @
     (if tag_word xa \<noteq> tag_word xb
        then [buf160 (''x87 tw: '' @ fmt_X 4 (tag_word xa) @ '' vs '' @ fmt_X 4 (tag_word xb))]
        else []) @
     concat (map (\<lambda>i.
       if x87_tag_of_st xa (int i) = 3 \<or> x87_tag_of_st xb (int i) = 3 then []
       else if signexp xa ! i \<noteq> signexp xb ! i \<or> signif xa ! i \<noteq> signif xb ! i
         then [buf160 (''st'' @ fmt_u i @ '': '' @ fmt_X 4 (signexp xa ! i) @ '':'' @ fmt_X 16 (signif xa ! i) @
                       '' vs '' @ fmt_X 4 (signexp xb ! i) @ '':'' @ fmt_X 16 (signif xb ! i))]
         else []) [0..<8])"

definition state_lines :: "lane_outcome \<Rightarrow> lane_outcome \<Rightarrow> u64 \<Rightarrow> u32 \<Rightarrow> string list" where
  "state_lines a b fm gm =
     gpr_lines (after a) (after b) gm @
     (if rip (after a) \<noteq> rip (after b)
        then [buf160 (''rip: '' @ fmt_X 16 (rip (after a)) @ '' vs '' @ fmt_X 16 (rip (after b)))]
        else []) @
     (let fa = rflags (after a) AND fm; fb = rflags (after b) AND fm in
        if fa \<noteq> fb then [buf160 (''flags: '' @ fmt_X 3 fa @ '' vs '' @ fmt_X 3 fb)] else []) @
     (if data_after (after a) \<noteq> data_after (after b) then [''data window differs''] else []) @
     (if captures_x87 a \<and> captures_x87 b then x87_lines (x87 (after a)) (x87 (after b)) else [])"

definition diff_lines :: "lane_outcome \<Rightarrow> lane_outcome \<Rightarrow> u64 \<Rightarrow> u32 \<Rightarrow> string list" where
  "diff_lines a b fm gm =
     (if stop a \<noteq> stop b
        then [buf160 (''stop: '' @ stop_name (stop a) @ '' vs '' @ stop_name (stop b))] else []) @
     (if stop a = Stop_ok \<and> stop b = Stop_ok then state_lines a b fm gm else [])"

definition diff_pair ::
  "string \<Rightarrow> lane_outcome \<Rightarrow> lane_outcome \<Rightarrow> u64 \<Rightarrow> u32 \<Rightarrow> divergence list \<Rightarrow> divergence list" where
  "diff_pair label a b fm gm out =
     (if \<not> setup_ok a \<or> \<not> setup_ok b then out
      else let d = \<lparr>pairing = label, lines = diff_lines a b fm gm\<rparr>
           in if lines d \<noteq> [] then out @ [d] else out)"

subsection \<open>The specification of agreement\<close>

definition gpr_agree :: "reg_state \<Rightarrow> reg_state \<Rightarrow> u32 \<Rightarrow> bool" where
  "gpr_agree ra rb gm \<longleftrightarrow> (\<forall>i \<in> {0..<16}. bit gm i \<longrightarrow> gpr ra ! i = gpr rb ! i)"

definition x87_agree :: "x87_state \<Rightarrow> x87_state \<Rightarrow> bool" where
  "x87_agree xa xb \<longleftrightarrow> control_word xa = control_word xb \<and> status_word xa = status_word xb \<and>
     tag_word xa = tag_word xb \<and>
     (\<forall>i \<in> {0..<8}. x87_tag_of_st xa (int i) \<noteq> 3 \<longrightarrow>
        signexp xa ! i = signexp xb ! i \<and> signif xa ! i = signif xb ! i)"

definition state_agree :: "lane_outcome \<Rightarrow> lane_outcome \<Rightarrow> u64 \<Rightarrow> u32 \<Rightarrow> bool" where
  "state_agree a b fm gm \<longleftrightarrow>
     gpr_agree (after a) (after b) gm \<and> rip (after a) = rip (after b) \<and>
     rflags (after a) AND fm = rflags (after b) AND fm \<and> data_after (after a) = data_after (after b) \<and>
     (captures_x87 a \<longrightarrow> captures_x87 b \<longrightarrow> x87_agree (x87 (after a)) (x87 (after b)))"

definition lane_agree :: "lane_outcome \<Rightarrow> lane_outcome \<Rightarrow> u64 \<Rightarrow> u32 \<Rightarrow> bool" where
  "lane_agree a b fm gm \<longleftrightarrow> stop a = stop b \<and> (stop a = Stop_ok \<longrightarrow> state_agree a b fm gm)"

subsection \<open>What the lines say\<close>

lemma mask_bit_test: "(drop_bit i (gm :: u32) AND 1 = 0) \<longleftrightarrow> \<not> bit gm i"
  by (simp add: bit_iff_odd_drop_bit and_one_eq even_iff_mod_2_eq_zero)

lemma buf160_nonempty: "(buf160 (c # s) = []) = False"
  by (simp add: snprintf_def)

lemma gpr_lines_Nil: "gpr_lines ra rb gm = [] \<longleftrightarrow> gpr_agree ra rb gm"
  by (auto simp: gpr_lines_def gpr_agree_def mask_bit_test)

lemma x87_tag_cong: "status_word xa = status_word xb \<Longrightarrow> tag_word xa = tag_word xb \<Longrightarrow>
    x87_tag_of_st xa i = x87_tag_of_st xb i"
  by (simp add: x87_tag_of_st_def x87_top_of_def)

lemma kX87StatusMask_all [simp]: "sw AND kX87StatusMask = sw"
proof -
  have "kX87StatusMask = mask 16" by (simp add: kX87StatusMask_def mask_numeral)
  show ?thesis unfolding \<open>kX87StatusMask = mask 16\<close>
    by (rule bit_word_eqI) (simp add: bit_and_iff bit_mask_iff)
qed

lemma x87_lines_Nil: "x87_lines xa xb = [] \<longleftrightarrow> x87_agree xa xb"
  by (auto simp: x87_lines_def x87_agree_def Let_def x87_tag_cong [of xa xb])

lemma state_lines_Nil: "state_lines a b fm gm = [] \<longleftrightarrow> state_agree a b fm gm"
  by (auto simp: state_lines_def state_agree_def Let_def gpr_lines_Nil x87_lines_Nil)

lemma diff_lines_Nil: "diff_lines a b fm gm = [] \<longleftrightarrow> lane_agree a b fm gm"
  by (auto simp: diff_lines_def lane_agree_def state_lines_Nil)

lemma diff_pair_out: "diff_pair l a b fm gm out = out @ diff_pair l a b fm gm []"
  by (simp add: diff_pair_def Let_def)

lemma diff_pair_lines: "d \<in> set (diff_pair l a b fm gm []) \<Longrightarrow> pairing d = l \<and> lines d = diff_lines a b fm gm"
  by (auto simp: diff_pair_def Let_def split: if_splits)

lemma diff_pair_Nil: "diff_pair l a b fm gm [] = [] \<longleftrightarrow> (setup_ok a \<and> setup_ok b \<longrightarrow> lane_agree a b fm gm)"
  by (auto simp: diff_pair_def Let_def diff_lines_Nil)

lemma gpr_agree_sym: "gpr_agree ra rb gm = gpr_agree rb ra gm"
  by (auto simp: gpr_agree_def)

lemma x87_agree_sym: "x87_agree xa xb \<Longrightarrow> x87_agree xb xa"
  by (auto simp: x87_agree_def x87_tag_cong [of xa xb])

lemma lane_agree_sym: "lane_agree a b fm gm \<Longrightarrow> lane_agree b a fm gm"
  by (auto simp: lane_agree_def state_agree_def gpr_agree_sym x87_agree_sym)

lemma lane_agree_refl: "lane_agree a a fm gm"
  by (simp add: lane_agree_def state_agree_def gpr_agree_def x87_agree_def)

lemma lane_agree_weaken:
  assumes "lane_agree a b fm gm" "fm' AND NOT fm = 0" "\<And>i. bit gm' i \<Longrightarrow> bit gm i"
  shows "lane_agree a b fm' gm'"
proof -
  have sub: "x AND fm' = (x AND fm) AND fm'" for x
  proof (rule bit_word_eqI)
    fix n assume n: "n < LENGTH(64)"
    have "\<not> bit (fm' AND NOT fm) n" using assms(2) by simp
    then show "bit (x AND fm') n \<longleftrightarrow> bit ((x AND fm) AND fm') n"
      using n by (auto simp: bit_and_iff bit_not_iff)
  qed
  have "rflags (after a) AND fm' = rflags (after b) AND fm'"
    if "rflags (after a) AND fm = rflags (after b) AND fm"
    using that sub by metis
  then show ?thesis
    using assms(1,3) by (auto simp: lane_agree_def state_agree_def gpr_agree_def)
qed

subsection \<open>Line lengths\<close>

lemma length_buf160: "length (buf160 s) \<le> length s"
  by (simp add: snprintf_def)

lemma length_buf160_le: "length s \<le> k \<Longrightarrow> length (buf160 s) \<le> k"
  using length_buf160 [of s] by simp

lemma length_kNames: "i < 16 \<Longrightarrow> length (kNames ! i) \<le> 3"
proof -
  have "\<forall>s \<in> set kNames. length s \<le> 3" by (simp add: kNames_def)
  moreover have "length kNames = 16" by (simp add: kNames_def)
  ultimately show "i < 16 \<Longrightarrow> ?thesis" by (metis nth_mem)
qed

lemma length_stop_name: "length (stop_name s) \<le> 6"
  by (cases s) simp_all

lemma gpr_lines_length: "s \<in> set (gpr_lines ra rb gm) \<Longrightarrow> length s \<le> 60"
proof -
  have "length (kNames ! i @ '': '' @ fmt_X 16 x @ '' vs '' @ fmt_X 16 y) \<le> 60" if "i < 16" for i and x y :: u64
    using length_kNames [OF that] length_fmt_X64 [of 16 x] length_fmt_X64 [of 16 y] by simp
  then show "s \<in> set (gpr_lines ra rb gm) \<Longrightarrow> ?thesis"
    by (auto simp: gpr_lines_def intro!: length_buf160_le split: if_splits)
qed

lemma x87_lines_length: "s \<in> set (x87_lines xa xb) \<Longrightarrow> length s \<le> 60"
proof -
  have w: "length (fmt_X 4 v) \<le> 4" for v :: u16 by (rule length_fmt_X16) simp
  have q: "length (fmt_X 16 v) \<le> 16" for v :: u64 by (rule length_fmt_X64) simp
  have u: "length (fmt_u i) \<le> 1" if "i < 8" for i by (rule length_fmt_u) (use that in simp_all)
  have st: "length (''st'' @ fmt_u i @ '': '' @ fmt_X 4 a @ '':'' @ fmt_X 16 b @ '' vs '' @ fmt_X 4 c @
              '':'' @ fmt_X 16 d) \<le> 60" if "i < 8" for i and a c :: u16 and b d :: u64
    using u [OF that] w [of a] w [of c] q [of b] q [of d] by simp
  have two: "length (''x87 cw: '' @ fmt_X 4 a @ '' vs '' @ fmt_X 4 b) \<le> 60"
    "length (''x87 tw: '' @ fmt_X 4 a @ '' vs '' @ fmt_X 4 b) \<le> 60"
    "length (''x87 sw: '' @ fmt_X 4 a @ '' vs '' @ fmt_X 4 b @ '' (differing bits '' @ fmt_X 4 c @ '')'') \<le> 60"
    for a b c :: u16
    using w [of a] w [of b] w [of c] by simp_all
  show "s \<in> set (x87_lines xa xb) \<Longrightarrow> ?thesis"
    by (auto simp: x87_lines_def Let_def simp del: length_append append.simps
        intro!: length_buf160_le st two split: if_splits)
qed

lemma state_lines_length: "s \<in> set (state_lines a b fm gm) \<Longrightarrow> length s \<le> 60"
proof -
  have q: "length (fmt_X 16 v) \<le> 16" "length (fmt_X 3 v) \<le> 16" for v :: u64
    by (rule length_fmt_X64, simp)+
  have "length (''rip: '' @ fmt_X 16 x @ '' vs '' @ fmt_X 16 y) \<le> 60"
    "length (''flags: '' @ fmt_X 3 x @ '' vs '' @ fmt_X 3 y) \<le> 60" for x y :: u64
    using q [of x] q [of y] by simp_all
  then show "s \<in> set (state_lines a b fm gm) \<Longrightarrow> ?thesis"
    by (auto simp: state_lines_def Let_def simp del: length_append append.simps
        intro!: length_buf160_le dest: gpr_lines_length x87_lines_length split: if_splits)
qed

lemma diff_lines_length: "s \<in> set (diff_lines a b fm gm) \<Longrightarrow> length s \<le> 60"
proof -
  have "length (''stop: '' @ stop_name x @ '' vs '' @ stop_name y) \<le> 60" for x y
    using length_stop_name [of x] length_stop_name [of y] by simp
  then show "s \<in> set (diff_lines a b fm gm) \<Longrightarrow> ?thesis"
    by (auto simp: diff_lines_def simp del: length_append append.simps
        intro!: length_buf160_le dest: state_lines_length split: if_splits)
qed

subsection \<open>Properties of the comparator\<close>

text \<open>
  C12: Two lanes that both set up are reported exactly when they disagree: same stop reason and, if
  both retired, same masked GPRs, RIP, masked flags, data window and (where both capture it) x87
  state up to empty slots. A report is one divergence with the label and all differing lines; a lane
  that failed to set up is never reported.
\<close>
theorem diff_pair_spec:
  "diff_pair label a b fm gm out =
     (if setup_ok a \<and> setup_ok b
      then (if lane_agree a b fm gm then out else out @ [\<lparr>pairing = label, lines = diff_lines a b fm gm\<rparr>])
      else out)"
  by (auto simp: diff_pair_def diff_lines_Nil)

text \<open>
  The verdict does not depend on the order of the two lanes.
\<close>
theorem diff_pair_symmetric:
  "(diff_pair l a b fm gm [] = []) = (diff_pair l' b a fm gm [] = [])"
  using lane_agree_sym [of a b fm gm] lane_agree_sym [of b a fm gm] by (auto simp: diff_pair_Nil)

lemma gpr_lines_cong: "gpr ra = gpr ra' \<Longrightarrow> gpr rb = gpr rb' \<Longrightarrow> gpr_lines ra rb gm = gpr_lines ra' rb' gm"
  unfolding gpr_lines_def by (simp only:)

text \<open>
  The comparator never looks at the XMM registers: whatever the two lanes leave in them, the
  report is the same.
\<close>
theorem diff_pair_ignores_xmm:
  "diff_pair l (a\<lparr>after := (after a)\<lparr>xmm_lo := u, xmm_hi := v\<rparr>\<rparr>)
     (b\<lparr>after := (after b)\<lparr>xmm_lo := u', xmm_hi := v'\<rparr>\<rparr>) fm gm out = diff_pair l a b fm gm out"
proof -
  let ?a = "a\<lparr>after := (after a)\<lparr>xmm_lo := u, xmm_hi := v\<rparr>\<rparr>"
  let ?b = "b\<lparr>after := (after b)\<lparr>xmm_lo := u', xmm_hi := v'\<rparr>\<rparr>"
  have "gpr_lines (after ?a) (after ?b) gm = gpr_lines (after a) (after b) gm"
    by (rule gpr_lines_cong) simp_all
  then have "state_lines ?a ?b fm gm = state_lines a b fm gm"
    unfolding state_lines_def by simp
  then have "diff_lines ?a ?b fm gm = diff_lines a b fm gm"
    unfolding diff_lines_def by simp
  then show ?thesis unfolding diff_pair_def by simp
qed

text \<open>
  No line of a report is cut by the 160-byte buffer it is formatted into: every line has at most
  60 characters, whatever the register values.
\<close>
theorem diff_pair_lines_fit:
  "list_all (\<lambda>d. list_all (\<lambda>s. length s \<le> 60) (lines d)) (diff_pair l a b fm gm [])"
  using diff_pair_lines [of _ l a b fm gm] diff_lines_length [of _ a b fm gm]
  by (auto simp: list_all_iff)

end
