(* ===== verification/Machine.thy ===== *)
theory Machine
  imports Compare
begin

section \<open>What every lane stands for\<close>

text \<open>
  The abstract machine behind the lanes: the registers of \<^verbatim>\<open>RegState\<close>, the instruction's bytes, the
  data page and the stack page. A test case fixes its start state; an instruction set takes a machine
  to a machine or to a fault. The contract of a lane is the locale \<open>lane\<close>: it starts every test case
  from the start state, and what it reports is what the machine is after the step. The lemmas show
  that two lanes under this contract are compared exactly as the two instruction sets would be.
\<close>

subsection \<open>Bytes in memory\<close>

definition store_bytes :: "u64 \<Rightarrow> u8 list \<Rightarrow> (u64 \<Rightarrow> u8) \<Rightarrow> u64 \<Rightarrow> u8" where
  "store_bytes a bs m = (\<lambda>x. if unat (x - a) < length bs then bs ! unat (x - a) else m x)"

definition memory_at :: "(u64 \<Rightarrow> u8) \<Rightarrow> u64 \<Rightarrow> nat \<Rightarrow> u8 list" where
  "memory_at m a n = map (\<lambda>i. m (a + of_nat i)) [0..<n]"

lemma length_memory_at [simp]: "length (memory_at m a n) = n"
  by (simp add: memory_at_def)

lemma take_memory_at: "k \<le> n \<Longrightarrow> take k (memory_at m a n) = memory_at m a k"
  by (simp add: memory_at_def take_map)

lemma store_bytes_Nil [simp]: "store_bytes a [] m = m"
  by (simp add: store_bytes_def)

lemma offset_distance:
  assumes "i < 0x10000" "d < 0x10000"
  shows "unat ((a + of_nat i) - (a + of_nat d) :: u64) = (if d \<le> i then i - d else i + 2 ^ 64 - d)"
proof -
  have u: "unat (of_nat k :: u64) = k" if "k < 0x10000" for k
    using that by (simp add: unsigned_of_nat take_bit_nat_eq_self)
  have "(a + of_nat i) - (a + of_nat d) = (of_nat i - of_nat d :: u64)" by simp
  then show ?thesis using assms by (simp add: unat_sub_if_size word_size u)
qed

lemma offset_in:
  "i < 0x10000 \<Longrightarrow> d < 0x10000 \<Longrightarrow> n \<le> 0x10000 \<Longrightarrow>
     unat ((a + of_nat i) - (a + of_nat d) :: u64) < n \<longleftrightarrow> d \<le> i \<and> i < d + n"
  unfolding offset_distance by auto

lemma store_bytes_offset:
  assumes "i < 0x10000" "d < 0x10000" "length bs \<le> 0x10000"
  shows "store_bytes (a + of_nat d) bs m (a + of_nat i) =
    (if d \<le> i \<and> i < d + length bs then bs ! (i - d) else m (a + of_nat i))"
  unfolding store_bytes_def offset_in [OF assms] using assms by (simp only: offset_distance) simp

text \<open>The layout as offsets from the code page, and the three pages of a test case.\<close>

lemma layout_offsets:
  "kCodeBase = kCodeBase + of_nat 0" "kDataBase = kCodeBase + of_nat 0x1000"
  "kStackBase = kCodeBase + of_nat 0x2000" "kStackTop = kCodeBase + of_nat 0x2F00"
  by (simp_all add: layout_defs)

definition scratch_byte :: "test_case \<Rightarrow> nat \<Rightarrow> u8" where
  "scratch_byte tc k =
     (if 0x2F00 \<le> k \<and> k < 0x2F08 then le_bytes 8 kCodeBase ! (k - 0x2F00)
      else if 0x1000 \<le> k \<and> k < 0x1100 then tc_data_seed tc ! (k - 0x1000)
      else if 0x1000 \<le> k \<and> k < 0x3000 then 0
      else if k < length (tc_bytes tc) then tc_bytes tc ! k else 0)"

lemma store_scratch:
  assumes "k < 0x10000" "length (tc_data_seed tc) = kDataWindow" "length (tc_bytes tc) \<le> kPageSize"
  shows "store_bytes kStackTop (le_bytes 8 kCodeBase) m (kCodeBase + of_nat k) =
      (if 0x2F00 \<le> k \<and> k < 0x2F08 then le_bytes 8 kCodeBase ! (k - 0x2F00) else m (kCodeBase + of_nat k))"
    "store_bytes kDataBase (tc_data_seed tc) m (kCodeBase + of_nat k) =
      (if 0x1000 \<le> k \<and> k < 0x1100 then tc_data_seed tc ! (k - 0x1000) else m (kCodeBase + of_nat k))"
    "store_bytes kStackBase (replicate kPageSize 0) m (kCodeBase + of_nat k) =
      (if 0x2000 \<le> k \<and> k < 0x3000 then 0 else m (kCodeBase + of_nat k))"
    "store_bytes kDataBase (replicate kPageSize 0) m (kCodeBase + of_nat k) =
      (if 0x1000 \<le> k \<and> k < 0x2000 then 0 else m (kCodeBase + of_nat k))"
    "store_bytes kCodeBase (tc_bytes tc) m (kCodeBase + of_nat k) =
      (if k < length (tc_bytes tc) then tc_bytes tc ! k else m (kCodeBase + of_nat k))"
proof -
  have l: "kPageSize = 0x1000" "kDataWindow = 0x100" by (simp_all add: layout_defs)
  show "store_bytes kStackTop (le_bytes 8 kCodeBase) m (kCodeBase + of_nat k) =
      (if 0x2F00 \<le> k \<and> k < 0x2F08 then le_bytes 8 kCodeBase ! (k - 0x2F00) else m (kCodeBase + of_nat k))"
    unfolding layout_offsets(4) by (subst store_bytes_offset) (use assms(1) in simp_all)
  show "store_bytes kDataBase (tc_data_seed tc) m (kCodeBase + of_nat k) =
      (if 0x1000 \<le> k \<and> k < 0x1100 then tc_data_seed tc ! (k - 0x1000) else m (kCodeBase + of_nat k))"
    unfolding layout_offsets(2) by (subst store_bytes_offset) (use assms l in simp_all)
  show "store_bytes kStackBase (replicate kPageSize 0) m (kCodeBase + of_nat k) =
      (if 0x2000 \<le> k \<and> k < 0x3000 then 0 else m (kCodeBase + of_nat k))"
    unfolding layout_offsets(3) by (subst store_bytes_offset) (use assms(1) in \<open>auto simp: l\<close>)
  show "store_bytes kDataBase (replicate kPageSize 0) m (kCodeBase + of_nat k) =
      (if 0x1000 \<le> k \<and> k < 0x2000 then 0 else m (kCodeBase + of_nat k))"
    unfolding layout_offsets(2) by (subst store_bytes_offset) (use assms(1) in \<open>auto simp: l\<close>)
  show "store_bytes kCodeBase (tc_bytes tc) m (kCodeBase + of_nat k) =
      (if k < length (tc_bytes tc) then tc_bytes tc ! k else m (kCodeBase + of_nat k))"
    by (subst layout_offsets(1), subst store_bytes_offset) (use assms l in simp_all)
qed

lemma scratch_pages:
  assumes "length (tc_data_seed tc) = kDataWindow" "length (tc_bytes tc) \<le> kPageSize"
    and at: "\<And>k. k < 0x3000 \<Longrightarrow> k < length (tc_bytes tc) \<or> 0x1000 \<le> k \<Longrightarrow> m (kCodeBase + of_nat k) = scratch_byte tc k"
  shows "memory_at m kCodeBase (length (tc_bytes tc)) = tc_bytes tc"
    "memory_at m kDataBase kPageSize = tc_data_seed tc @ replicate (kPageSize - kDataWindow) 0"
    "memory_at m kStackBase kPageSize =
       replicate 0xF00 0 @ le_bytes 8 kCodeBase @ replicate (kPageSize - 0xF08) 0"
proof -
  have l: "kPageSize = 0x1000" "kDataWindow = 0x100" by (simp_all add: layout_defs)
  have seed: "length (tc_data_seed tc) = 0x100" "length (tc_bytes tc) \<le> 0x1000" using assms(1,2) by (simp_all add: l)
  have page: "memory_at m (kCodeBase + of_nat d) n = map (\<lambda>i. m (kCodeBase + of_nat (d + i))) [0..<n]" for d n
    by (simp add: memory_at_def add.assoc)
  show "memory_at m kCodeBase (length (tc_bytes tc)) = tc_bytes tc"
    using page [of 0] seed by (intro nth_equalityI) (simp_all add: at scratch_byte_def)
  show "memory_at m kDataBase kPageSize = tc_data_seed tc @ replicate (kPageSize - kDataWindow) 0"
    unfolding layout_offsets(2) page l
    by (rule nth_equalityI) (auto simp: at scratch_byte_def seed nth_append simp del: of_nat_add upt_rec_numeral)
  show "memory_at m kStackBase kPageSize =
      replicate 0xF00 0 @ le_bytes 8 kCodeBase @ replicate (kPageSize - 0xF08) 0"
    unfolding layout_offsets(3) page l
    by (rule nth_equalityI)
      (auto simp: at scratch_byte_def nth_append simp del: of_nat_add upt_rec_numeral nth_le_bytes)
qed


subsection \<open>Machines\<close>

record machine =
  m_gpr :: "u64 list"
  m_rip :: u64
  m_flags :: u64
  m_xmm :: "(u64 \<times> u64) list"
  m_x87 :: x87_state
  m_code :: "u8 list"
  m_data :: "u8 list"
  m_stack :: "u8 list"

datatype fault = Fault_ud | Fault_gp | Fault_pf | Fault_de

type_synonym isa = "machine \<Rightarrow> fault + machine"

fun fault_stop :: "fault \<Rightarrow> stop_reason" where
  "fault_stop Fault_ud = Stop_ud"
| "fault_stop Fault_gp = Stop_gp"
| "fault_stop Fault_pf = Stop_pf"
| "fault_stop Fault_de = Stop_de"

text \<open>The processor's exception vectors.\<close>

fun fault_vector :: "fault \<Rightarrow> nat" where
  "fault_vector Fault_de = 0"
| "fault_vector Fault_ud = 6"
| "fault_vector Fault_gp = 13"
| "fault_vector Fault_pf = 14"

lemma fault_stop_inj: "fault_stop f = fault_stop g \<longleftrightarrow> f = g"
  by (cases f; cases g) simp_all

lemma fault_stop_not_ok [simp]: "fault_stop f \<noteq> Stop_ok" "Stop_ok \<noteq> fault_stop f"
  by (cases f, simp_all)+

definition start_machine :: "test_case \<Rightarrow> machine" where
  "start_machine tc =
     (let r = tc_initial tc in
      \<lparr>m_gpr = gpr r, m_rip = kCodeBase, m_flags = rflags r AND kCompareFlagsMask,
       m_xmm = zip (xmm_lo r) (xmm_hi r), m_x87 = x87 r, m_code = tc_bytes tc,
       m_data = tc_data_seed tc @ replicate (kPageSize - kDataWindow) 0,
       m_stack = replicate 0xF00 0 @ le_bytes 8 kCodeBase @ replicate (kPageSize - 0xF08) 0\<rparr>)"

text \<open>A machine put together from what a lane can observe: a register state and a memory. The length of
  the instruction delimits the part of the code page that belongs to the test case.\<close>

definition observed :: "nat \<Rightarrow> reg_state \<Rightarrow> (u64 \<Rightarrow> u8) \<Rightarrow> machine" where
  "observed n r m =
     \<lparr>m_gpr = gpr r, m_rip = rip r, m_flags = rflags r AND kCompareFlagsMask,
      m_xmm = zip (xmm_lo r) (xmm_hi r), m_x87 = x87 r, m_code = memory_at m kCodeBase n,
      m_data = memory_at m kDataBase kPageSize, m_stack = memory_at m kStackBase kPageSize\<rparr>"

text \<open>The test cases the lanes are given: arrays of their lengths, a code page's worth of bytes at most,
  and an x87 state whose tags are those of its contents.\<close>

definition tc_ok :: "test_case \<Rightarrow> bool" where
  "tc_ok tc \<longleftrightarrow> reg_shape (tc_initial tc) \<and> well_tagged (x87 (tc_initial tc)) \<and>
     length (tc_data_seed tc) = kDataWindow \<and> length (tc_bytes tc) \<le> kPageSize"

lemma observed_start:
  assumes "tc_ok tc"
    and "gpr r = gpr (tc_initial tc)" "rip r = kCodeBase"
    "rflags r AND kCompareFlagsMask = rflags (tc_initial tc) AND kCompareFlagsMask"
    "zip (xmm_lo r) (xmm_hi r) = zip (xmm_lo (tc_initial tc)) (xmm_hi (tc_initial tc))" "x87 r = x87 (tc_initial tc)"
    and at: "\<And>k. k < 0x3000 \<Longrightarrow> k < length (tc_bytes tc) \<or> 0x1000 \<le> k \<Longrightarrow> m (kCodeBase + of_nat k) = scratch_byte tc k"
  shows "observed (length (tc_bytes tc)) r m = start_machine tc"
  using assms(2-6) scratch_pages [OF _ _ at] assms(1)
  by (simp add: observed_def start_machine_def Let_def tc_ok_def)

subsection \<open>Comparing machines\<close>

text \<open>What \<^verbatim>\<open>diff_pair\<close> compares, said of the results of two instruction sets. The flag \<open>fpu\<close> says that
  both lanes capture the x87 state.\<close>

fun machines_agree :: "bool \<Rightarrow> u64 \<Rightarrow> u32 \<Rightarrow> fault + machine \<Rightarrow> fault + machine \<Rightarrow> bool" where
  "machines_agree fpu fm gm (Inl f) (Inl g) = (f = g)"
| "machines_agree fpu fm gm (Inr a) (Inr b) =
     ((\<forall>i \<in> {0..<16}. bit gm i \<longrightarrow> m_gpr a ! i = m_gpr b ! i) \<and> m_rip a = m_rip b \<and>
      m_flags a AND fm = m_flags b AND fm \<and> take kDataWindow (m_data a) = take kDataWindow (m_data b) \<and>
      (fpu \<longrightarrow> x87_agree (m_x87 a) (m_x87 b)))"
| "machines_agree fpu fm gm _ _ = False"

text \<open>An outcome that reports a result.\<close>

fun reports :: "bool \<Rightarrow> fault + machine \<Rightarrow> lane_outcome \<Rightarrow> bool" where
  "reports fpu (Inl f) out \<longleftrightarrow> setup_ok out \<and> stop out = fault_stop f"
| "reports fpu (Inr a) out \<longleftrightarrow> setup_ok out \<and> stop out = Stop_ok \<and> captures_x87 out = fpu \<and>
     gpr (after out) = m_gpr a \<and> rip (after out) = m_rip a \<and>
     rflags (after out) AND kCompareFlagsMask = m_flags a \<and>
     data_after (after out) = take kDataWindow (m_data a) \<and> (fpu \<longrightarrow> x87 (after out) = m_x87 a)"

lemma reports_ok: "reports fpu r out \<Longrightarrow> setup_ok out"
  by (cases r) auto

lemma lane_agree_machines:
  assumes "reports fpu r a" "reports fpv s b" "fm AND kCompareFlagsMask = fm"
  shows "lane_agree a b fm gm \<longleftrightarrow> machines_agree (fpu \<and> fpv) fm gm r s"
proof -
  have f: "rflags (after o1) AND fm = m AND fm" if "rflags (after o1) AND kCompareFlagsMask = m" for o1 :: lane_outcome and m
  proof -
    have "m AND fm = rflags (after o1) AND (kCompareFlagsMask AND fm)" unfolding that [symmetric] by (rule and.assoc)
    also have "kCompareFlagsMask AND fm = fm" using assms(3) by (simp only: and.commute)
    finally show ?thesis by simp
  qed
  show ?thesis
  proof (cases r)
    case (Inl x)
    then show ?thesis using assms(1,2) by (cases s) (auto simp: lane_agree_def fault_stop_inj)
  next
    case (Inr x)
    show ?thesis
    proof (cases s)
      case (Inl y)
      then show ?thesis using assms(1,2) Inr by (auto simp: lane_agree_def)
    next
      case (Inr y)
      then show ?thesis
        using assms(1,2) f [of a "m_flags x"] f [of b "m_flags y"] \<open>r = Inr x\<close>
        by (auto simp: lane_agree_def state_agree_def gpr_agree_def)
    qed
  qed
qed

lemma machines_agree_refl [simp]: "machines_agree fpu fm gm r r"
  by (cases r) (auto simp: x87_agree_def)

subsection \<open>The contract of a lane\<close>

text \<open>An engine that answers an instruction with an \<open>'e\<close>: \<open>answer e None\<close> says that the instruction
  completed, \<open>answer e (Some f)\<close> that it faulted. It implements an instruction set at a state when its
  answer and the machine it leaves are those of the instruction set.\<close>

definition implements ::
  "('e \<Rightarrow> fault option \<Rightarrow> bool) \<Rightarrow> (nat \<Rightarrow> 's \<Rightarrow> machine) \<Rightarrow> ('s \<Rightarrow> bool) \<Rightarrow> isa \<Rightarrow> ('s \<Rightarrow> 'e \<times> 's) \<Rightarrow> nat \<Rightarrow> 's \<Rightarrow> bool" where
  "implements answer machine_of intact isa step n s \<longleftrightarrow>
     (case step s of (e, t) \<Rightarrow> (case isa (machine_of n s) of
        Inl f \<Rightarrow> answer e (Some f)
      | Inr M \<Rightarrow> answer e None \<and> intact t \<and> machine_of n t = M))"

text \<open>What the comparison needs of a lane: a usable engine is brought to the start state whatever was run
  before, a fault is reported as such, and after a completed instruction the outcome is the machine.\<close>

locale lane =
  fixes usable :: "'s \<Rightarrow> bool"
    and prepare :: "test_case \<Rightarrow> 's \<Rightarrow> 's"
    and machine_of :: "nat \<Rightarrow> 's \<Rightarrow> machine"
    and answer :: "'e \<Rightarrow> fault option \<Rightarrow> bool"
    and intact :: "'s \<Rightarrow> bool"
    and outcome :: "'e \<Rightarrow> 's \<Rightarrow> lane_outcome"
    and fpu :: bool
  assumes prepare_start: "usable s \<Longrightarrow> tc_ok tc \<Longrightarrow> machine_of (length (tc_bytes tc)) (prepare tc s) = start_machine tc"
    and outcome_fault: "answer e (Some f) \<Longrightarrow> reports fpu (Inl f) (outcome e s)"
    and outcome_done: "answer e None \<Longrightarrow> intact s \<Longrightarrow> reports fpu (Inr (machine_of n s)) (outcome e s)"
begin

lemma reports_result:
  assumes "usable s" "tc_ok tc" "implements answer machine_of intact isa step (length (tc_bytes tc)) (prepare tc s)"
    "step (prepare tc s) = (e, t)"
  shows "reports fpu (isa (start_machine tc)) (outcome e t)"
proof (cases "isa (start_machine tc)")
  case (Inl f)
  then have "answer e (Some f)" using assms by (simp add: implements_def prepare_start)
  then show ?thesis using Inl outcome_fault by simp
next
  case (Inr M)
  then have "answer e None" "intact t" "machine_of (length (tc_bytes tc)) t = M"
    using assms by (simp_all add: implements_def prepare_start)
  then show ?thesis using Inr outcome_done by metis
qed

end

end
