(* ===== verification/Pages.thy ===== *)
theory Pages
  imports Machine
begin

section \<open>The scratch pages of the emulator lanes\<close>

text \<open>
  The emulators' memories are third-party; what the lanes do to them is stated on a view of the
  memory, a partial map from addresses to bytes. Mapping the three pages into a memory in which they
  are free and writing the return address, the data seed and the instruction gives the bytes of
  \<open>scratch_byte\<close>.
\<close>

type_synonym view = "u64 \<Rightarrow> u8 option"

definition bytes_of :: "view \<Rightarrow> u64 \<Rightarrow> u8" where
  "bytes_of v = (\<lambda>x. case v x of None \<Rightarrow> 0 | Some b \<Rightarrow> b)"

definition mapped :: "view \<Rightarrow> u64 \<Rightarrow> nat \<Rightarrow> bool" where
  "mapped v a n \<longleftrightarrow> (\<forall>i < n. v (a + of_nat i) \<noteq> None)"

definition put_bytes :: "u64 \<Rightarrow> u8 list \<Rightarrow> view \<Rightarrow> view" where
  "put_bytes a bs v = (\<lambda>x. if unat (x - a) < length bs then Some (bs ! unat (x - a)) else v x)"

definition put_page :: "u64 \<Rightarrow> view \<Rightarrow> view" where
  "put_page a v = put_bytes a (replicate kPageSize 0) v"

definition drop_page :: "u64 \<Rightarrow> view \<Rightarrow> view" where
  "drop_page a v = (\<lambda>x. if unat (x - a) < kPageSize then None else v x)"

definition page_free :: "view \<Rightarrow> u64 \<Rightarrow> bool" where
  "page_free v a \<longleftrightarrow> (\<forall>i < kPageSize. v (a + of_nat i) = None)"

definition aligned :: "u64 \<Rightarrow> bool" where
  "aligned a \<longleftrightarrow> unat a mod kPageSize = 0"

text \<open>The three pages together: all mapped, or all free.\<close>

definition pages_mapped :: "view \<Rightarrow> bool" where
  "pages_mapped v \<longleftrightarrow> mapped v kCodeBase 0x3000"

definition unmapped :: "view \<Rightarrow> bool" where
  "unmapped v \<longleftrightarrow> (\<forall>k < 0x3000. v (kCodeBase + of_nat k) = None)"

definition fresh_pages :: "view \<Rightarrow> view" where
  "fresh_pages v = put_page kStackBase (put_page kDataBase (put_page kCodeBase v))"

definition dropped_pages :: "view \<Rightarrow> view" where
  "dropped_pages v = drop_page kStackBase (drop_page kDataBase (drop_page kCodeBase v))"

definition with_case :: "test_case \<Rightarrow> view \<Rightarrow> view" where
  "with_case tc v = put_bytes kCodeBase (tc_bytes tc)
     (put_bytes kDataBase (tc_data_seed tc) (put_bytes kStackTop (le_bytes 8 kCodeBase) v))"

lemma aligned_pages [simp]: "aligned kCodeBase" "aligned kDataBase" "aligned kStackBase"
  by (simp_all add: aligned_def layout_defs)

lemma put_bytes_Nil [simp]: "put_bytes a [] v = v"
  by (simp add: put_bytes_def)

lemma bytes_of_put [simp]: "bytes_of (put_bytes a bs v) = store_bytes a bs (bytes_of v)"
  by (rule ext) (simp add: bytes_of_def put_bytes_def store_bytes_def)

lemma put_page_offset:
  assumes "k < 0x10000" "d < 0x10000"
  shows "put_page (kCodeBase + of_nat d) v (kCodeBase + of_nat k) =
    (if d \<le> k \<and> k < d + 0x1000 then Some 0 else v (kCodeBase + of_nat k))"
proof -
  have i: "unat ((kCodeBase + of_nat k) - (kCodeBase + of_nat d) :: u64) < 0x1000 \<longleftrightarrow> d \<le> k \<and> k < d + 0x1000"
    by (rule offset_in [OF assms]) simp
  then have "d \<le> k \<and> k < d + 0x1000 \<Longrightarrow>
      replicate 0x1000 (0 :: u8) ! unat ((kCodeBase + of_nat k) - (kCodeBase + of_nat d) :: u64) = 0"
    by (intro nth_replicate) blast
  then show ?thesis unfolding put_page_def put_bytes_def kPageSize_def length_replicate i by (simp only: split: if_split) blast
qed

lemma drop_page_offset:
  assumes "k < 0x10000" "d < 0x10000"
  shows "drop_page (kCodeBase + of_nat d) v (kCodeBase + of_nat k) =
    (if d \<le> k \<and> k < d + 0x1000 then None else v (kCodeBase + of_nat k))"
proof -
  have i: "unat ((kCodeBase + of_nat k) - (kCodeBase + of_nat d) :: u64) < 0x1000 \<longleftrightarrow> d \<le> k \<and> k < d + 0x1000"
    by (rule offset_in [OF assms]) simp
  show ?thesis unfolding drop_page_def kPageSize_def i ..
qed

text \<open>The same for the three pages by name.\<close>

lemma put_pages_at:
  assumes "k < 0x3000"
  shows "put_page kCodeBase v (kCodeBase + of_nat k) = (if k < 0x1000 then Some 0 else v (kCodeBase + of_nat k))"
    "put_page kDataBase v (kCodeBase + of_nat k) = (if 0x1000 \<le> k \<and> k < 0x2000 then Some 0 else v (kCodeBase + of_nat k))"
    "put_page kStackBase v (kCodeBase + of_nat k) = (if 0x2000 \<le> k then Some 0 else v (kCodeBase + of_nat k))"
  using assms put_page_offset [of k 0 v] put_page_offset [of k "0x1000" v] put_page_offset [of k "0x2000" v]
  unfolding layout_offsets(2,3) by auto

lemma unmapped_dropped_pages: "unmapped (dropped_pages v)"
  unfolding unmapped_def dropped_pages_def layout_offsets(2,3)
proof (intro allI impI)
  fix k assume "k < (0x3000 :: nat)"
  then show "drop_page (kCodeBase + of_nat 0x2000) (drop_page (kCodeBase + of_nat 0x1000) (drop_page kCodeBase v))
      (kCodeBase + of_nat k) = None"
    using drop_page_offset [of k 0 v] drop_page_offset [of k "0x1000" "drop_page kCodeBase v"]
      drop_page_offset [of k "0x2000" "drop_page (kCodeBase + of_nat 0x1000) (drop_page kCodeBase v)"]
    by auto
qed

text \<open>Each of the three pages is free when its turn comes to be mapped.\<close>

lemma page_free_offset: "page_free v (kCodeBase + of_nat d) \<longleftrightarrow> (\<forall>i < 0x1000. v (kCodeBase + of_nat (d + i)) = None)"
  by (simp add: page_free_def kPageSize_def add.assoc)

lemma pages_free:
  assumes "unmapped v"
  shows "page_free v kCodeBase" "page_free (put_page kCodeBase v) kDataBase"
    "page_free (put_page kDataBase (put_page kCodeBase v)) kStackBase"
proof -
  have none: "v (kCodeBase + of_nat k) = None" if "k < 0x3000" for k using assms that by (simp add: unmapped_def)
  show "page_free v kCodeBase" using page_free_offset [of v 0] none by simp
  show "page_free (put_page kCodeBase v) kDataBase"
    unfolding layout_offsets(2) page_free_offset
    using none by (auto simp: put_pages_at simp del: of_nat_add)
  have "put_page kDataBase (put_page kCodeBase v) (kCodeBase + of_nat (0x2000 + i)) = None" if "i < 0x1000" for i
    using none that by (simp add: put_pages_at del: of_nat_add)
  then show "page_free (put_page kDataBase (put_page kCodeBase v)) kStackBase"
    unfolding layout_offsets(3) page_free_offset by blast
qed

lemma fresh_pages_at: "k < 0x3000 \<Longrightarrow> fresh_pages v (kCodeBase + of_nat k) = Some 0"
  by (simp add: fresh_pages_def put_pages_at)

lemma pages_mapped_fresh: "pages_mapped (fresh_pages v)"
  by (simp add: pages_mapped_def mapped_def fresh_pages_at)

lemma pages_mapped_put [intro]: "pages_mapped v \<Longrightarrow> pages_mapped (put_bytes a bs v)"
  by (simp add: pages_mapped_def mapped_def put_bytes_def)

lemma pages_mapped_with_case: "pages_mapped v \<Longrightarrow> pages_mapped (with_case tc v)"
  by (auto simp: with_case_def)

lemma mapped_parts:
  assumes "pages_mapped v"
  shows "mapped v kStackTop 8" "mapped v kDataBase kDataWindow" "n \<le> kPageSize \<Longrightarrow> mapped v kCodeBase n"
proof -
  have p: "mapped v (kCodeBase + of_nat d) n" if "d + n \<le> 0x3000" for d n
  proof -
    have "v (kCodeBase + of_nat d + of_nat i) \<noteq> None" if "i < n" for i
    proof -
      have "v (kCodeBase + of_nat (d + i)) \<noteq> None"
        using assms \<open>d + n \<le> 0x3000\<close> that unfolding pages_mapped_def mapped_def by (simp del: of_nat_add)
      then show ?thesis by (simp add: add.assoc)
    qed
    then show ?thesis by (simp add: mapped_def)
  qed
  show "mapped v kStackTop 8" using p [of "0x2F00" 8] unfolding layout_offsets(4) by simp
  show "mapped v kDataBase kDataWindow" using p [of "0x1000" "0x100"] unfolding layout_offsets(2) kDataWindow_def by simp
  show "n \<le> kPageSize \<Longrightarrow> mapped v kCodeBase n" using p [of 0 n] by (simp add: kPageSize_def)
qed

lemma with_case_scratch:
  assumes "tc_ok tc" "k < 0x3000"
  shows "bytes_of (with_case tc (fresh_pages v)) (kCodeBase + of_nat k) = scratch_byte tc k"
proof -
  have tc: "length (tc_data_seed tc) = kDataWindow" "length (tc_bytes tc) \<le> kPageSize" using assms(1) by (simp_all add: tc_ok_def)
  have "bytes_of (fresh_pages v) (kCodeBase + of_nat k) = 0"
    using assms(2) by (simp add: bytes_of_def fresh_pages_at)
  then show ?thesis
    using assms(2) tc(2) by (auto simp: with_case_def scratch_byte_def kPageSize_def store_scratch [OF _ tc])
qed

end
