(* ===== verification/SevenLane.thy ===== *)
theory SevenLane
  imports Pages
begin

section \<open>The engine lanes: seven and seven-jit\<close>

text \<open>
  \<^verbatim>\<open>src/lanes/seven_lane.cpp\<close> and \<^verbatim>\<open>src/lanes/seven_jit_lane.cpp\<close>. The engine itself is third-party: the
  public fields of \<^verbatim>\<open>seven::CpuState\<close> that the lanes touch are a record, its methods, its memory and its
  executors are the fields of an \<open>engine\<close>, a parameter of every definition. What the lanes rely on of
  them is \<open>cpu_laws\<close> (setters and getters of the two x87 words) and \<open>memory_laws\<close> (mapping, writing
  and reading pages).
\<close>

subsection \<open>The engine's interface\<close>

datatype seven_stop =
  SR_none | SR_halted | SR_invalid_opcode | SR_unsupported_instruction | SR_decode_error
  | SR_general_protection | SR_page_fault | SR_divide_error | SR_execution_limit | SR_another nat

datatype execution_mode = Long64 | Another_mode

text \<open>\<open>'v\<close> is the type of a vector register, a wide integer; \<open>'r\<close> the private rest of the state. A register of the
  x87 stack is its significand with its sign and exponent.\<close>

record ('v, 'r) cpu_state =
  mode :: execution_mode
  cpu_rip :: u64
  cpu_rflags :: u64
  sreg :: "nat list"
  cpu_gpr :: "u64 list"
  vectors :: "'v list"
  x87_stack :: "(u64 \<times> u16) list"
  x87_tags :: "u8 list"
  cpu_private :: 'r

record ('v, 'r, 'm) engine =
  new_cpu :: "('v, 'r) cpu_state"
  set_x87_control_word :: "u16 \<Rightarrow> ('v, 'r) cpu_state \<Rightarrow> ('v, 'r) cpu_state"
  set_x87_status_word :: "u16 \<Rightarrow> ('v, 'r) cpu_state \<Rightarrow> ('v, 'r) cpu_state"
  get_x87_control_word :: "('v, 'r) cpu_state \<Rightarrow> u16"
  get_x87_status_word :: "('v, 'r) cpu_state \<Rightarrow> u16"
  get_x87_top :: "('v, 'r) cpu_state \<Rightarrow> nat"
  new_memory :: 'm
  mem_map :: "u64 \<Rightarrow> nat \<Rightarrow> 'm \<Rightarrow> 'm"
  mem_unmap :: "u64 \<Rightarrow> nat \<Rightarrow> 'm \<Rightarrow> 'm"
  mem_write :: "u64 \<Rightarrow> u8 list \<Rightarrow> 'm \<Rightarrow> bool \<times> 'm"
  mem_read :: "u64 \<Rightarrow> nat \<Rightarrow> 'm \<Rightarrow> u8 list option"
  stop_number :: "seven_stop \<Rightarrow> nat"

subsection \<open>Registers\<close>

text \<open>A vector register from two halves, byte by byte, and back.\<close>

definition pack_xmm :: "u64 \<Rightarrow> u64 \<Rightarrow> 'w::len word" where
  "pack_xmm lo hi = (let bytes = le_bytes 8 lo @ le_bytes 8 hi in
     fold (\<lambda>i out. out OR push_bit (i * 8) (ucast (bytes ! i))) [0..<16] 0)"

definition unpack_xmm :: "'w::len word \<Rightarrow> u64 \<times> u64" where
  "unpack_xmm v = (let bytes = map (\<lambda>i. ucast (drop_bit (i * 8) v AND 0xFF)) [0..<16] in
     (of_le_bytes (take 8 bytes), of_le_bytes (drop 8 bytes)))"

definition apply_x87 :: "('w::len word, 'r, 'm) engine \<Rightarrow> x87_state \<Rightarrow> ('w word, 'r) cpu_state \<Rightarrow> ('w word, 'r) cpu_state" where
  "apply_x87 e x s =
     (let s1 = set_x87_status_word e (status_word x) (set_x87_control_word e (control_word x) s);
          tp = get_x87_top e s1;
          s2 = fold (\<lambda>i s. s\<lparr>x87_stack := (x87_stack s)[(tp + i) mod 8 := (signif x ! i, signexp x ! i)]\<rparr>) [0..<8] s1
      in fold (\<lambda>phys s. s\<lparr>x87_tags := (x87_tags s)[phys := ucast (drop_bit (2 * phys) (tag_word x) AND 3)]\<rparr>) [0..<8] s2)"

definition read_x87 :: "('w::len word, 'r, 'm) engine \<Rightarrow> ('w word, 'r) cpu_state \<Rightarrow> x87_state" where
  "read_x87 e s =
     (let tp = get_x87_top e s in
      \<lparr>signif = map (\<lambda>i. fst (x87_stack s ! ((tp + i) mod 8))) [0..<8],
       signexp = map (\<lambda>i. snd (x87_stack s ! ((tp + i) mod 8))) [0..<8],
       control_word = get_x87_control_word e s, status_word = get_x87_status_word e s,
       tag_word = tags_word (\<lambda>phys. x87_tags s ! phys AND 3)\<rparr>)"

fun map_stop_reason :: "seven_stop \<Rightarrow> stop_reason" where
  "map_stop_reason SR_none = Stop_ok"
| "map_stop_reason SR_halted = Stop_halted"
| "map_stop_reason SR_invalid_opcode = Stop_ud"
| "map_stop_reason SR_unsupported_instruction = Stop_ud"
| "map_stop_reason SR_decode_error = Stop_ud"
| "map_stop_reason SR_general_protection = Stop_gp"
| "map_stop_reason SR_page_fault = Stop_pf"
| "map_stop_reason SR_divide_error = Stop_de"
| "map_stop_reason SR_execution_limit = Stop_other"
| "map_stop_reason (SR_another n) = Stop_other"

text \<open>The JIT's run reports the limit of one instruction when that instruction retired.\<close>

fun jit_map_stop_reason :: "seven_stop \<Rightarrow> stop_reason" where
  "jit_map_stop_reason SR_none = Stop_ok"
| "jit_map_stop_reason SR_halted = Stop_halted"
| "jit_map_stop_reason SR_invalid_opcode = Stop_ud"
| "jit_map_stop_reason SR_unsupported_instruction = Stop_ud"
| "jit_map_stop_reason SR_decode_error = Stop_ud"
| "jit_map_stop_reason SR_general_protection = Stop_gp"
| "jit_map_stop_reason SR_page_fault = Stop_pf"
| "jit_map_stop_reason SR_divide_error = Stop_de"
| "jit_map_stop_reason SR_execution_limit = Stop_ok"
| "jit_map_stop_reason (SR_another n) = Stop_other"

fun lane_stop :: "bool \<Rightarrow> seven_stop \<Rightarrow> stop_reason" where
  "lane_stop False r = map_stop_reason r"
| "lane_stop True r = jit_map_stop_reason r"

subsection \<open>One test case\<close>

text \<open>The processor state both lanes start from; \<open>sreg\<close> 1 is CS with the selector of ring 3.\<close>

definition start_cpu :: "('w::len word, 'r, 'm) engine \<Rightarrow> reg_state \<Rightarrow> ('w word, 'r) cpu_state" where
  "start_cpu e r =
     (let s = (new_cpu e)\<lparr>mode := Long64, cpu_rip := kCodeBase, cpu_rflags := rflags r\<rparr>;
          s = s\<lparr>sreg := (sreg s)[1 := 0x33], cpu_gpr := gpr r\<rparr>;
          s = s\<lparr>vectors := fold (\<lambda>i vs. vs[i := pack_xmm (xmm_lo r ! i) (xmm_hi r ! i)]) [0..<16] (vectors s)\<rparr>
      in apply_x87 e (x87 r) s)"

definition map_pages :: "('w::len word, 'r, 'm) engine \<Rightarrow> 'm \<Rightarrow> 'm" where
  "map_pages e m = mem_map e kStackBase kPageSize (mem_map e kDataBase kPageSize (mem_map e kCodeBase kPageSize m))"

definition unmap_pages :: "('w::len word, 'r, 'm) engine \<Rightarrow> 'm \<Rightarrow> 'm" where
  "unmap_pages e m = mem_unmap e kStackBase kPageSize (mem_unmap e kDataBase kPageSize (mem_unmap e kCodeBase kPageSize m))"

definition write_case :: "('w::len word, 'r, 'm) engine \<Rightarrow> test_case \<Rightarrow> 'm \<Rightarrow> bool \<times> 'm" where
  "write_case e tc m =
     (let (w1, m) = mem_write e kStackTop (le_bytes 8 kCodeBase) m;
          (w2, m) = mem_write e kDataBase (tc_data_seed tc) m
      in if tc_bytes tc = [] then (True, m) else mem_write e kCodeBase (tc_bytes tc) m)"

definition read_cpu :: "('w::len word, 'r, 'm) engine \<Rightarrow> ('w word, 'r) cpu_state \<Rightarrow> 'm \<Rightarrow> reg_state \<Rightarrow> reg_state" where
  "read_cpu e s m r = r\<lparr>gpr := cpu_gpr s, rip := cpu_rip s, rflags := cpu_rflags s,
     xmm_lo := map (\<lambda>i. fst (unpack_xmm (vectors s ! i))) [0..<16],
     xmm_hi := map (\<lambda>i. snd (unpack_xmm (vectors s ! i))) [0..<16],
     x87 := read_x87 e s,
     data_after := (case mem_read e kDataBase kDataWindow m of None \<Rightarrow> data_after r | Some bs \<Rightarrow> bs)\<rparr>"

definition engine_outcome :: "('w::len word, 'r, 'm) engine \<Rightarrow> bool \<Rightarrow> seven_stop \<Rightarrow> ('w word, 'r) cpu_state \<Rightarrow> 'm \<Rightarrow> lane_outcome" where
  "engine_outcome e jit r s m =
     (let st = lane_stop jit r in
      outcome_default\<lparr>stop := st,
        detail := (if st = Stop_other
          then (if jit then ''seven-jit'' else ''seven'') @ '' StopReason='' @ fmt_u (stop_number e r) else ''''),
        after := read_cpu e s m reg_default, captures_x87 := True\<rparr>)"

text \<open>The interpreter lane, with the executor's \<^verbatim>\<open>step\<close>, on a new machine.\<close>

definition run_seven ::
  "('w::len word, 'r, 'm) engine \<Rightarrow> (('w word, 'r) cpu_state \<times> 'm \<Rightarrow> seven_stop \<times> ('w word, 'r) cpu_state \<times> 'm) \<Rightarrow>
   test_case \<Rightarrow> lane_outcome" where
  "run_seven e step tc =
     (case write_case e tc (map_pages e (new_memory e)) of (ok, m) \<Rightarrow>
      if \<not> ok then outcome_default\<lparr>setup_ok := False, setup_error := ''seven: failed to write code bytes''\<rparr>
      else (case step (start_cpu e (tc_initial tc), m) of (r, s, m) \<Rightarrow> engine_outcome e False r s m))"

subsection \<open>The JIT lane\<close>

text \<open>\<^verbatim>\<open>seven_jit_lane.cpp\<close> has its own copies of the helpers.\<close>

definition jit_pack_xmm :: "u64 \<Rightarrow> u64 \<Rightarrow> 'w::len word" where
  "jit_pack_xmm lo hi = (let bytes = le_bytes 8 lo @ le_bytes 8 hi in
     fold (\<lambda>i out. out OR push_bit (i * 8) (ucast (bytes ! i))) [0..<16] 0)"

definition jit_unpack_xmm :: "'w::len word \<Rightarrow> u64 \<times> u64" where
  "jit_unpack_xmm v = (let bytes = map (\<lambda>i. ucast (drop_bit (i * 8) v AND 0xFF)) [0..<16] in
     (of_le_bytes (take 8 bytes), of_le_bytes (drop 8 bytes)))"

definition jit_apply_x87 :: "('w::len word, 'r, 'm) engine \<Rightarrow> x87_state \<Rightarrow> ('w word, 'r) cpu_state \<Rightarrow> ('w word, 'r) cpu_state" where
  "jit_apply_x87 e x s =
     (let s1 = set_x87_status_word e (status_word x) (set_x87_control_word e (control_word x) s);
          tp = get_x87_top e s1;
          s2 = fold (\<lambda>i s. s\<lparr>x87_stack := (x87_stack s)[(tp + i) mod 8 := (signif x ! i, signexp x ! i)]\<rparr>) [0..<8] s1
      in fold (\<lambda>phys s. s\<lparr>x87_tags := (x87_tags s)[phys := ucast (drop_bit (2 * phys) (tag_word x) AND 3)]\<rparr>) [0..<8] s2)"

definition jit_read_x87 :: "('w::len word, 'r, 'm) engine \<Rightarrow> ('w word, 'r) cpu_state \<Rightarrow> x87_state" where
  "jit_read_x87 e s =
     (let tp = get_x87_top e s in
      \<lparr>signif = map (\<lambda>i. fst (x87_stack s ! ((tp + i) mod 8))) [0..<8],
       signexp = map (\<lambda>i. snd (x87_stack s ! ((tp + i) mod 8))) [0..<8],
       control_word = get_x87_control_word e s, status_word = get_x87_status_word e s,
       tag_word = tags_word (\<lambda>phys. x87_tags s ! phys AND 3)\<rparr>)"

definition jit_start_cpu :: "('w::len word, 'r, 'm) engine \<Rightarrow> reg_state \<Rightarrow> ('w word, 'r) cpu_state" where
  "jit_start_cpu e r =
     (let s = (new_cpu e)\<lparr>mode := Long64, cpu_rip := kCodeBase, cpu_rflags := rflags r\<rparr>;
          s = s\<lparr>sreg := (sreg s)[1 := 0x33], cpu_gpr := gpr r\<rparr>;
          s = s\<lparr>vectors := fold (\<lambda>i vs. vs[i := jit_pack_xmm (xmm_lo r ! i) (xmm_hi r ! i)]) [0..<16] (vectors s)\<rparr>
      in jit_apply_x87 e (x87 r) s)"

definition jit_outcome :: "('w::len word, 'r, 'm) engine \<Rightarrow> seven_stop \<Rightarrow> ('w word, 'r) cpu_state \<Rightarrow> 'm \<Rightarrow> lane_outcome" where
  "jit_outcome e r s m =
     (let st = jit_map_stop_reason r in
      outcome_default\<lparr>stop := st,
        detail := (if st = Stop_other then ''seven-jit StopReason='' @ fmt_u (stop_number e r) else []),
        after := reg_default\<lparr>gpr := cpu_gpr s, rip := cpu_rip s, rflags := cpu_rflags s,
          xmm_lo := map (\<lambda>i. fst (jit_unpack_xmm (vectors s ! i))) [0..<16],
          xmm_hi := map (\<lambda>i. snd (jit_unpack_xmm (vectors s ! i))) [0..<16],
          x87 := jit_read_x87 e s,
          data_after := (case mem_read e kDataBase kDataWindow m of None \<Rightarrow> data_after reg_default | Some bs \<Rightarrow> bs)\<rparr>,
        captures_x87 := True\<rparr>)"

text \<open>With the caller's executor \<open>j\<close> and memory, which the lane hands back.\<close>

definition run_seven_jit ::
  "('w::len word, 'r, 'm) engine \<Rightarrow> ('j \<Rightarrow> ('w word, 'r) cpu_state \<times> 'm \<Rightarrow> seven_stop \<times> 'j \<times> ('w word, 'r) cpu_state \<times> 'm) \<Rightarrow>
   test_case \<Rightarrow> 'j \<Rightarrow> 'm \<Rightarrow> lane_outcome \<times> 'j \<times> 'm" where
  "run_seven_jit e run tc j m =
     (case write_case e tc (map_pages e (unmap_pages e m)) of (ok, m) \<Rightarrow>
      if \<not> ok then (outcome_default\<lparr>setup_ok := False, setup_error := ''seven-jit: failed to write code bytes''\<rparr>, j, m)
      else (case run j (jit_start_cpu e (tc_initial tc), m) of (r, j, s, m) \<Rightarrow> (jit_outcome e r s m, j, m)))"

text \<open>The copies are the same functions as the originals, so that one set of lemmas serves both lanes; the
  stop reasons alone differ, in the execution limit.\<close>

lemma jit_copies:
  "jit_pack_xmm = pack_xmm" "jit_unpack_xmm = unpack_xmm" "jit_apply_x87 e = apply_x87 e" "jit_read_x87 e = read_x87 e"
  by (simp_all add: fun_eq_iff jit_pack_xmm_def pack_xmm_def jit_unpack_xmm_def unpack_xmm_def
      jit_apply_x87_def apply_x87_def jit_read_x87_def read_x87_def del: upt_rec_numeral)

lemma jit_stop: "jit_map_stop_reason r = (if r = SR_execution_limit then Stop_ok else map_stop_reason r)"
  by (cases r) simp_all

lemma run_seven_jit_same:
  "run_seven_jit e run tc j m =
     (case write_case e tc (map_pages e (unmap_pages e m)) of (ok, m) \<Rightarrow>
      if \<not> ok then (outcome_default\<lparr>setup_ok := False, setup_error := ''seven-jit: failed to write code bytes''\<rparr>, j, m)
      else (case run j (start_cpu e (tc_initial tc), m) of (r, j, s, m) \<Rightarrow> (engine_outcome e True r s m, j, m)))"
proof -
  have cpu: "jit_start_cpu e r = start_cpu e r" for r
    by (simp add: jit_start_cpu_def start_cpu_def jit_copies del: upt_rec_numeral)
  have out: "jit_outcome e r s m = engine_outcome e True r s m" for r s m
    by (simp add: jit_outcome_def engine_outcome_def read_cpu_def jit_copies Let_def del: upt_rec_numeral)
  show ?thesis unfolding run_seven_jit_def cpu out by (rule refl)
qed

subsection \<open>What the lanes rely on\<close>

definition cpu_laws :: "('w::len word, 'r, 'm) engine \<Rightarrow> bool" where
  "cpu_laws e \<longleftrightarrow>
     128 \<le> LENGTH('w) \<and>
     length (x87_stack (new_cpu e)) = 8 \<and> length (x87_tags (new_cpu e)) = 8 \<and> 16 \<le> length (vectors (new_cpu e)) \<and>
     (\<forall>w s. get_x87_control_word e (set_x87_control_word e w s) = w \<and>
            get_x87_control_word e (set_x87_status_word e w s) = get_x87_control_word e s \<and>
            get_x87_status_word e (set_x87_status_word e w s) = w \<and>
            get_x87_top e (set_x87_status_word e w s) = unat (drop_bit 11 w AND 7)) \<and>
     (\<forall>w s. \<forall>t \<in> {set_x87_control_word e w s, set_x87_status_word e w s}.
            cpu_rip t = cpu_rip s \<and> cpu_rflags t = cpu_rflags s \<and> cpu_gpr t = cpu_gpr s \<and> vectors t = vectors s \<and>
            length (x87_stack t) = length (x87_stack s) \<and> length (x87_tags t) = length (x87_tags s)) \<and>
     (\<forall>s st tg. get_x87_control_word e (s\<lparr>x87_stack := st, x87_tags := tg\<rparr>) = get_x87_control_word e s \<and>
            get_x87_status_word e (s\<lparr>x87_stack := st, x87_tags := tg\<rparr>) = get_x87_status_word e s \<and>
            get_x87_top e (s\<lparr>x87_stack := st, x87_tags := tg\<rparr>) = get_x87_top e s)"

text \<open>The engine's memory: a page that is mapped where none was is zero, an unmapped page is gone, mapped
  bytes can be written and read.\<close>

definition memory_laws :: "('w::len word, 'r, 'm) engine \<Rightarrow> ('m \<Rightarrow> view) \<Rightarrow> bool" where
  "memory_laws e view \<longleftrightarrow>
     view (new_memory e) = (\<lambda>x. None) \<and>
     (\<forall>a m. aligned a \<longrightarrow> page_free (view m) a \<longrightarrow> view (mem_map e a kPageSize m) = put_page a (view m)) \<and>
     (\<forall>a m. aligned a \<longrightarrow> view (mem_unmap e a kPageSize m) = drop_page a (view m)) \<and>
     (\<forall>a bs m. mapped (view m) a (length bs) \<longrightarrow>
        fst (mem_write e a bs m) \<and> view (snd (mem_write e a bs m)) = put_bytes a bs (view m)) \<and>
     (\<forall>a n m. mapped (view m) a n \<longrightarrow> mem_read e a n m = Some (memory_at (bytes_of (view m)) a n))"

subsection \<open>Registers go in and come out\<close>

lemma pack_xmm_bytes: "pack_xmm lo hi = of_le_bytes (le_bytes 8 lo @ le_bytes 8 hi)"
  using fold_or_bytes [of "le_bytes 8 lo @ le_bytes 8 hi"] by (simp add: pack_xmm_def Let_def del: upt_rec_numeral)

lemma unpack_pack_xmm:
  assumes "128 \<le> LENGTH('w::len)"
  shows "unpack_xmm (pack_xmm lo hi :: 'w word) = (lo, hi)"
proof -
  define bs where "bs = le_bytes 8 lo @ le_bytes 8 hi"
  define v :: "'w word" where "v = pack_xmm lo hi"
  have "ucast (x AND 0xFF) = (ucast x :: u8)" for x :: "'w word"
  proof -
    have "(0xFF :: 'w word) = mask 8" by (simp add: mask_numeral)
    show ?thesis unfolding \<open>0xFF = mask 8\<close>
      by (intro bit_word_eqI) (auto simp: bit_ucast_iff bit_and_iff bit_mask_iff dest: bit_imp_le_length)
  qed
  then have "map (\<lambda>i. ucast (drop_bit (i * 8) v AND 0xFF)) [0..<16] = le_bytes 16 v"
    by (simp add: le_bytes_def mult.commute del: upt_rec_numeral)
  moreover have "le_bytes 16 v = bs"
    using le_bytes_of_le_bytes [of bs, where 'a = 'w] assms by (simp add: v_def pack_xmm_bytes bs_def)
  ultimately have "unpack_xmm v = (of_le_bytes (take 8 bs), of_le_bytes (drop 8 bs))"
    by (simp only: unpack_xmm_def Let_def)
  then show ?thesis by (simp add: v_def bs_def)
qed

lemma fold_x87_stack:
  "fold (\<lambda>i s. s\<lparr>x87_stack := (x87_stack s)[g i := h i]\<rparr>) xs s = s\<lparr>x87_stack := fold (\<lambda>i l. l[g i := h i]) xs (x87_stack s)\<rparr>"
  by (induction xs arbitrary: s) simp_all

lemma fold_x87_tags:
  "fold (\<lambda>i s. s\<lparr>x87_tags := (x87_tags s)[g i := h i]\<rparr>) xs s = s\<lparr>x87_tags := fold (\<lambda>i l. l[g i := h i]) xs (x87_tags s)\<rparr>"
  by (induction xs arbitrary: s) simp_all

lemma inj_slot: "inj_on (\<lambda>i. (tp + i) mod 8) {0..<8 :: nat}"
proof (rule inj_onI)
  fix i j assume "i \<in> {0..<8}" "j \<in> {0..<8}" "(tp + i) mod 8 = (tp + j) mod 8"
  then have "(int tp + int i) mod 8 = (int tp + int j) mod 8" by (metis of_nat_add of_nat_mod of_nat_numeral)
  then have "(int i - int j) mod 8 = 0" by (simp add: mod_eq_dvd_iff)
  then show "i = j" using \<open>i \<in> {0..<8}\<close> \<open>j \<in> {0..<8}\<close> by auto presburger
qed

text \<open>The stack and the tags as \<open>apply_x87\<close> leaves them.\<close>

definition stack_with :: "nat \<Rightarrow> x87_state \<Rightarrow> (u64 \<times> u16) list \<Rightarrow> (u64 \<times> u16) list" where
  "stack_with tp x = fold (\<lambda>i l. l[(tp + i) mod 8 := (signif x ! i, signexp x ! i)]) [0..<8]"

definition tags_with :: "x87_state \<Rightarrow> u8 list \<Rightarrow> u8 list" where
  "tags_with x = fold (\<lambda>phys l. l[phys := tag_field (tag_word x) phys]) [0..<8]"

lemma nth_stack_with: "length l = 8 \<Longrightarrow> i < 8 \<Longrightarrow> stack_with tp x l ! ((tp + i) mod 8) = (signif x ! i, signexp x ! i)"
  unfolding stack_with_def
  by (rule nth_fold_update [where g = "\<lambda>i. (tp + i) mod 8" and h = "\<lambda>i. (signif x ! i, signexp x ! i)"])
    (use inj_slot in \<open>simp_all del: upt_rec_numeral\<close>)

lemma nth_tags_with: "length l = 8 \<Longrightarrow> p < 8 \<Longrightarrow> tags_with x l ! p = tag_field (tag_word x) p"
  unfolding tags_with_def
  using nth_fold_update [where g = "\<lambda>i. i" and h = "tag_field (tag_word x)" and xs = "[0..<8]" and l = l and i = p]
  by (simp del: upt_rec_numeral)

lemma apply_x87_eq:
  "apply_x87 e x s = (let s1 = set_x87_status_word e (status_word x) (set_x87_control_word e (control_word x) s) in
     s1\<lparr>x87_stack := stack_with (get_x87_top e s1) x (x87_stack s1), x87_tags := tags_with x (x87_tags s1)\<rparr>)"
  by (simp add: apply_x87_def Let_def fold_x87_stack fold_x87_tags stack_with_def tags_with_def tag_field_def
      del: upt_rec_numeral)

lemma tag_field_and_3 [simp]: "tag_field w p AND 3 = tag_field w p"
  by (rule bit_word_eqI) (auto simp: bit_tag_field bit_and_iff)

lemma read_x87_apply_x87:
  assumes "cpu_laws e" "x87_shape x" "length (x87_stack s) = 8" "length (x87_tags s) = 8"
  shows "read_x87 e (apply_x87 e x s) = x"
proof -
  define s1 where "s1 = set_x87_status_word e (status_word x) (set_x87_control_word e (control_word x) s)"
  define t where "t = apply_x87 e x s"
  define tp where "tp = get_x87_top e s1"
  have l: "length (x87_stack s1) = 8" "length (x87_tags s1) = 8" "get_x87_control_word e s1 = control_word x"
    "get_x87_status_word e s1 = status_word x"
    using assms(1,3,4) by (simp_all add: s1_def cpu_laws_def)
  have t: "t = s1\<lparr>x87_stack := stack_with tp x (x87_stack s1), x87_tags := tags_with x (x87_tags s1)\<rparr>"
    by (simp add: t_def apply_x87_eq Let_def s1_def tp_def)
  have g: "get_x87_top e t = tp" "get_x87_control_word e t = control_word x" "get_x87_status_word e t = status_word x"
    using assms(1) l unfolding t tp_def cpu_laws_def by simp_all
  have "map (\<lambda>i. fst (x87_stack t ! ((tp + i) mod 8))) [0..<8] = signif x"
    "map (\<lambda>i. snd (x87_stack t ! ((tp + i) mod 8))) [0..<8] = signexp x"
    using assms(2) l by (auto simp: t nth_stack_with x87_shape_def simp del: upt_rec_numeral intro!: nth_equalityI)
  moreover have "tags_word (\<lambda>phys. x87_tags t ! phys AND 3) = tag_word x"
  proof -
    have "tags_word (\<lambda>phys. x87_tags t ! phys AND 3) = tags_word (tag_field (tag_word x))"
      by (rule tags_word_cong) (simp add: t nth_tags_with l)
    then show ?thesis by simp
  qed
  ultimately have "read_x87 e t = \<lparr>signif = signif x, signexp = signexp x, control_word = control_word x,
      status_word = status_word x, tag_word = tag_word x\<rparr>"
    by (simp only: read_x87_def Let_def g)
  then show ?thesis by (simp add: t_def)
qed


lemma start_cpu_fields:
  assumes "cpu_laws e" "reg_shape r"
  shows "read_cpu e (start_cpu e r) m q = q\<lparr>gpr := gpr r, rip := kCodeBase, rflags := rflags r,
    xmm_lo := xmm_lo r, xmm_hi := xmm_hi r, x87 := x87 r,
    data_after := (case mem_read e kDataBase kDataWindow m of None \<Rightarrow> data_after q | Some bs \<Rightarrow> bs)\<rparr>"
proof -
  define vs where "vs = fold (\<lambda>i vs. vs[i := pack_xmm (xmm_lo r ! i) (xmm_hi r ! i)]) [0..<16] (vectors (new_cpu e))"
  define s0 where "s0 = (new_cpu e)\<lparr>mode := Long64, cpu_rip := kCodeBase, cpu_rflags := rflags r,
    sreg := (sreg (new_cpu e))[1 := 0x33], cpu_gpr := gpr r, vectors := vs\<rparr>"
  have s0: "start_cpu e r = apply_x87 e (x87 r) s0" by (simp add: start_cpu_def Let_def s0_def vs_def del: upt_rec_numeral)
  have sh: "length (xmm_lo r) = 16" "length (xmm_hi r) = 16" "x87_shape (x87 r)" using assms(2) by (simp_all add: reg_shape_def)
  have "cpu_rip (apply_x87 e (x87 r) s0) = cpu_rip s0 \<and> cpu_rflags (apply_x87 e (x87 r) s0) = cpu_rflags s0 \<and>
      cpu_gpr (apply_x87 e (x87 r) s0) = cpu_gpr s0 \<and> vectors (apply_x87 e (x87 r) s0) = vectors s0"
    using assms(1) by (simp add: apply_x87_eq Let_def cpu_laws_def)
  then have f: "cpu_rip (start_cpu e r) = kCodeBase" "cpu_rflags (start_cpu e r) = rflags r"
    "cpu_gpr (start_cpu e r) = gpr r" "vectors (start_cpu e r) = vs"
    by (simp_all add: s0 s0_def)
  have v: "unpack_xmm (vs ! i) = (xmm_lo r ! i, xmm_hi r ! i)" if "i < 16" for i
  proof -
    have "vs ! i = pack_xmm (xmm_lo r ! i) (xmm_hi r ! i)"
      unfolding vs_def using that assms(1)
      by (intro nth_fold_update [where g = "\<lambda>i. i"]) (simp_all add: cpu_laws_def del: upt_rec_numeral)
    then show ?thesis using assms(1) by (simp add: unpack_pack_xmm cpu_laws_def)
  qed
  have "map (\<lambda>i. fst (unpack_xmm (vs ! i))) [0..<16] = xmm_lo r" "map (\<lambda>i. snd (unpack_xmm (vs ! i))) [0..<16] = xmm_hi r"
    using sh by (auto simp: v simp del: upt_rec_numeral intro!: nth_equalityI)
  moreover have "read_x87 e (start_cpu e r) = x87 r"
    unfolding s0 using assms(1) sh by (intro read_x87_apply_x87) (simp_all add: s0_def cpu_laws_def)
  ultimately show ?thesis by (simp add: read_cpu_def f del: upt_rec_numeral)
qed

subsection \<open>Pages are those of the test case\<close>

lemma map_pages_view:
  assumes "memory_laws e view" "unmapped (view m)"
  shows "view (map_pages e m) = fresh_pages (view m)"
  using assms(1) pages_free [OF assms(2)] by (simp add: memory_laws_def map_pages_def fresh_pages_def)

lemma unmapped_unmap_pages:
  assumes "memory_laws e view"
  shows "unmapped (view (unmap_pages e m))"
  using assms unmapped_dropped_pages [of "view m"] by (simp add: memory_laws_def unmap_pages_def dropped_pages_def)

lemma write_case_view:
  assumes "memory_laws e view" "pages_mapped (view m)" "tc_ok tc"
  shows "fst (write_case e tc m) \<and> view (snd (write_case e tc m)) = with_case tc (view m)"
proof -
  have tc: "length (tc_data_seed tc) = kDataWindow" "length (tc_bytes tc) \<le> kPageSize" using assms(3) by (simp_all add: tc_ok_def)
  have w: "fst (mem_write e a bs n) \<and> view (snd (mem_write e a bs n)) = put_bytes a bs (view n)"
    if "mapped (view n) a (length bs)" for a bs n
    using assms(1) that by (simp add: memory_laws_def)
  obtain w1 m1 where 1: "mem_write e kStackTop (le_bytes 8 kCodeBase) m = (w1, m1)" by fastforce
  then have m1: "view m1 = put_bytes kStackTop (le_bytes 8 kCodeBase) (view m)" "pages_mapped (view m1)"
    using w [of m kStackTop "le_bytes 8 kCodeBase"] mapped_parts(1) [OF assms(2)] assms(2) by auto
  obtain w2 m2 where 2: "mem_write e kDataBase (tc_data_seed tc) m1 = (w2, m2)" by fastforce
  then have m2: "view m2 = put_bytes kDataBase (tc_data_seed tc) (view m1)" "pages_mapped (view m2)"
    using w [of m1 kDataBase "tc_data_seed tc"] mapped_parts(2) [OF m1(2)] m1 tc by auto
  then show ?thesis
    using w [of m2 kCodeBase "tc_bytes tc"] mapped_parts(3) [OF m2(2)] tc m1
    by (simp add: write_case_def 1 2 with_case_def)
qed

lemma write_case_scratch:
  assumes "memory_laws e view" "unmapped (view m)" "tc_ok tc"
  shows "fst (write_case e tc (map_pages e m))" "pages_mapped (view (snd (write_case e tc (map_pages e m))))"
    "k < 0x3000 \<Longrightarrow> bytes_of (view (snd (write_case e tc (map_pages e m)))) (kCodeBase + of_nat k) = scratch_byte tc k"
  using write_case_view [OF assms(1) _ assms(3), of "map_pages e m"] with_case_scratch [OF assms(3)]
  by (simp_all add: map_pages_view [OF assms(1,2)] pages_mapped_fresh pages_mapped_with_case)

subsection \<open>The contract of a lane\<close>

text \<open>What a stop reason of the engine says of the instruction: the interpreter says \<open>SR_none\<close> when it
  completed, the JIT may also say that its budget of one instruction is spent.

  An engine with the view of its memory, a processor state and a memory. Before a test case the laws
  are all that is asked; after it the three pages are still mapped.\<close>

type_synonym ('v, 'r, 'm) machine_state = "('v, 'r, 'm) engine \<times> ('m \<Rightarrow> view) \<times> ('v, 'r) cpu_state \<times> 'm"

definition engine_usable :: "('w::len word, 'r, 'm) machine_state \<Rightarrow> bool" where
  "engine_usable = (\<lambda>(e, view, s, m). cpu_laws e \<and> memory_laws e view)"

definition engine_intact :: "('w::len word, 'r, 'm) machine_state \<Rightarrow> bool" where
  "engine_intact = (\<lambda>(e, view, s, m). memory_laws e view \<and> pages_mapped (view m))"

definition engine_machine :: "nat \<Rightarrow> ('w::len word, 'r, 'm) machine_state \<Rightarrow> machine" where
  "engine_machine n = (\<lambda>(e, view, s, m). observed n (read_cpu e s m reg_default) (bytes_of (view m)))"

fun seven_faults :: "fault \<Rightarrow> seven_stop list" where
  "seven_faults Fault_ud = [SR_invalid_opcode, SR_unsupported_instruction, SR_decode_error]"
| "seven_faults Fault_gp = [SR_general_protection]"
| "seven_faults Fault_pf = [SR_page_fault]"
| "seven_faults Fault_de = [SR_divide_error]"

definition engine_answer :: "bool \<Rightarrow> seven_stop \<Rightarrow> fault option \<Rightarrow> bool" where
  "engine_answer jit r f \<longleftrightarrow> (case f of
     None \<Rightarrow> r = SR_none \<or> jit \<and> r = SR_execution_limit
   | Some f \<Rightarrow> r \<in> set (seven_faults f))"

lemma seven_faults_stop: "r \<in> set (seven_faults f) \<Longrightarrow> map_stop_reason r = fault_stop f \<and> jit_map_stop_reason r = fault_stop f"
  by (cases f) auto

lemma engine_answer_stop:
  "engine_answer jit r f \<Longrightarrow> lane_stop jit r = (case f of None \<Rightarrow> Stop_ok | Some f \<Rightarrow> fault_stop f)"
  using seven_faults_stop by (cases jit; cases f) (auto simp: engine_answer_def)

definition engine_result :: "bool \<Rightarrow> seven_stop \<Rightarrow> ('w::len word, 'r, 'm) machine_state \<Rightarrow> lane_outcome" where
  "engine_result jit r = (\<lambda>(e, view, s, m). engine_outcome e jit r s m)"

definition prepare_seven :: "test_case \<Rightarrow> ('w::len word, 'r, 'm) machine_state \<Rightarrow> ('w word, 'r, 'm) machine_state" where
  "prepare_seven tc = (\<lambda>(e, view, s, m).
     (e, view, start_cpu e (tc_initial tc), snd (write_case e tc (map_pages e (new_memory e)))))"

definition prepare_seven_jit :: "test_case \<Rightarrow> ('w::len word, 'r, 'm) machine_state \<Rightarrow> ('w word, 'r, 'm) machine_state" where
  "prepare_seven_jit tc = (\<lambda>(e, view, s, m).
     (e, view, start_cpu e (tc_initial tc), snd (write_case e tc (map_pages e (unmap_pages e m)))))"

lemma engine_start:
  assumes "cpu_laws e" "memory_laws e view" "unmapped (view m)" "tc_ok tc"
  shows "engine_machine (length (tc_bytes tc))
    (e, view, start_cpu e (tc_initial tc), snd (write_case e tc (map_pages e m))) = start_machine tc"
proof -
  have "reg_shape (tc_initial tc)" using assms(4) by (simp add: tc_ok_def)
  note f = start_cpu_fields [OF assms(1) this, of "snd (write_case e tc (map_pages e m))" reg_default]
  have "bytes_of (view (snd (write_case e tc (map_pages e m)))) (kCodeBase + of_nat k) = scratch_byte tc k"
    if "k < 0x3000" for k
    using write_case_scratch(3) [OF assms(2-4)] that by simp
  then show ?thesis unfolding engine_machine_def by (simp add: f observed_start [OF assms(4)])
qed

lemma engine_reports:
  shows "engine_answer jit r (Some f) \<Longrightarrow> reports True (Inl f) (engine_result jit r x)"
    "engine_answer jit r None \<Longrightarrow> engine_intact x \<Longrightarrow> reports True (Inr (engine_machine n x)) (engine_result jit r x)"
proof -
  obtain e view s m where x: "x = (e, view, s, m)" by (cases x)
  show "engine_answer jit r (Some f) \<Longrightarrow> reports True (Inl f) (engine_result jit r x)"
    using engine_answer_stop [of jit r "Some f"] by (simp add: x engine_result_def engine_outcome_def Let_def outcome_default_def)
  assume a: "engine_answer jit r None" "engine_intact x"
  have "mem_read e kDataBase kDataWindow m = Some (memory_at (bytes_of (view m)) kDataBase kDataWindow)"
    using a(2) mapped_parts(2) by (simp add: x engine_intact_def memory_laws_def)
  then show "reports True (Inr (engine_machine n x)) (engine_result jit r x)"
    using engine_answer_stop [OF a(1)] by (simp add: x engine_result_def engine_outcome_def Let_def outcome_default_def
        engine_machine_def observed_def read_cpu_def take_memory_at kDataWindow_def kPageSize_def del: upt_rec_numeral)
qed

interpretation seven: lane engine_usable prepare_seven engine_machine "engine_answer False" engine_intact
  "engine_result False" True
proof
  fix x :: "('w::len word, 'r, 'm) machine_state" and tc
  assume "engine_usable x" "tc_ok tc"
  moreover obtain e view s m where x: "x = (e, view, s, m)" by (cases x)
  moreover have "memory_laws e view \<Longrightarrow> unmapped (view (new_memory e))" by (simp add: memory_laws_def unmapped_def)
  ultimately show "engine_machine (length (tc_bytes tc)) (prepare_seven tc x) = start_machine tc"
    by (simp add: engine_usable_def prepare_seven_def engine_start)
qed (rule engine_reports, assumption)+

interpretation seven_jit: lane engine_usable prepare_seven_jit engine_machine "engine_answer True" engine_intact
  "engine_result True" True
proof
  fix x :: "('w::len word, 'r, 'm) machine_state" and tc
  assume "engine_usable x" "tc_ok tc"
  moreover obtain e view s m where x: "x = (e, view, s, m)" by (cases x)
  ultimately show "engine_machine (length (tc_bytes tc)) (prepare_seven_jit tc x) = start_machine tc"
    by (simp add: engine_usable_def prepare_seven_jit_def engine_start unmapped_unmap_pages)
qed (rule engine_reports, assumption)+


text \<open>The executors as steps of the whole state, and what it means that they implement an instruction set on
  one test case.\<close>

definition seven_implements ::
  "isa \<Rightarrow> ('w::len word, 'r, 'm) engine \<Rightarrow> ('m \<Rightarrow> view) \<Rightarrow>
   (('w word, 'r) cpu_state \<times> 'm \<Rightarrow> seven_stop \<times> ('w word, 'r) cpu_state \<times> 'm) \<Rightarrow> test_case \<Rightarrow> bool" where
  "seven_implements isa e view step tc \<longleftrightarrow>
     implements (engine_answer False) engine_machine engine_intact isa
       (\<lambda>(e, view, s, m). case step (s, m) of (r, s, m) \<Rightarrow> (r, (e, view, s, m)))
       (length (tc_bytes tc)) (prepare_seven tc (e, view, new_cpu e, new_memory e))"

definition jit_implements ::
  "isa \<Rightarrow> ('w::len word, 'r, 'm) engine \<Rightarrow> ('m \<Rightarrow> view) \<Rightarrow>
   ('j \<Rightarrow> ('w word, 'r) cpu_state \<times> 'm \<Rightarrow> seven_stop \<times> 'j \<times> ('w word, 'r) cpu_state \<times> 'm) \<Rightarrow>
   test_case \<Rightarrow> 'j \<Rightarrow> 'm \<Rightarrow> bool" where
  "jit_implements isa e view run tc j m \<longleftrightarrow>
     implements (engine_answer True) engine_machine engine_intact isa
       (\<lambda>(e, view, s, m). case run j (s, m) of (r, j, s, m) \<Rightarrow> (r, (e, view, s, m)))
       (length (tc_bytes tc)) (prepare_seven_jit tc (e, view, new_cpu e, m))"

lemma run_seven_reports:
  assumes "cpu_laws e" "memory_laws e view" "tc_ok tc" "seven_implements isa e view step tc"
  shows "reports True (isa (start_machine tc)) (run_seven e step tc)"
proof -
  define m where "m = snd (write_case e tc (map_pages e (new_memory e)))"
  obtain r s' m' where st: "step (start_cpu e (tc_initial tc), m) = (r, s', m')" by (cases "step (start_cpu e (tc_initial tc), m)")
  have "unmapped (view (new_memory e))" using assms(2) by (simp add: memory_laws_def unmapped_def)
  then have "fst (write_case e tc (map_pages e (new_memory e)))"
    by (rule write_case_scratch(1) [OF assms(2) _ assms(3)])
  then have "run_seven e step tc = engine_result False r (e, view, s', m')"
    by (simp add: run_seven_def engine_result_def st m_def [symmetric] split_beta)
  moreover have "reports True (isa (start_machine tc)) (engine_result False r (e, view, s', m'))"
    by (rule seven.reports_result [OF _ assms(3) assms(4) [unfolded seven_implements_def]])
      (use assms(1,2) in \<open>simp_all add: engine_usable_def prepare_seven_def m_def [symmetric] st\<close>)
  ultimately show ?thesis by simp
qed

lemma run_seven_jit_reports:
  assumes "cpu_laws e" "memory_laws e view" "tc_ok tc" "jit_implements isa e view run tc j m"
  shows "reports True (isa (start_machine tc)) (fst (run_seven_jit e run tc j m))"
proof -
  define m0 where "m0 = snd (write_case e tc (map_pages e (unmap_pages e m)))"
  obtain r j' s' m' where st: "run j (start_cpu e (tc_initial tc), m0) = (r, j', s', m')"
    by (cases "run j (start_cpu e (tc_initial tc), m0)")
  have "fst (write_case e tc (map_pages e (unmap_pages e m)))"
    by (rule write_case_scratch(1) [OF assms(2) unmapped_unmap_pages [OF assms(2)] assms(3)])
  then have "fst (run_seven_jit e run tc j m) = engine_result True r (e, view, s', m')"
    by (simp add: run_seven_jit_same engine_result_def st m0_def [symmetric] split_beta)
  moreover have "reports True (isa (start_machine tc)) (engine_result True r (e, view, s', m'))"
    by (rule seven_jit.reports_result [OF _ assms(3) assms(4) [unfolded jit_implements_def]])
      (use assms(1,2) in \<open>simp_all add: engine_usable_def prepare_seven_jit_def m0_def [symmetric] st\<close>)
  ultimately show ?thesis by simp
qed

subsection \<open>An engine with these laws\<close>

text \<open>The laws are satisfiable: registers of 512 bits, the two x87 words kept as they are, a memory that is its
  own view.\<close>

definition plain_engine :: "(512 word, u16 \<times> u16, view) engine" where
  "plain_engine =
     \<lparr>new_cpu = \<lparr>mode = Another_mode, cpu_rip = 0, cpu_rflags = 0, sreg = replicate 6 0, cpu_gpr = replicate 16 0,
        vectors = replicate 32 0, x87_stack = replicate 8 (0, 0), x87_tags = replicate 8 3, cpu_private = (0x37F, 0)\<rparr>,
      set_x87_control_word = (\<lambda>w s. s\<lparr>cpu_private := (w, snd (cpu_private s))\<rparr>),
      set_x87_status_word = (\<lambda>w s. s\<lparr>cpu_private := (fst (cpu_private s), w)\<rparr>),
      get_x87_control_word = (\<lambda>s. fst (cpu_private s)),
      get_x87_status_word = (\<lambda>s. snd (cpu_private s)),
      get_x87_top = (\<lambda>s. unat (drop_bit 11 (snd (cpu_private s)) AND 7)),
      new_memory = (\<lambda>x. None),
      mem_map = (\<lambda>a n m. put_bytes a (replicate n 0) m),
      mem_unmap = (\<lambda>a n m x. if unat (x - a) < n then None else m x),
      mem_write = (\<lambda>a bs m. if mapped m a (length bs) then (True, put_bytes a bs m) else (False, m)),
      mem_read = (\<lambda>a n m. if mapped m a n then Some (memory_at (bytes_of m) a n) else None),
      stop_number = (\<lambda>r. 0)\<rparr>"

lemma plain_engine_laws: "cpu_laws plain_engine" "memory_laws plain_engine (\<lambda>m. m)"
  by (simp_all add: cpu_laws_def memory_laws_def plain_engine_def drop_page_def put_page_def)

end
