(* ===== verification/UnicornLane.thy ===== *)
theory UnicornLane
  imports Pages
begin

section \<open>The Unicorn lane\<close>

text \<open>
  \<^verbatim>\<open>src/lanes/unicorn_lane.cpp\<close>. Unicorn is third-party: its calls are the fields of a \<open>uc_api\<close>, a
  parameter of every definition, over an opaque engine state. A register is read and written as the
  bytes at the pointer handed to the call. What the lane relies on is \<open>uc_laws\<close>; the lane then
  fulfils the contract \<open>lane\<close>, without the x87 state, which it sets but never reads back.
\<close>

subsection \<open>Unicorn's interface\<close>

datatype uc_err =
  UC_ERR_OK | UC_ERR_INSN_INVALID | UC_ERR_READ_UNMAPPED | UC_ERR_WRITE_UNMAPPED | UC_ERR_FETCH_UNMAPPED
  | UC_ERR_READ_PROT | UC_ERR_WRITE_PROT | UC_ERR_FETCH_PROT | UC_ERR_another nat

datatype uc_reg =
  REG_RAX | REG_RCX | REG_RDX | REG_RBX | REG_RSP | REG_RBP | REG_RSI | REG_RDI
  | REG_R8 | REG_R9 | REG_R10 | REG_R11 | REG_R12 | REG_R13 | REG_R14 | REG_R15
  | REG_RIP | REG_EFLAGS | REG_XMM nat | REG_FPSW | REG_FPCW | REG_ST nat | REG_FPTAG

text \<open>Opening gives an error, with the handle if one was written, or an engine. A register that cannot be
  read leaves the variable at the pointer as it was. A run returns its code, the numbers of the
  interrupts the hook was called with, in order, and the engine.\<close>

record 'u uc_api =
  uc_open :: "(uc_err \<times> 'u option) + 'u"
  uc_mem_map :: "u64 \<Rightarrow> nat \<Rightarrow> 'u \<Rightarrow> uc_err \<times> 'u"
  uc_mem_write :: "u64 \<Rightarrow> u8 list \<Rightarrow> 'u \<Rightarrow> uc_err \<times> 'u"
  uc_mem_read :: "u64 \<Rightarrow> nat \<Rightarrow> 'u \<Rightarrow> u8 list option"
  uc_reg_write :: "uc_reg \<Rightarrow> u8 list \<Rightarrow> 'u \<Rightarrow> uc_err \<times> 'u"
  uc_reg_read :: "uc_reg \<Rightarrow> 'u \<Rightarrow> u8 list option"
  uc_emu_start :: "u64 \<Rightarrow> u64 \<Rightarrow> nat \<Rightarrow> 'u \<Rightarrow> uc_err \<times> u32 list \<times> 'u"
  uc_strerror :: "uc_err \<Rightarrow> string"

definition kGprRegIds :: "uc_reg list" where
  "kGprRegIds = [REG_RAX, REG_RCX, REG_RDX, REG_RBX, REG_RSP, REG_RBP, REG_RSI, REG_RDI,
     REG_R8, REG_R9, REG_R10, REG_R11, REG_R12, REG_R13, REG_R14, REG_R15]"

definition kXmmRegIds :: "uc_reg list" where
  "kXmmRegIds = map REG_XMM [0..<16]"

subsection \<open>Stops\<close>

fun map_uc_err :: "uc_err \<Rightarrow> stop_reason" where
  "map_uc_err UC_ERR_OK = Stop_ok"
| "map_uc_err UC_ERR_INSN_INVALID = Stop_ud"
| "map_uc_err UC_ERR_READ_UNMAPPED = Stop_pf"
| "map_uc_err UC_ERR_WRITE_UNMAPPED = Stop_pf"
| "map_uc_err UC_ERR_FETCH_UNMAPPED = Stop_pf"
| "map_uc_err UC_ERR_READ_PROT = Stop_pf"
| "map_uc_err UC_ERR_WRITE_PROT = Stop_pf"
| "map_uc_err UC_ERR_FETCH_PROT = Stop_pf"
| "map_uc_err (UC_ERR_another n) = Stop_other"

definition map_intno :: "u32 \<Rightarrow> stop_reason" where
  "map_intno intno = (if intno = 0 then Stop_de else if intno = 6 then Stop_ud
     else if intno = 13 then Stop_gp else if intno = 14 then Stop_pf else Stop_other)"

text \<open>The hook stores the number of the interrupt it is called with.\<close>

definition hook_intr :: "u32 \<Rightarrow> u32 \<Rightarrow> u32" where
  "hook_intr intno user_data = intno"

definition unicorn_stop :: "uc_err \<times> u32 list \<Rightarrow> stop_reason" where
  "unicorn_stop = (\<lambda>(err, interrupts).
     let intno = fold hook_intr interrupts 0xFFFFFFFF
     in if intno \<noteq> 0xFFFFFFFF then map_intno intno else map_uc_err err)"

subsection \<open>Setting the engine up\<close>

text \<open>The calls of the set-up in their order. The name is the one \<^verbatim>\<open>fail\<close> is given when the call's
  result is checked; the results of the two writes before the code's are not.\<close>

datatype uc_call = Mem_map u64 nat | Mem_write u64 "u8 list" | Reg_write uc_reg "u8 list"

definition memory_calls :: "test_case \<Rightarrow> (string option \<times> uc_call) list" where
  "memory_calls tc =
     [(Some ''map code'', Mem_map kCodeBase kPageSize),
      (Some ''map data'', Mem_map kDataBase kPageSize),
      (Some ''map stack'', Mem_map kStackBase kPageSize),
      (None, Mem_write kStackTop (le_bytes 8 kCodeBase)),
      (None, Mem_write kDataBase (tc_data_seed tc))] @
     (if tc_bytes tc = [] then [] else [(Some ''write code'', Mem_write kCodeBase (tc_bytes tc))])"

definition register_calls :: "reg_state \<Rightarrow> (string option \<times> uc_call) list" where
  "register_calls r =
     map (\<lambda>i. (Some ''gpr write'', Reg_write (kGprRegIds ! i) (le_bytes 8 (gpr r ! i)))) [0..<16] @
     [(Some ''rip write'', Reg_write REG_RIP (le_bytes 8 kCodeBase)),
      (Some ''eflags write'', Reg_write REG_EFLAGS (le_bytes 8 (rflags r)))] @
     map (\<lambda>i. (Some ''xmm write'', Reg_write (kXmmRegIds ! i) (le_bytes 8 (xmm_lo r ! i) @ le_bytes 8 (xmm_hi r ! i)))) [0..<16]"

definition x87_calls :: "x87_state \<Rightarrow> (string option \<times> uc_call) list" where
  "x87_calls x =
     [(Some ''fpsw write'', Reg_write REG_FPSW (le_bytes 2 (status_word x))),
      (Some ''fpcw write'', Reg_write REG_FPCW (le_bytes 2 (control_word x)))] @
     map (\<lambda>i. (Some ''st write'', Reg_write (REG_ST i) (le_bytes 8 (signif x ! i) @ le_bytes 2 (signexp x ! i)))) [0..<8] @
     [(Some ''fptag write'', Reg_write REG_FPTAG (le_bytes 2 (tag_word x)))]"

definition setup_calls :: "test_case \<Rightarrow> (string option \<times> uc_call) list" where
  "setup_calls tc = memory_calls tc @ register_calls (tc_initial tc) @ x87_calls (x87 (tc_initial tc))"

fun call :: "'u uc_api \<Rightarrow> uc_call \<Rightarrow> 'u \<Rightarrow> uc_err \<times> 'u" where
  "call api (Mem_map a n) u = uc_mem_map api a n u"
| "call api (Mem_write a bs) u = uc_mem_write api a bs u"
| "call api (Reg_write r bs) u = uc_reg_write api r bs u"

text \<open>A checked call that fails ends the set-up with its name and its error.\<close>

fun perform :: "'u uc_api \<Rightarrow> (string option \<times> uc_call) list \<Rightarrow> 'u \<Rightarrow> (string \<times> uc_err) + 'u" where
  "perform api [] u = Inr u"
| "perform api ((what, c) # cs) u = (case call api c u of (err, u) \<Rightarrow>
     (case what of
        Some w \<Rightarrow> if err \<noteq> UC_ERR_OK then Inl (w, err) else perform api cs u
      | None \<Rightarrow> perform api cs u))"

subsection \<open>One test case\<close>

definition unicorn_fail :: "'u uc_api \<Rightarrow> string \<Rightarrow> uc_err \<Rightarrow> lane_outcome" where
  "unicorn_fail api what err = outcome_default\<lparr>setup_ok := False,
     setup_error := ''unicorn: '' @ what @ '' failed: '' @ uc_strerror api err\<rparr>"

definition reg_bytes :: "'u uc_api \<Rightarrow> uc_reg \<Rightarrow> 'u \<Rightarrow> u8 list" where
  "reg_bytes api r u = (case uc_reg_read api r u of None \<Rightarrow> [] | Some bs \<Rightarrow> bs)"

definition read_unicorn :: "'u uc_api \<Rightarrow> 'u \<Rightarrow> reg_state \<Rightarrow> reg_state" where
  "read_unicorn api u r = r\<lparr>
     gpr := map (\<lambda>i. of_le_bytes (reg_bytes api (kGprRegIds ! i) u)) [0..<16],
     rip := of_le_bytes (reg_bytes api REG_RIP u), rflags := of_le_bytes (reg_bytes api REG_EFLAGS u),
     xmm_lo := map (\<lambda>i. of_le_bytes (take 8 (reg_bytes api (kXmmRegIds ! i) u))) [0..<16],
     xmm_hi := map (\<lambda>i. of_le_bytes (drop 8 (reg_bytes api (kXmmRegIds ! i) u))) [0..<16],
     data_after := (case uc_mem_read api kDataBase kDataWindow u of None \<Rightarrow> data_after r | Some bs \<Rightarrow> bs)\<rparr>"

definition unicorn_outcome :: "'u uc_api \<Rightarrow> uc_err \<times> u32 list \<Rightarrow> 'u \<Rightarrow> lane_outcome" where
  "unicorn_outcome api e u = outcome_default\<lparr>stop := unicorn_stop e,
     detail := (if unicorn_stop e = Stop_other then ''unicorn uc_err='' @ uc_strerror api (fst e) else ''''),
     after := read_unicorn api u reg_default\<rparr>"

text \<open>The lane, with the number of times it calls \<^verbatim>\<open>uc_close\<close>. The address the run would stop at cannot be
  reached; its bound is the count of one instruction.\<close>

definition run_unicorn :: "'u uc_api \<Rightarrow> test_case \<Rightarrow> lane_outcome \<times> nat" where
  "run_unicorn api tc = (case uc_open api of
     Inl (err, h) \<Rightarrow> (unicorn_fail api ''uc_open'' err, case h of None \<Rightarrow> 0 | Some u \<Rightarrow> 1)
   | Inr u \<Rightarrow> (case perform api (setup_calls tc) u of
       Inl (what, err) \<Rightarrow> (unicorn_fail api what err, 1)
     | Inr u \<Rightarrow> (case uc_emu_start api kCodeBase 0xFFFFFFFFFFFFFFFF 1 u of (err, interrupts, u) \<Rightarrow>
         (unicorn_outcome api (err, interrupts) u, 1))))"


subsection \<open>What the lane relies on\<close>

text \<open>The bytes of a register. Writing one register leaves the others as they are, but for two that Unicorn
  derives others from: the status word places the stack registers and their tags, and a stack
  register has a tag. Of the flags only the compared ones are read back as written.\<close>

fun reg_size :: "uc_reg \<Rightarrow> nat" where
  "reg_size (REG_XMM n) = 16"
| "reg_size (REG_ST n) = 10"
| "reg_size REG_FPSW = 2"
| "reg_size REG_FPCW = 2"
| "reg_size REG_FPTAG = 2"
| "reg_size r = 8"

fun is_st :: "uc_reg \<Rightarrow> bool" where
  "is_st (REG_ST n) = True"
| "is_st r = False"

definition disturbs :: "uc_reg \<Rightarrow> uc_reg \<Rightarrow> bool" where
  "disturbs r q \<longleftrightarrow> r = q \<or> r = REG_FPSW \<and> (is_st q \<or> q = REG_FPTAG) \<or> is_st r \<and> q = REG_FPTAG"

definition shown :: "uc_reg \<Rightarrow> u8 list \<Rightarrow> u8 list option \<Rightarrow> bool" where
  "shown r bs v \<longleftrightarrow> (if r = REG_EFLAGS
     then (case v of None \<Rightarrow> False | Some cs \<Rightarrow>
       (of_le_bytes cs :: u64) AND kCompareFlagsMask = of_le_bytes bs AND kCompareFlagsMask)
     else v = Some bs)"

definition uc_laws :: "'u uc_api \<Rightarrow> ('u \<Rightarrow> view) \<Rightarrow> bool" where
  "uc_laws api view \<longleftrightarrow>
     (\<exists>u. uc_open api = Inr u \<and> view u = (\<lambda>x. None)) \<and>
     (\<forall>a u. aligned a \<longrightarrow> page_free (view u) a \<longrightarrow>
        fst (uc_mem_map api a kPageSize u) = UC_ERR_OK \<and> view (snd (uc_mem_map api a kPageSize u)) = put_page a (view u)) \<and>
     (\<forall>a bs u. mapped (view u) a (length bs) \<longrightarrow>
        fst (uc_mem_write api a bs u) = UC_ERR_OK \<and> view (snd (uc_mem_write api a bs u)) = put_bytes a bs (view u)) \<and>
     (\<forall>a n u. mapped (view u) a n \<longrightarrow> uc_mem_read api a n u = Some (memory_at (bytes_of (view u)) a n)) \<and>
     (\<forall>r bs u. length bs = reg_size r \<longrightarrow>
        fst (uc_reg_write api r bs u) = UC_ERR_OK \<and> view (snd (uc_reg_write api r bs u)) = view u \<and>
        shown r bs (uc_reg_read api r (snd (uc_reg_write api r bs u))) \<and>
        (\<forall>q. \<not> disturbs r q \<longrightarrow> uc_reg_read api q (snd (uc_reg_write api r bs u)) = uc_reg_read api q u))"

subsection \<open>The set-up takes effect\<close>

lemma perform_append: "perform api (cs @ ds) u = (case perform api cs u of Inl e \<Rightarrow> Inl e | Inr v \<Rightarrow> perform api ds v)"
  by (induction api cs u rule: perform.induct) (auto split: prod.splits option.splits)

lemma perform_memory:
  assumes "uc_laws api view" "view u = (\<lambda>x. None)" "tc_ok tc"
  shows "\<exists>v. perform api (memory_calls tc) u = Inr v \<and> view v = with_case tc (fresh_pages (\<lambda>x. None))"
proof -
  have tc: "length (tc_data_seed tc) = kDataWindow" "length (tc_bytes tc) \<le> kPageSize" using assms(3) by (simp_all add: tc_ok_def)
  have m: "\<exists>v. uc_mem_map api a kPageSize u = (UC_ERR_OK, v) \<and> view v = put_page a (view u)"
    if "aligned a" "page_free (view u) a" for a u
    using assms(1) that unfolding uc_laws_def by (metis prod.collapse)
  have w: "\<exists>v. uc_mem_write api a bs u = (UC_ERR_OK, v) \<and> view v = put_bytes a bs (view u)"
    if "mapped (view u) a (length bs)" for a bs u
    using assms(1) that unfolding uc_laws_def by (metis prod.collapse)
  have "unmapped (view u)" by (simp add: assms(2) unmapped_def)
  note free = pages_free [OF this]
  obtain u1 where 1: "uc_mem_map api kCodeBase kPageSize u = (UC_ERR_OK, u1)" "view u1 = put_page kCodeBase (view u)"
    using m [of kCodeBase u] free by auto
  obtain u2 where 2: "uc_mem_map api kDataBase kPageSize u1 = (UC_ERR_OK, u2)" "view u2 = put_page kDataBase (view u1)"
    using m [of kDataBase u1] free 1 by auto
  obtain u3 where 3: "uc_mem_map api kStackBase kPageSize u2 = (UC_ERR_OK, u3)" "view u3 = put_page kStackBase (view u2)"
    using m [of kStackBase u2] free 1 2 by auto
  have v3: "view u3 = fresh_pages (\<lambda>x. None)" using 1 2 3 assms(2) by (simp add: fresh_pages_def)
  then have p3: "pages_mapped (view u3)" by (simp add: pages_mapped_fresh)
  obtain u4 where 4: "uc_mem_write api kStackTop (le_bytes 8 kCodeBase) u3 = (UC_ERR_OK, u4)"
    "view u4 = put_bytes kStackTop (le_bytes 8 kCodeBase) (view u3)"
    using w [of u3 kStackTop "le_bytes 8 kCodeBase"] mapped_parts(1) [OF p3] by auto
  then have p4: "pages_mapped (view u4)" using p3 by auto
  obtain u5 where 5: "uc_mem_write api kDataBase (tc_data_seed tc) u4 = (UC_ERR_OK, u5)"
    "view u5 = put_bytes kDataBase (tc_data_seed tc) (view u4)"
    using w [of u4 kDataBase "tc_data_seed tc"] mapped_parts(2) [OF p4] tc by auto
  then have p5: "pages_mapped (view u5)" using p4 by auto
  obtain u6 where 6: "uc_mem_write api kCodeBase (tc_bytes tc) u5 = (UC_ERR_OK, u6)"
    "view u6 = put_bytes kCodeBase (tc_bytes tc) (view u5)"
    using w [of u5 kCodeBase "tc_bytes tc"] mapped_parts(3) [OF p5] tc by auto
  show ?thesis
  proof (cases "tc_bytes tc = []")
    case True
    then show ?thesis by (simp add: memory_calls_def 1 2 3 4 5 v3 [symmetric] with_case_def)
  next
    case False
    then show ?thesis by (simp add: memory_calls_def 1(1) 2(1) 3(1) 4 5 6 v3 with_case_def)
  qed
qed

text \<open>Register writes: which values are still there at the end of a list of them.\<close>

fun reg_call_ok :: "string option \<times> uc_call \<Rightarrow> bool" where
  "reg_call_ok (w, Reg_write r bs) \<longleftrightarrow> length bs = reg_size r"
| "reg_call_ok _ \<longleftrightarrow> False"

fun quiet :: "uc_reg \<Rightarrow> string option \<times> uc_call \<Rightarrow> bool" where
  "quiet q (w, Reg_write r bs) \<longleftrightarrow> \<not> disturbs r q"
| "quiet q _ \<longleftrightarrow> True"

fun settled :: "(string option \<times> uc_call) list \<Rightarrow> uc_reg \<Rightarrow> u8 list \<Rightarrow> bool" where
  "settled [] r bs \<longleftrightarrow> False"
| "settled (c # cs) r bs \<longleftrightarrow> settled cs r bs \<or> snd c = Reg_write r bs \<and> list_all (quiet r) cs"

lemma settled_append: "settled (cs @ ds) r bs \<longleftrightarrow> settled ds r bs \<or> settled cs r bs \<and> list_all (quiet r) ds"
  by (induction cs) auto

lemma perform_registers:
  assumes "uc_laws api view"
  shows "list_all reg_call_ok cs \<Longrightarrow>
    \<exists>v. perform api cs u = Inr v \<and> view v = view u \<and>
      (\<forall>r bs. settled cs r bs \<longrightarrow> shown r bs (uc_reg_read api r v)) \<and>
      (\<forall>r. list_all (quiet r) cs \<longrightarrow> uc_reg_read api r v = uc_reg_read api r u)"
proof (induction cs arbitrary: u)
  case (Cons c cs)
  then obtain w r bs where c: "c = (w, Reg_write r bs)" "length bs = reg_size r" by (cases c rule: reg_call_ok.cases) auto
  define u1 where "u1 = snd (uc_reg_write api r bs u)"
  have u1: "uc_reg_write api r bs u = (UC_ERR_OK, u1)" "view u1 = view u" "shown r bs (uc_reg_read api r u1)"
    "\<And>q. \<not> disturbs r q \<Longrightarrow> uc_reg_read api q u1 = uc_reg_read api q u"
    using assms c(2) unfolding uc_laws_def u1_def by (auto simp: prod_eq_iff)
  obtain v where v: "perform api cs u1 = Inr v" "view v = view u1"
    "\<forall>r bs. settled cs r bs \<longrightarrow> shown r bs (uc_reg_read api r v)"
    "\<forall>r. list_all (quiet r) cs \<longrightarrow> uc_reg_read api r v = uc_reg_read api r u1"
    using Cons.IH [of u1] Cons.prems by auto
  have "perform api (c # cs) u = Inr v" using c(1) u1(1) v(1) by (cases w) simp_all
  then show ?case using u1 v c(1) by (intro exI [of _ v]) auto
qed simp


lemma quiet_map [simp]:
  "list_all (quiet q) (map (\<lambda>i. (w, Reg_write (g i) (h i))) xs) \<longleftrightarrow> (\<forall>i \<in> set xs. \<not> disturbs (g i) q)"
  by (simp add: list_all_iff)

lemma settled_map:
  assumes "i < n" "\<And>j. i < j \<Longrightarrow> j < n \<Longrightarrow> \<not> disturbs (g j) (g i)"
  shows "settled (map (\<lambda>i. (w, Reg_write (g i) (h i))) [0..<n]) (g i) (h i)"
proof -
  have "[0..<n] = [0..<i] @ [i..<n]" using assms(1) upt_add_eq_append [of 0 i "n - i"] by simp
  then have "[0..<n] = [0..<i] @ i # [Suc i..<n]" using assms(1) by (simp add: upt_conv_Cons)
  then show ?thesis using assms(2) by (auto simp: settled_append list_all_iff)
qed

lemma disturbs_plain: "\<not> is_st q \<Longrightarrow> q \<noteq> REG_FPTAG \<Longrightarrow> disturbs r q \<longleftrightarrow> r = q"
  by (auto simp: disturbs_def)

lemma gpr_ids:
  assumes "i < 16"
  shows "\<not> is_st (kGprRegIds ! i)" "kGprRegIds ! i \<noteq> REG_FPTAG" "kGprRegIds ! i \<notin> {REG_RIP, REG_EFLAGS, REG_FPSW, REG_FPCW}"
    "REG_XMM n \<noteq> kGprRegIds ! i" "REG_ST n \<noteq> kGprRegIds ! i" "reg_size (kGprRegIds ! i) = 8"
    "j < 16 \<Longrightarrow> kGprRegIds ! j = kGprRegIds ! i \<longleftrightarrow> j = i"
proof -
  have d: "distinct kGprRegIds" "length kGprRegIds = 16" by (simp_all add: kGprRegIds_def)
  then show "j < 16 \<Longrightarrow> kGprRegIds ! j = kGprRegIds ! i \<longleftrightarrow> j = i" using assms by (simp add: nth_eq_iff_index_eq)
  have "kGprRegIds ! i \<in> set kGprRegIds" using d assms by simp
  then show "\<not> is_st (kGprRegIds ! i)" "kGprRegIds ! i \<noteq> REG_FPTAG" "kGprRegIds ! i \<notin> {REG_RIP, REG_EFLAGS, REG_FPSW, REG_FPCW}"
    "REG_XMM n \<noteq> kGprRegIds ! i" "REG_ST n \<noteq> kGprRegIds ! i" "reg_size (kGprRegIds ! i) = 8"
    by (auto simp: kGprRegIds_def)
qed

lemma xmm_ids [simp]: "i < 16 \<Longrightarrow> kXmmRegIds ! i = REG_XMM i"
  by (simp add: kXmmRegIds_def del: upt_rec_numeral)

lemma x87_calls_quiet: "\<not> is_st q \<Longrightarrow> q \<notin> {REG_FPSW, REG_FPCW, REG_FPTAG} \<Longrightarrow> list_all (quiet q) (x87_calls x)"
  by (auto simp: x87_calls_def disturbs_plain simp del: upt_rec_numeral)

lemma register_calls_settled:
  shows "i < 16 \<Longrightarrow> settled (register_calls r @ x87_calls x) (kGprRegIds ! i) (le_bytes 8 (gpr r ! i))"
    "settled (register_calls r @ x87_calls x) REG_RIP (le_bytes 8 kCodeBase)"
    "settled (register_calls r @ x87_calls x) REG_EFLAGS (le_bytes 8 (rflags r))"
    "i < 16 \<Longrightarrow> settled (register_calls r @ x87_calls x) (kXmmRegIds ! i) (le_bytes 8 (xmm_lo r ! i) @ le_bytes 8 (xmm_hi r ! i))"
proof -
  show "settled (register_calls r @ x87_calls x) REG_RIP (le_bytes 8 kCodeBase)"
    "settled (register_calls r @ x87_calls x) REG_EFLAGS (le_bytes 8 (rflags r))"
    by (auto simp: settled_append register_calls_def x87_calls_quiet disturbs_plain simp del: upt_rec_numeral)
  assume i: "i < 16"
  have g: "settled (map (\<lambda>i. (Some ''gpr write'', Reg_write (kGprRegIds ! i) (le_bytes 8 (gpr r ! i)))) [0..<16])
      (kGprRegIds ! i) (le_bytes 8 (gpr r ! i))"
    by (rule settled_map) (use i gpr_ids in \<open>auto simp: disturbs_plain\<close>)
  then show "settled (register_calls r @ x87_calls x) (kGprRegIds ! i) (le_bytes 8 (gpr r ! i))"
    using gpr_ids [OF i]
    by (auto simp: settled_append register_calls_def x87_calls_quiet disturbs_plain simp del: upt_rec_numeral)
  have x: "settled (map (\<lambda>i. (Some ''xmm write'', Reg_write (kXmmRegIds ! i) (le_bytes 8 (xmm_lo r ! i) @ le_bytes 8 (xmm_hi r ! i)))) [0..<16])
      (kXmmRegIds ! i) (le_bytes 8 (xmm_lo r ! i) @ le_bytes 8 (xmm_hi r ! i))"
    by (rule settled_map) (use i in \<open>simp_all add: disturbs_plain\<close>)
  then show "settled (register_calls r @ x87_calls x) (kXmmRegIds ! i) (le_bytes 8 (xmm_lo r ! i) @ le_bytes 8 (xmm_hi r ! i))"
    using i by (simp add: settled_append register_calls_def x87_calls_quiet del: upt_rec_numeral)
qed

lemma x87_calls_settled:
  shows "settled (register_calls r @ x87_calls x) REG_FPSW (le_bytes 2 (status_word x))"
    "settled (register_calls r @ x87_calls x) REG_FPCW (le_bytes 2 (control_word x))"
    "i < 8 \<Longrightarrow> settled (register_calls r @ x87_calls x) (REG_ST i) (le_bytes 8 (signif x ! i) @ le_bytes 2 (signexp x ! i))"
    "settled (register_calls r @ x87_calls x) REG_FPTAG (le_bytes 2 (tag_word x))"
proof -
  show "settled (register_calls r @ x87_calls x) REG_FPSW (le_bytes 2 (status_word x))"
    "settled (register_calls r @ x87_calls x) REG_FPCW (le_bytes 2 (control_word x))"
    "settled (register_calls r @ x87_calls x) REG_FPTAG (le_bytes 2 (tag_word x))"
    by (auto simp: settled_append x87_calls_def disturbs_def simp del: upt_rec_numeral)
  assume i: "i < 8"
  have "settled (map (\<lambda>i. (Some ''st write'', Reg_write (REG_ST i) (le_bytes 8 (signif x ! i) @ le_bytes 2 (signexp x ! i)))) [0..<8])
      (REG_ST i) (le_bytes 8 (signif x ! i) @ le_bytes 2 (signexp x ! i))"
    by (rule settled_map) (use i in \<open>simp_all add: disturbs_def\<close>)
  then show "settled (register_calls r @ x87_calls x) (REG_ST i) (le_bytes 8 (signif x ! i) @ le_bytes 2 (signexp x ! i))"
    by (simp add: settled_append x87_calls_def disturbs_def del: upt_rec_numeral)
qed

lemma register_calls_ok: "list_all reg_call_ok (register_calls r @ x87_calls x)"
  using gpr_ids(6) by (auto simp: list_all_iff register_calls_def x87_calls_def simp del: upt_rec_numeral)


subsection \<open>The contract of a lane\<close>

text \<open>The lane never reads the x87 state; the machine it stands for has it all the same.\<close>

definition uc_x87 :: "'u uc_api \<Rightarrow> 'u \<Rightarrow> x87_state" where
  "uc_x87 api u =
     \<lparr>signif = map (\<lambda>i. of_le_bytes (take 8 (reg_bytes api (REG_ST i) u))) [0..<8],
      signexp = map (\<lambda>i. of_le_bytes (drop 8 (reg_bytes api (REG_ST i) u))) [0..<8],
      control_word = of_le_bytes (reg_bytes api REG_FPCW u), status_word = of_le_bytes (reg_bytes api REG_FPSW u),
      tag_word = of_le_bytes (reg_bytes api REG_FPTAG u)\<rparr>"

type_synonym 'u uc_state = "'u uc_api \<times> ('u \<Rightarrow> view) \<times> 'u"

definition uc_usable :: "'u uc_state \<Rightarrow> bool" where
  "uc_usable = (\<lambda>(api, view, u). uc_laws api view)"

definition uc_intact :: "'u uc_state \<Rightarrow> bool" where
  "uc_intact = (\<lambda>(api, view, u). uc_laws api view \<and> pages_mapped (view u))"

definition uc_machine :: "nat \<Rightarrow> 'u uc_state \<Rightarrow> machine" where
  "uc_machine n = (\<lambda>(api, view, u).
     observed n ((read_unicorn api u reg_default)\<lparr>x87 := uc_x87 api u\<rparr>) (bytes_of (view u)))"

text \<open>What Unicorn's answer says of the instruction: an interrupt is the exception of that vector; without one
  the code of the run decides.\<close>

fun uc_fault_codes :: "fault \<Rightarrow> uc_err list" where
  "uc_fault_codes Fault_ud = [UC_ERR_INSN_INVALID]"
| "uc_fault_codes Fault_pf = [UC_ERR_READ_UNMAPPED, UC_ERR_WRITE_UNMAPPED, UC_ERR_FETCH_UNMAPPED,
     UC_ERR_READ_PROT, UC_ERR_WRITE_PROT, UC_ERR_FETCH_PROT]"
| "uc_fault_codes f = []"

definition uc_answer :: "uc_err \<times> u32 list \<Rightarrow> fault option \<Rightarrow> bool" where
  "uc_answer = (\<lambda>(err, interrupts) f. case f of
     None \<Rightarrow> interrupts = [] \<and> err = UC_ERR_OK
   | Some f \<Rightarrow> if interrupts = [] then err \<in> set (uc_fault_codes f) else unat (last interrupts) = fault_vector f)"

lemma fold_hook_intr: "fold hook_intr interrupts n = (if interrupts = [] then n else last interrupts)"
  by (induction interrupts arbitrary: n) (simp_all add: hook_intr_def)

lemma uc_fault_codes_stop: "err \<in> set (uc_fault_codes f) \<Longrightarrow> map_uc_err err = fault_stop f"
  by (cases f) auto

lemma uc_answer_stop: "uc_answer e f \<Longrightarrow> unicorn_stop e = (case f of None \<Rightarrow> Stop_ok | Some f \<Rightarrow> fault_stop f)"
proof -
  assume a: "uc_answer e f"
  obtain err ints where e: "e = (err, ints)" by (cases e)
  show ?thesis
  proof (cases "ints = []")
    case True
    then show ?thesis using a uc_fault_codes_stop
      by (cases f) (auto simp: e uc_answer_def unicorn_stop_def fold_hook_intr)
  next
    case False
    then obtain g where g: "f = Some g" "unat (last ints) = fault_vector g" using a by (cases f) (auto simp: e uc_answer_def)
    have "last ints = of_nat (fault_vector g)" unfolding g(2) [symmetric] by (simp only: of_nat_unat ucast_id)
    then show ?thesis using False g(1)
      by (cases g) (simp_all add: e unicorn_stop_def fold_hook_intr map_intno_def)
  qed
qed

definition uc_result :: "uc_err \<times> u32 list \<Rightarrow> 'u uc_state \<Rightarrow> lane_outcome" where
  "uc_result e = (\<lambda>(api, view, u). unicorn_outcome api e u)"

text \<open>The engine after a set-up that succeeds, from a newly opened one.\<close>

definition prepare_unicorn :: "test_case \<Rightarrow> 'u uc_state \<Rightarrow> 'u uc_state" where
  "prepare_unicorn tc = (\<lambda>(api, view, u). (api, view,
     case uc_open api of
       Inl e \<Rightarrow> u
     | Inr v \<Rightarrow> (case perform api (setup_calls tc) v of Inl e \<Rightarrow> u | Inr w \<Rightarrow> w)))"

lemma shown_reg_bytes: "shown r bs (uc_reg_read api r u) \<Longrightarrow> r \<noteq> REG_EFLAGS \<Longrightarrow> reg_bytes api r u = bs"
  by (simp add: shown_def reg_bytes_def)

lemma shown_eflags:
  "shown REG_EFLAGS (le_bytes 8 (f :: u64)) (uc_reg_read api REG_EFLAGS u) \<Longrightarrow>
     (of_le_bytes (reg_bytes api REG_EFLAGS u) :: u64) AND kCompareFlagsMask = f AND kCompareFlagsMask"
  by (auto simp: shown_def reg_bytes_def split: option.splits)

lemma setup_effect:
  assumes "uc_laws api view" "uc_open api = Inr u" "tc_ok tc"
  shows "\<exists>v. perform api (setup_calls tc) u = Inr v \<and> uc_machine (length (tc_bytes tc)) (api, view, v) = start_machine tc"
proof -
  define r where "r = tc_initial tc"
  define x where "x = x87 r"
  have sh: "length (gpr r) = 16" "length (xmm_lo r) = 16" "length (xmm_hi r) = 16" "length (signif x) = 8" "length (signexp x) = 8"
    using assms(3) by (simp_all add: tc_ok_def reg_shape_def x87_shape_def r_def x_def)
  have "view u = (\<lambda>x. None)" using assms(1,2) by (auto simp: uc_laws_def)
  then obtain w where w: "perform api (memory_calls tc) u = Inr w" "view w = with_case tc (fresh_pages (\<lambda>x. None))"
    using perform_memory [OF assms(1) _ assms(3)] by blast
  obtain v where v: "perform api (register_calls r @ x87_calls x) w = Inr v" "view v = view w"
    "\<And>q bs. settled (register_calls r @ x87_calls x) q bs \<Longrightarrow> shown q bs (uc_reg_read api q v)"
    using perform_registers [OF assms(1) register_calls_ok, of r x w] by auto
  have p: "perform api (setup_calls tc) u = Inr v"
    unfolding setup_calls_def perform_append [of api "memory_calls tc"] w(1) using v(1) by (simp add: r_def x_def)
  have g: "reg_bytes api (kGprRegIds ! i) v = le_bytes 8 (gpr r ! i)" if "i < 16" for i
    using shown_reg_bytes [OF v(3) [OF register_calls_settled(1) [OF that]]] gpr_ids(3) [OF that] by simp
  have X: "reg_bytes api (REG_XMM i) v = le_bytes 8 (xmm_lo r ! i) @ le_bytes 8 (xmm_hi r ! i)" if "i < 16" for i
    using shown_reg_bytes [OF v(3) [OF register_calls_settled(4) [OF that]]] that by simp
  have st: "reg_bytes api (REG_ST i) v = le_bytes 8 (signif x ! i) @ le_bytes 2 (signexp x ! i)" if "i < 8" for i
    using shown_reg_bytes [OF v(3) [OF x87_calls_settled(3) [OF that]]] by simp
  have s: "reg_bytes api REG_RIP v = le_bytes 8 kCodeBase" "reg_bytes api REG_FPSW v = le_bytes 2 (status_word x)"
    "reg_bytes api REG_FPCW v = le_bytes 2 (control_word x)" "reg_bytes api REG_FPTAG v = le_bytes 2 (tag_word x)"
    using shown_reg_bytes [OF v(3) [OF register_calls_settled(2)]] shown_reg_bytes [OF v(3) [OF x87_calls_settled(1)]]
      shown_reg_bytes [OF v(3) [OF x87_calls_settled(2)]] shown_reg_bytes [OF v(3) [OF x87_calls_settled(4)]] by simp_all
  have fpu: "uc_x87 api v = x"
  proof -
    have "signif (uc_x87 api v) = signif x" "signexp (uc_x87 api v) = signexp x"
      using sh(4,5) by (auto simp: uc_x87_def st simp del: upt_rec_numeral intro!: nth_equalityI)
    moreover have "control_word (uc_x87 api v) = control_word x" "status_word (uc_x87 api v) = status_word x"
      "tag_word (uc_x87 api v) = tag_word x"
      by (simp_all add: uc_x87_def s)
    ultimately show ?thesis by simp
  qed
  have "gpr (read_unicorn api v reg_default) = gpr r" "xmm_lo (read_unicorn api v reg_default) = xmm_lo r"
    "xmm_hi (read_unicorn api v reg_default) = xmm_hi r"
    using sh(1-3) by (auto simp: read_unicorn_def g X simp del: upt_rec_numeral intro!: nth_equalityI)
  moreover have "rip (read_unicorn api v reg_default) = kCodeBase" by (simp add: read_unicorn_def s)
  moreover have "rflags (read_unicorn api v reg_default) AND kCompareFlagsMask = rflags r AND kCompareFlagsMask"
    using shown_eflags [OF v(3) [OF register_calls_settled(3)]] by (simp add: read_unicorn_def)
  ultimately have "uc_machine (length (tc_bytes tc)) (api, view, v) = start_machine tc"
    unfolding uc_machine_def
    using with_case_scratch [OF assms(3)] by (simp add: observed_start [OF assms(3)] r_def x_def fpu v(2) w(2))
  with p show ?thesis by blast
qed

interpretation unicorn: lane uc_usable prepare_unicorn uc_machine uc_answer uc_intact uc_result False
proof
  fix x :: "'u uc_state" and tc
  assume a: "uc_usable x" "tc_ok tc"
  obtain api view u where x: "x = (api, view, u)" by (cases x)
  obtain v where "uc_open api = Inr v" using a(1) by (auto simp: x uc_usable_def uc_laws_def)
  then show "uc_machine (length (tc_bytes tc)) (prepare_unicorn tc x) = start_machine tc"
    using setup_effect [of api view v tc] a by (auto simp: x uc_usable_def prepare_unicorn_def)
next
  fix e f and x :: "'u uc_state" and n
  obtain api view u where x: "x = (api, view, u)" by (cases x)
  show "uc_answer e (Some f) \<Longrightarrow> reports False (Inl f) (uc_result e x)"
    using uc_answer_stop [of e "Some f"] by (simp add: x uc_result_def unicorn_outcome_def outcome_default_def)
  assume a: "uc_answer e None" "uc_intact x"
  have "uc_mem_read api kDataBase kDataWindow u = Some (memory_at (bytes_of (view u)) kDataBase kDataWindow)"
    using a(2) mapped_parts(2) by (simp add: x uc_intact_def uc_laws_def)
  then show "reports False (Inr (uc_machine n x)) (uc_result e x)"
    using uc_answer_stop [OF a(1)] by (simp add: x uc_result_def unicorn_outcome_def outcome_default_def uc_machine_def
        observed_def read_unicorn_def take_memory_at kDataWindow_def kPageSize_def del: upt_rec_numeral)
qed

definition unicorn_implements :: "isa \<Rightarrow> 'u uc_api \<Rightarrow> ('u \<Rightarrow> view) \<Rightarrow> test_case \<Rightarrow> bool" where
  "unicorn_implements isa api view tc \<longleftrightarrow> (\<forall>u. uc_open api = Inr u \<longrightarrow>
     implements uc_answer uc_machine uc_intact isa
       (\<lambda>(api, view, u). case uc_emu_start api kCodeBase 0xFFFFFFFFFFFFFFFF 1 u of (err, ints, u) \<Rightarrow> ((err, ints), (api, view, u)))
       (length (tc_bytes tc)) (prepare_unicorn tc (api, view, u)))"

lemma run_unicorn_reports:
  assumes "uc_laws api view" "tc_ok tc" "unicorn_implements isa api view tc"
  shows "reports False (isa (start_machine tc)) (fst (run_unicorn api tc))"
proof -
  obtain u where u: "uc_open api = Inr u" using assms(1) by (auto simp: uc_laws_def)
  then obtain v where v: "perform api (setup_calls tc) u = Inr v"
    using setup_effect [OF assms(1) _ assms(2)] by blast
  obtain err ints w where st: "uc_emu_start api kCodeBase 0xFFFFFFFFFFFFFFFF 1 v = (err, ints, w)"
    by (cases "uc_emu_start api kCodeBase 0xFFFFFFFFFFFFFFFF 1 v")
  have "fst (run_unicorn api tc) = uc_result (err, ints) (api, view, w)"
    by (simp add: run_unicorn_def u v st uc_result_def del: One_nat_def)
  moreover have "reports False (isa (start_machine tc)) (uc_result (err, ints) (api, view, w))"
    by (rule unicorn.reports_result [OF _ assms(2) assms(3) [unfolded unicorn_implements_def, rule_format, OF u]])
      (simp_all add: uc_usable_def assms(1) prepare_unicorn_def u v st del: One_nat_def)
  ultimately show ?thesis by simp
qed

end
