(* ===== verification/HwSession.thy ===== *)
theory HwSession
  imports HwContext Machine
begin

section \<open>The hardware lane: the debug session\<close>

text \<open>
  \<^verbatim>\<open>HardwareSession\<close> of \<^verbatim>\<open>src/lanes/hardware_lane.cpp\<close>: spawning the sandboxed victim, pumping its
  debug events, running one test case in it, tearing it down. The operating system is an oracle: a
  stream of answers to \<^verbatim>\<open>WaitForDebugEvent\<close>, each with what the victim did to its own context and
  memory until then, and a stream of success bits for the other calls whose result the code looks at.
  The calls made are logged in \<open>calls\<close>. A null handle and an invalid pending event are \<open>None\<close>.
\<close>

type_synonym handle = nat

datatype event_info =
  LOAD_DLL "handle option"
  | CREATE_PROCESS "handle option" "handle option" "handle option"
  | EXCEPTION exception_record
  | EXIT_PROCESS | RIP_EVENT | EXIT_THREAD | CREATE_THREAD | OUTPUT_DEBUG_STRING | UNLOAD_DLL

record debug_event =
  dwProcessId :: u32
  dwThreadId :: u32
  event_info :: event_info

record victim =
  vctx :: thread_context
  vmem :: "u64 \<Rightarrow> u8"

datatype os_call =
  CallWait "debug_event option" | CallContinue debug_event | CallTerminate handle | CallClose handle

record hw =
  job :: "handle option"
  process :: "handle option"
  thread :: "handle option"
  pid :: u32
  ready :: bool
  pending_event :: "debug_event option"
  steps_since_respawn :: nat
  waits :: "(debug_event option \<times> (victim \<Rightarrow> victim)) stream"
  oks :: "bool stream"
  last_error :: u32
  next_pid :: u32
  next_handle :: handle
  live_handles :: "handle list"
  vic :: victim
  calls :: "os_call list"

subsection \<open>The operating system\<close>

definition log :: "os_call \<Rightarrow> hw \<Rightarrow> hw" where
  "log c s = s\<lparr>calls := calls s @ [c]\<rparr>"

definition api_ok :: "hw \<Rightarrow> bool \<times> hw" where
  "api_ok s = (shd (oks s), s\<lparr>oks := stl (oks s)\<rparr>)"

definition new_handle :: "hw \<Rightarrow> handle \<times> hw" where
  "new_handle s = (next_handle s,
     s\<lparr>next_handle := next_handle s + 1, live_handles := next_handle s # live_handles s\<rparr>)"

definition CloseHandle :: "handle \<Rightarrow> hw \<Rightarrow> hw" where
  "CloseHandle h s = log (CallClose h) (s\<lparr>live_handles := remove1 h (live_handles s)\<rparr>)"

definition close_opt :: "handle option \<Rightarrow> hw \<Rightarrow> hw" where
  "close_opt h s = (case h of None \<Rightarrow> s | Some x \<Rightarrow> CloseHandle x s)"

definition WaitForDebugEvent :: "hw \<Rightarrow> debug_event option \<times> hw" where
  "WaitForDebugEvent s = (case shd (waits s) of (de, f) \<Rightarrow>
     (de, log (CallWait de) (s\<lparr>waits := stl (waits s), vic := f (vic s)\<rparr>)))"

definition ContinueDebugEvent :: "debug_event \<Rightarrow> hw \<Rightarrow> hw" where
  "ContinueDebugEvent de s = log (CallContinue de) s"

text \<open>Memory of the victim, written all or nothing.\<close>

definition WriteProcessMemory :: "u64 \<Rightarrow> u8 list \<Rightarrow> hw \<Rightarrow> bool \<times> hw" where
  "WriteProcessMemory a bs s = (case api_ok s of (ok, s1) \<Rightarrow>
     (ok, if ok then s1\<lparr>vic := (vic s1)\<lparr>vmem := store_bytes a bs (vmem (vic s1))\<rparr>\<rparr> else s1))"

subsection \<open>Teardown\<close>

definition is_exit :: "debug_event \<Rightarrow> bool" where
  "is_exit de \<longleftrightarrow> event_info de = EXIT_PROCESS"

fun drain_loop :: "nat \<Rightarrow> hw \<Rightarrow> hw" where
  "drain_loop 0 s = s"
| "drain_loop (Suc n) s = (case WaitForDebugEvent s of
     (None, s1) \<Rightarrow> s1
   | (Some de, s1) \<Rightarrow> if is_exit de then ContinueDebugEvent de s1
                     else drain_loop n (ContinueDebugEvent de s1))"

definition drain_to_exit :: "hw \<Rightarrow> hw" where
  "drain_to_exit s = (case process s of None \<Rightarrow> s
     | Some p \<Rightarrow> drain_loop 50 (log (CallTerminate p) s))"

definition teardown :: "hw \<Rightarrow> hw" where
  "teardown s =
     (let s1 = drain_to_exit s;
          s2 = (close_opt (thread s1) s1)\<lparr>thread := None\<rparr>;
          s3 = (close_opt (process s2) s2)\<lparr>process := None\<rparr>;
          s4 = (close_opt (job s3) s3)\<lparr>job := None\<rparr>
      in s4\<lparr>ready := False, pending_event := None, pid := 0\<rparr>)"

subsection \<open>Spawning the victim\<close>

definition build_restricted_token :: "hw \<Rightarrow> (string + handle) \<times> hw" where
  "build_restricted_token s =
     (let (ok1, s) = api_ok s in
      if \<not> ok1 then (Inl ''OpenProcessToken failed'', s)
      else let (self_token, s) = new_handle s; (dup_ok, s) = api_ok s;
               (dup_token, s) = (if dup_ok then new_handle s else (0, s));
               s = CloseHandle self_token s in
      if \<not> dup_ok then (Inl ''DuplicateTokenEx failed'', s)
      else let (restrict_ok, s) = api_ok s;
               (restricted_token, s) = (if restrict_ok then new_handle s else (0, s));
               s = CloseHandle dup_token s in
      if \<not> restrict_ok then (Inl ''CreateRestrictedToken failed'', s)
      else let (sid_ok, s) = api_ok s in
      if \<not> sid_ok then (Inl ''ConvertStringSidToSidW failed'', CloseHandle restricted_token s)
      else let (set_ok, s) = api_ok s in
      if \<not> set_ok then (Inl ''SetTokenInformation(TokenIntegrityLevel) failed'', CloseHandle restricted_token s)
      else (Inr restricted_token, s))"

definition is_exception :: "debug_event \<Rightarrow> bool" where
  "is_exception de \<longleftrightarrow> (case event_info de of EXCEPTION _ \<Rightarrow> True | _ \<Rightarrow> False)"

definition is_breakpoint :: "debug_event \<Rightarrow> bool" where
  "is_breakpoint de \<longleftrightarrow> (case event_info de of EXCEPTION rec \<Rightarrow> ExceptionCode rec = EXCEPTION_BREAKPOINT | _ \<Rightarrow> False)"

definition kMaxUninterestingEvents :: nat where "kMaxUninterestingEvents = 10000"

text \<open>What the pump does with an event it does not stop at, before continuing it: close the file
  handles the system hands over, and take the thread and process handles.\<close>

definition adopt :: "debug_event \<Rightarrow> hw \<Rightarrow> hw" where
  "adopt de s = (case event_info de of
     LOAD_DLL f \<Rightarrow> close_opt f s
   | CREATE_PROCESS f t p \<Rightarrow> (let s1 = close_opt f s in
       s1\<lparr>thread := (case t of None \<Rightarrow> thread s1 | Some h \<Rightarrow> Some h),
          process := (case p of None \<Rightarrow> process s1 | Some h \<Rightarrow> Some h)\<rparr>)
   | _ \<Rightarrow> s)"

text \<open>The loop to the loader's breakpoint. Exceptions other than the breakpoint are continued and not
  counted, so the loop need not end.\<close>

partial_function (option) spawn_pump :: "nat \<Rightarrow> hw \<Rightarrow> ((string + debug_event) \<times> hw) option" where
  "spawn_pump n s = (case WaitForDebugEvent s of
     (None, s1) \<Rightarrow> Some (Inl ''WaitForDebugEvent timed out waiting for initial breakpoint'', s1)
   | (Some de, s1) \<Rightarrow>
       if \<not> is_exception de \<and> n + 1 > kMaxUninterestingEvents then
         Some (Inl ''too many non-exception debug events without reaching the sync point'', s1)
       else if is_breakpoint de then Some (Inr de, s1)
       else if is_exit de then Some (Inl ''victim exited before reaching sync point'', ContinueDebugEvent de s1)
       else spawn_pump (if is_exception de then n else n + 1) (ContinueDebugEvent de (adopt de s1)))"

definition launch_victim :: "handle \<Rightarrow> hw \<Rightarrow> string option \<times> hw" where
  "launch_victim token s =
     (let (job_ok, s) = api_ok s in
      if \<not> job_ok then (Some ''CreateJobObjectW failed'', CloseHandle token s)
      else let (j, s) = new_handle s;
               s = s\<lparr>job := Some j\<rparr>;
               (nul_ok, s) = api_ok s;
               (nul, s) = (if nul_ok then (case new_handle s of (h, s) \<Rightarrow> (Some h, s)) else (None, s));
               (created, s) = api_ok s;
               s = close_opt nul (CloseHandle token s) in
      if \<not> created then
        (Some (''CreateProcessAsUserW failed (err='' @ fmt_u (unat (last_error s)) @ '')''),
         (CloseHandle j s)\<lparr>job := None\<rparr>)
      else let (hp, s) = new_handle s; (ht, s) = new_handle s
           in (None, CloseHandle hp (CloseHandle ht (s\<lparr>pid := next_pid s\<rparr>))))"

definition attach :: "hw \<Rightarrow> (string option \<times> hw) option" where
  "attach s = (case spawn_pump 0 s of
     None \<Rightarrow> None
   | Some (Inl err, s) \<Rightarrow> Some (Some err, teardown s)
   | Some (Inr de, s) \<Rightarrow>
       let s = s\<lparr>pending_event := Some de\<rparr>; (got, s) = api_ok s in
       if \<not> got then
         Some (Some (''VirtualAllocEx failed for scratch region (err='' @ fmt_u (unat (last_error s)) @ '')''),
               teardown s)
       else Some (None, s\<lparr>ready := True, steps_since_respawn := 0\<rparr>))"

definition spawn_fresh :: "hw \<Rightarrow> (string option \<times> hw) option" where
  "spawn_fresh s0 = (case build_restricted_token (teardown s0) of
     (Inl err, s) \<Rightarrow> Some (Some err, s)
   | (Inr token, s) \<Rightarrow> (case launch_victim token s of
       (Some err, s) \<Rightarrow> Some (Some err, s)
     | (None, s) \<Rightarrow> attach s))"

definition ensure_ready :: "hw \<Rightarrow> (string option \<times> hw) option" where
  "ensure_ready s = (if ready s then Some (None, s) else spawn_fresh s)"

subsection \<open>One test case\<close>

definition harness_error :: "string \<Rightarrow> lane_outcome" where
  "harness_error what = outcome_default\<lparr>setup_ok := False, setup_error := ''hardware: '' @ what\<rparr>"

definition GetThreadContext :: "hw \<Rightarrow> bool \<times> thread_context \<times> hw" where
  "GetThreadContext s = (case api_ok s of (ok, s1) \<Rightarrow> (ok, vctx (vic s1), s1))"

definition SetThreadContext :: "thread_context \<Rightarrow> hw \<Rightarrow> bool \<times> hw" where
  "SetThreadContext c s = (case api_ok s of (ok, s1) \<Rightarrow>
     (ok, if ok then s1\<lparr>vic := (vic s1)\<lparr>vctx := c\<rparr>\<rparr> else s1))"

definition ReadProcessMemory :: "u64 \<Rightarrow> nat \<Rightarrow> hw \<Rightarrow> u8 list option \<times> hw" where
  "ReadProcessMemory a n s = (case api_ok s of (ok, s1) \<Rightarrow>
     (if ok then Some (map (\<lambda>i. vmem (vic s1) (a + of_nat i)) [0..<n]) else None, s1))"

text \<open>The pages of a test case: data and stack cleared, then the seed and the return address. The
  results of these four writes are not looked at.\<close>

definition reset_pages :: "test_case \<Rightarrow> hw \<Rightarrow> hw" where
  "reset_pages tc s =
     (let (w1, s) = WriteProcessMemory kDataBase (replicate kPageSize 0) s;
          (w2, s) = WriteProcessMemory kStackBase (replicate kPageSize 0) s;
          (w3, s) = WriteProcessMemory kDataBase (tc_data_seed tc) s;
          (w4, s) = WriteProcessMemory kStackTop (le_bytes 8 kCodeBase) s
      in s)"

definition write_code :: "test_case \<Rightarrow> hw \<Rightarrow> bool \<times> hw" where
  "write_code tc s = (if tc_bytes tc = [] then (True, s) else WriteProcessMemory kCodeBase (tc_bytes tc) s)"

definition resume :: "hw \<Rightarrow> hw" where
  "resume s = (case pending_event s of None \<Rightarrow> s
     | Some de \<Rightarrow> (ContinueDebugEvent de s)\<lparr>pending_event := None\<rparr>)"

datatype pump_end = PumpTimeout | PumpTooMany | PumpDied | PumpException debug_event exception_record

definition exception_of :: "debug_event \<Rightarrow> exception_record option" where
  "exception_of de = (case event_info de of EXCEPTION rec \<Rightarrow> Some rec | _ \<Rightarrow> None)"

definition is_death :: "debug_event \<Rightarrow> bool" where
  "is_death de \<longleftrightarrow> event_info de = EXIT_PROCESS \<or> event_info de = RIP_EVENT"

definition close_dll :: "debug_event \<Rightarrow> hw \<Rightarrow> hw" where
  "close_dll de s = (case event_info de of LOAD_DLL f \<Rightarrow> close_opt f s | _ \<Rightarrow> s)"

text \<open>The loop of \<^verbatim>\<open>run_one\<close>: every event but an exception is counted, so it ends.\<close>

function pump :: "nat \<Rightarrow> hw \<Rightarrow> pump_end \<times> hw" where
  "pump n s = (case WaitForDebugEvent s of
     (None, s1) \<Rightarrow> (PumpTimeout, s1)
   | (Some de, s1) \<Rightarrow> (case exception_of de of
       Some rec \<Rightarrow> (PumpException de rec, s1)
     | None \<Rightarrow>
         if n + 1 > kMaxUninterestingEvents then (PumpTooMany, s1)
         else if is_death de then (PumpDied, ContinueDebugEvent de s1)
         else pump (n + 1) (ContinueDebugEvent de (close_dll de s1))))"
  by pat_completeness auto

termination
  by (relation "measure (\<lambda>(n, s). kMaxUninterestingEvents - n)") auto

declare pump.simps [simp del]

definition kRespawnEvery :: nat where "kRespawnEvery = 2000"

text \<open>The outcome of an exception: what the registers and the data window are read into. A context that
  cannot be read leaves the default registers.\<close>

definition collect :: "exception_record \<Rightarrow> hw \<Rightarrow> lane_outcome \<times> hw" where
  "collect rec s =
     (let out = outcome_default\<lparr>stop := map_exception rec, detail := exception_detail rec\<rparr>;
          (ok, c, s) = GetThreadContext s;
          out = (if ok then out\<lparr>after := read_context c (after out), captures_x87 := True\<rparr> else out);
          (data, s) = ReadProcessMemory kDataBase kDataWindow s;
          out = (case data of None \<Rightarrow> out | Some bs \<Rightarrow> out\<lparr>after := (after out)\<lparr>data_after := bs\<rparr>\<rparr>)
      in (out, s))"

definition finish_round :: "lane_outcome \<Rightarrow> hw \<Rightarrow> hw" where
  "finish_round out s =
     (let s1 = s\<lparr>steps_since_respawn := steps_since_respawn s + 1\<rparr>
      in if stop out \<noteq> Stop_ok \<or> kRespawnEvery \<le> steps_since_respawn s1 then teardown s1 else s1)"

definition run_ready :: "test_case \<Rightarrow> hw \<Rightarrow> lane_outcome \<times> hw" where
  "run_ready tc s =
     (let (ok, c, s) = GetThreadContext s in
      if \<not> ok then (harness_error ''GetThreadContext failed'', teardown s)
      else let (ok, s) = SetThreadContext (start_context c (tc_initial tc)) s in
      if \<not> ok then (harness_error ''SetThreadContext failed'', teardown s)
      else let (ok, s) = write_code tc s in
      if \<not> ok then (harness_error ''WriteProcessMemory(code) failed'', teardown s)
      else (case pump 0 (resume (reset_pages tc s)) of
        (PumpTimeout, s) \<Rightarrow> (harness_error ''WaitForDebugEvent timeout'', teardown s)
      | (PumpTooMany, s) \<Rightarrow> (harness_error ''too many non-exception debug events without progress'', teardown s)
      | (PumpDied, s) \<Rightarrow> (harness_error ''victim died mid test case'', teardown s)
      | (PumpException de rec, s) \<Rightarrow>
          (case collect rec s of (out, s) \<Rightarrow> (out, finish_round out (s\<lparr>pending_event := Some de\<rparr>)))))"

definition run_one :: "test_case \<Rightarrow> hw \<Rightarrow> (lane_outcome \<times> hw) option" where
  "run_one tc s = (case ensure_ready s of
     None \<Rightarrow> None
   | Some (Some err, s) \<Rightarrow> Some (harness_error err, s)
   | Some (None, s) \<Rightarrow> Some (run_ready tc s))"

definition shutdown :: "hw \<Rightarrow> hw" where
  "shutdown s = teardown s"

subsection \<open>The session between calls\<close>

text \<open>A session that has been torn down, and what holds of a session between two calls.\<close>

definition torn :: "hw \<Rightarrow> bool" where
  "torn s \<longleftrightarrow> job s = None \<and> process s = None \<and> thread s = None \<and> \<not> ready s \<and>
     pending_event s = None \<and> pid s = 0"

definition session_ok :: "hw \<Rightarrow> bool" where
  "session_ok s \<longleftrightarrow> (if ready s
     then pending_event s \<noteq> None \<and> job s \<noteq> None \<and> steps_since_respawn s < kRespawnEvery
     else torn s)"

text \<open>The fields the session itself owns; the operating system's calls leave them alone.\<close>

definition own :: "hw \<Rightarrow> handle option \<times> bool \<times> debug_event option \<times> nat" where
  "own s = (job s, ready s, pending_event s, steps_since_respawn s)"

lemma own_simps [simp]:
  "own (log c s) = own s" "own (s\<lparr>oks := k\<rparr>) = own s" "own (CloseHandle h s) = own s"
  "own (close_opt f s) = own s" "own (ContinueDebugEvent de s) = own s" "own (adopt de s) = own s"
  "own (s\<lparr>vic := v\<rparr>) = own s" "own (close_dll de s) = own s"
  by (simp_all add: own_def close_dll_def log_def CloseHandle_def close_opt_def ContinueDebugEvent_def adopt_def Let_def
      split: option.splits event_info.splits)

lemma own_results:
  "api_ok s = (ok, t) \<Longrightarrow> own t = own s" "WaitForDebugEvent s = (e, t) \<Longrightarrow> own t = own s"
  "new_handle s = (h, t) \<Longrightarrow> own t = own s" "WriteProcessMemory a bs s = (ok, t) \<Longrightarrow> own t = own s"
  "GetThreadContext s = (ok, c, t) \<Longrightarrow> own t = own s" "SetThreadContext c s = (ok, t) \<Longrightarrow> own t = own s"
  "ReadProcessMemory a n s = (d, t) \<Longrightarrow> own t = own s" "write_code tc s = (ok, t) \<Longrightarrow> own t = own s"
  by (auto simp: own_def api_ok_def WaitForDebugEvent_def log_def new_handle_def WriteProcessMemory_def
      GetThreadContext_def SetThreadContext_def ReadProcessMemory_def write_code_def split: prod.splits if_splits)

lemma own_reset_pages [simp]: "own (reset_pages tc s) = own s"
  by (simp add: reset_pages_def Let_def split: prod.splits) (metis own_results(4))

lemma own_pump: "pump n s = (r, t) \<Longrightarrow> own t = own s"
proof (induction n s arbitrary: r t rule: pump.induct)
  case (1 n s)
  obtain e s1 where w: "WaitForDebugEvent s = (e, s1)" by fastforce
  show ?case
    using "1.prems" "1.IH" [OF w [symmetric]] own_results(2) [OF w]
    by (simp add: pump.simps [of n s] w split: option.splits if_splits) (metis own_simps(5) own_simps(8))
qed

lemma own_spawn_pump: "spawn_pump n s = Some y \<Longrightarrow> own (snd y) = own s"
proof (rule spawn_pump.raw_induct [of "\<lambda>n s y. own (snd y) = own s"])
  fix f :: "nat \<Rightarrow> hw \<Rightarrow> ((string + debug_event) \<times> hw) option" and n s y
  assume f: "\<And>n s y. f n s = Some y \<Longrightarrow> own (snd y) = own s"
    and b: "(case WaitForDebugEvent s of
     (None, s1) \<Rightarrow> Some (Inl ''WaitForDebugEvent timed out waiting for initial breakpoint'', s1)
   | (Some de, s1) \<Rightarrow>
       if \<not> is_exception de \<and> n + 1 > kMaxUninterestingEvents then
         Some (Inl ''too many non-exception debug events without reaching the sync point'', s1)
       else if is_breakpoint de then Some (Inr de, s1)
       else if is_exit de then Some (Inl ''victim exited before reaching sync point'', ContinueDebugEvent de s1)
       else f (if is_exception de then n else n + 1) (ContinueDebugEvent de (adopt de s1))) = Some y"
  obtain e s1 where w: "WaitForDebugEvent s = (e, s1)" by fastforce
  show "own (snd y) = own s"
    using b own_results(2) [OF w] by (auto simp: w split: option.splits if_splits dest!: f)
qed

lemma teardown_fields [simp]:
  "process (close_opt h s) = process s" "thread (close_opt h s) = thread s" "job (close_opt h s) = job s"
  by (simp_all add: close_opt_def CloseHandle_def log_def split: option.splits)

lemma torn_teardown [simp]: "torn (teardown s)"
  by (simp add: teardown_def torn_def Let_def)

lemma torn_session_ok: "torn s \<Longrightarrow> session_ok s"
  by (simp add: session_ok_def torn_def)

lemma torn_simps [simp]:
  "torn (CloseHandle h s) = torn s" "torn (snd (api_ok s)) = torn s" "torn (snd (new_handle s)) = torn s"
  by (simp_all add: torn_def log_def CloseHandle_def api_ok_def new_handle_def)

lemma torn_job_simps [simp]:
  "torn ((snd (api_ok s))\<lparr>job := None\<rparr>) = torn (s\<lparr>job := None\<rparr>)"
  "torn ((snd (new_handle s))\<lparr>job := None\<rparr>) = torn (s\<lparr>job := None\<rparr>)"
  "torn ((close_opt f s)\<lparr>job := None\<rparr>) = torn (s\<lparr>job := None\<rparr>)"
  "torn ((CloseHandle h s)\<lparr>job := None\<rparr>) = torn (s\<lparr>job := None\<rparr>)"
  "torn s \<Longrightarrow> torn (s\<lparr>job := None\<rparr>)"
  by (simp_all add: torn_def api_ok_def new_handle_def close_opt_def CloseHandle_def log_def split: option.splits)

lemma job_simps [simp]:
  "job (snd (api_ok s)) = job s" "job (snd (new_handle s)) = job s" "job (CloseHandle h s) = job s"
  by (simp_all add: api_ok_def new_handle_def CloseHandle_def log_def)

lemma build_restricted_token_torn: "torn (snd (build_restricted_token s)) = torn s"
  by (simp add: build_restricted_token_def Let_def case_prod_beta)

lemma launch_victim_ends:
  assumes "torn s"
  shows "case launch_victim token s of (None, t) \<Rightarrow> job t \<noteq> None | (Some e, t) \<Rightarrow> torn t"
  using assms by (simp add: launch_victim_def Let_def case_prod_beta)

definition spawned :: "string option \<Rightarrow> hw \<Rightarrow> bool" where
  "spawned err t \<longleftrightarrow> (case err of
     None \<Rightarrow> ready t \<and> pending_event t \<noteq> None \<and> job t \<noteq> None \<and> steps_since_respawn t = 0
   | Some _ \<Rightarrow> torn t)"

lemma attach_ends:
  assumes "job s \<noteq> None" "attach s = Some (err, t)"
  shows "spawned err t"
proof (cases "spawn_pump 0 s")
  case None
  then show ?thesis using assms by (simp add: attach_def)
next
  case (Some y)
  then have "own (snd y) = own s" by (rule own_spawn_pump)
  then show ?thesis
    using assms Some
    by (auto simp: attach_def spawned_def own_def Let_def api_ok_def split: prod.splits sum.splits if_splits)
qed

lemma spawn_fresh_ends: "spawn_fresh s = Some (err, t) \<Longrightarrow> spawned err t"
proof -
  assume a: "spawn_fresh s = Some (err, t)"
  obtain r s1 where b: "build_restricted_token (teardown s) = (r, s1)" by fastforce
  have s1: "torn s1" using build_restricted_token_torn [of "teardown s"] b by simp
  show ?thesis
  proof (cases r)
    case (Inl e)
    then show ?thesis using a b s1 by (auto simp: spawn_fresh_def spawned_def)
  next
    case (Inr token)
    obtain e s2 where l: "launch_victim token s1 = (e, s2)" by fastforce
    show ?thesis
      using launch_victim_ends [OF s1, of token] a b l Inr
      by (cases e) (auto simp: spawn_fresh_def spawned_def intro: attach_ends [unfolded spawned_def])
  qed
qed

text \<open>A round either keeps the victim, after a clean step, or leaves a torn-down session.\<close>

definition round_end :: "lane_outcome \<Rightarrow> hw \<Rightarrow> bool" where
  "round_end out t \<longleftrightarrow> session_ok t \<and> (if ready t then setup_ok out \<and> stop out = Stop_ok else True)"

lemma round_end_torn: "torn t \<Longrightarrow> round_end out t"
  by (simp add: round_end_def session_ok_def torn_def)

lemma collect_own: "collect rec s = (out, t) \<Longrightarrow> own t = own s \<and> setup_ok out"
  by (auto simp: collect_def Let_def outcome_default_def split: prod.splits option.splits if_splits dest!: own_results)

lemma own_resume: "job (resume s) = job s" "ready (resume s) = ready s"
  "steps_since_respawn (resume s) = steps_since_respawn s"
  by (simp_all add: resume_def ContinueDebugEvent_def log_def split: option.splits)

lemma finish_round_end:
  assumes "setup_ok out" "ready s" "job s \<noteq> None" "pending_event s \<noteq> None"
  shows "round_end out (finish_round out s)"
proof (cases "stop out \<noteq> Stop_ok \<or> kRespawnEvery \<le> steps_since_respawn s + 1")
  case True
  then show ?thesis by (simp add: finish_round_def Let_def round_end_torn)
next
  case False
  then show ?thesis using assms by (simp add: finish_round_def Let_def round_end_def session_ok_def)
qed

lemma run_ready_ends:
  assumes "ready s" "job s \<noteq> None" "run_ready tc s = (out, t)"
  shows "round_end out t"
proof -
  obtain ok c s1 where g: "GetThreadContext s = (ok, c, s1)" using prod_cases3 by blast
  obtain ok2 s2 where c: "SetThreadContext (start_context c (tc_initial tc)) s1 = (ok2, s2)" by fastforce
  obtain ok3 s3 where w: "write_code tc s2 = (ok3, s3)" by fastforce
  obtain e s4 where p: "pump 0 (resume (reset_pages tc s3)) = (e, s4)" by fastforce
  have "own s4 = own (resume (reset_pages tc s3))" using p by (rule own_pump)
  moreover have "own (reset_pages tc s3) = own s"
    using own_results(5) [OF g] own_results(6) [OF c] own_results(8) [OF w] by simp
  ultimately have s4: "job s4 \<noteq> None" "ready s4" using assms(1,2) by (simp_all add: own_def own_resume)
  show ?thesis
  proof (cases "ok \<and> ok2 \<and> ok3")
    case False
    then show ?thesis using assms(3) g c w by (auto simp: run_ready_def split: if_splits intro: round_end_torn)
  next
    case True
    note r = assms(3) [unfolded run_ready_def, simplified g c w Let_def prod.case, simplified True, simplified p]
    show ?thesis
    proof (cases e)
      case (PumpException de rec)
      obtain o1 s5 where cl: "collect rec s4 = (o1, s5)" by fastforce
      have "own s5 = own s4" "setup_ok o1" using collect_own [OF cl] by simp_all
      then have "round_end o1 (finish_round o1 (s5\<lparr>pending_event := Some de\<rparr>))"
        using s4 by (intro finish_round_end) (auto simp: own_def)
      then show ?thesis using r cl by (auto simp: PumpException)
    qed (use r in \<open>auto intro: round_end_torn\<close>)
  qed
qed

text \<open>
  C18: Between two calls the session is either torn down, with no handle, no pending event and no process
  id, or ready with an event to continue, a job and fewer than 2000 steps on its victim; \<open>run_one\<close>
  keeps this on every path, and the victim is kept only after the clean single step of a successful
  round: after any fault, harness error, exit or timeout it is gone before the next test case.
\<close>
theorem session_invariant:
  assumes "session_ok s"
  shows "case run_one tc s of None \<Rightarrow> True
     | Some (out, t) \<Rightarrow> session_ok t \<and> (if ready t then setup_ok out \<and> stop out = Stop_ok else True)"
proof (cases "ensure_ready s")
  case None
  then show ?thesis by (simp add: run_one_def)
next
  case (Some y)
  obtain err t where y: "y = (err, t)" by fastforce
  have e: "case err of None \<Rightarrow> ready t \<and> job t \<noteq> None | Some _ \<Rightarrow> torn t"
    using Some y assms spawn_fresh_ends [of s err t]
    by (auto simp: ensure_ready_def session_ok_def spawned_def split: if_splits option.splits)
  obtain out u where r: "run_ready tc t = (out, u)" by fastforce
  show ?thesis
    using e run_ready_ends [OF _ _ r] r
    by (cases err) (auto simp: run_one_def Some y round_end_def torn_def session_ok_def)
qed

definition demo_hw :: "(debug_event option \<times> (victim \<Rightarrow> victim)) stream \<Rightarrow> hw" where
  "demo_hw w = \<lparr>job = Some 0, process = Some 1, thread = Some 2, pid = 7, ready = True,
     pending_event = Some \<lparr>dwProcessId = 7, dwThreadId = 8, event_info = EXIT_THREAD\<rparr>,
     steps_since_respawn = 0, waits = w, oks = sconst True, last_error = 0, next_pid = 9, next_handle = 3,
     live_handles = [0, 1, 2], vic = \<lparr>vctx = blank_context, vmem = (\<lambda>_. 0xCC)\<rparr>, calls = []\<rparr>"

theorem session_invariant_witness:
  "case run_one tc_default (demo_hw (sconst (None, id))) of None \<Rightarrow> False
   | Some (out, t) \<Rightarrow> session_ok t \<and> (if ready t then setup_ok out \<and> stop out = Stop_ok else True)"
proof -
  have "session_ok (demo_hw (sconst (None, id)))" by (simp add: session_ok_def demo_hw_def kRespawnEvery_def)
  from session_invariant [OF this, of tc_default] show ?thesis
    by (simp add: run_one_def ensure_ready_def demo_hw_def)
qed

subsection \<open>The event pump\<close>

text \<open>What the pump should do with the answers it gets, read off the first 10001 of them.\<close>

definition noise :: "debug_event option \<Rightarrow> bool" where
  "noise e \<longleftrightarrow> (case e of None \<Rightarrow> False | Some de \<Rightarrow> exception_of de = None \<and> \<not> is_death de)"

definition answers :: "nat \<Rightarrow> hw \<Rightarrow> debug_event option list" where
  "answers k s = map fst (stake k (waits s))"

definition pump_verdict :: "nat \<Rightarrow> debug_event option list \<Rightarrow> pump_end" where
  "pump_verdict cap es =
     (let k = length (takeWhile noise es) in
      if cap < k then PumpTooMany
      else (case es ! k of
        None \<Rightarrow> PumpTimeout
      | Some de \<Rightarrow> (case exception_of de of
          Some rec \<Rightarrow> PumpException de rec
        | None \<Rightarrow> if k = cap then PumpTooMany else PumpDied)))"

lemma pump_verdict_noise: "noise e \<Longrightarrow> pump_verdict (Suc cap) (e # es) = pump_verdict cap es"
  by (simp add: pump_verdict_def Let_def)

lemma waits_simps [simp]:
  "waits (ContinueDebugEvent de s) = waits s" "waits (close_dll de s) = waits s"
  by (simp_all add: ContinueDebugEvent_def log_def close_dll_def close_opt_def CloseHandle_def
      split: event_info.splits option.splits)

lemma WaitForDebugEvent_answers:
  "WaitForDebugEvent s = (e, t) \<Longrightarrow> e = fst (shd (waits s)) \<and> waits t = stl (waits s)"
  by (auto simp: WaitForDebugEvent_def log_def split: prod.splits)

lemma pump_spec:
  assumes "n \<le> kMaxUninterestingEvents"
  shows "fst (pump n s) = pump_verdict (kMaxUninterestingEvents - n) (answers (kMaxUninterestingEvents - n + 1) s)"
  using assms
proof (induction n s rule: pump.induct)
  case (1 n s)
  obtain e s1 where w: "WaitForDebugEvent s = (e, s1)" by fastforce
  have e: "answers (Suc k) s = e # answers k s1" for k
    using WaitForDebugEvent_answers [OF w] by (simp add: answers_def)
  show ?case
  proof (cases "\<exists>de. e = Some de \<and> noise e \<and> n < kMaxUninterestingEvents")
    case True
    then obtain de where de: "e = Some de" "exception_of de = None" "\<not> is_death de" and n: "n < kMaxUninterestingEvents"
      by (auto simp: noise_def)
    define s2 where "s2 = ContinueDebugEvent de (close_dll de s1)"
    have s2: "answers k s2 = answers k s1" for k by (simp add: answers_def s2_def)
    have "fst (pump n s) = fst (pump (n + 1) s2)"
      using de n by (simp add: pump.simps [of n s] w s2_def)
    also have "\<dots> = pump_verdict (kMaxUninterestingEvents - (n + 1)) (answers (kMaxUninterestingEvents - (n + 1) + 1) s2)"
      unfolding s2_def by (rule "1.IH" [OF w [symmetric]]) (use de n in auto)
    also have "\<dots> = pump_verdict (kMaxUninterestingEvents - n) (answers (kMaxUninterestingEvents - n + 1) s)"
    proof -
      obtain m where "kMaxUninterestingEvents - n = Suc m" "kMaxUninterestingEvents - (n + 1) = m"
        using n by (metis Suc_diff_Suc Suc_eq_plus1)
      then show ?thesis using True de by (simp add: e s2 pump_verdict_noise)
    qed
    finally show ?thesis .
  next
    case False
    show ?thesis
    proof (cases "noise e")
      case True
      then obtain de where "e = Some de" "exception_of de = None" "\<not> is_death de" by (auto simp: noise_def split: option.splits)
      moreover have "n = kMaxUninterestingEvents" using False True "1.prems" calculation by auto
      moreover have "answers 0 s1 = []" by (simp add: answers_def)
      ultimately show ?thesis
        using True by (simp add: pump.simps [of kMaxUninterestingEvents s] w e pump_verdict_def Let_def)
    next
      case quiet: False
      then have "pump_verdict c (e # es) = (case e of None \<Rightarrow> PumpTimeout
          | Some de \<Rightarrow> (case exception_of de of Some rec \<Rightarrow> PumpException de rec
            | None \<Rightarrow> if c = 0 then PumpTooMany else PumpDied))" for c es
        by (simp add: pump_verdict_def Let_def)
      then show ?thesis
        using quiet "1.prems" by (auto simp: pump.simps [of n s] w e noise_def split: option.splits)
    qed
  qed
qed

lemma pump_consumes:
  assumes "n \<le> kMaxUninterestingEvents"
  shows "waits (snd (pump n s)) =
    sdrop (min (kMaxUninterestingEvents - n) (length (takeWhile noise (answers (kMaxUninterestingEvents - n + 1) s))) + 1) (waits s)"
  using assms
proof (induction n s rule: pump.induct)
  case (1 n s)
  obtain e s1 where w: "WaitForDebugEvent s = (e, s1)" by fastforce
  have e: "answers (Suc k) s = e # answers k s1" "waits s1 = stl (waits s)" for k
    using WaitForDebugEvent_answers [OF w] by (simp_all add: answers_def)
  show ?case
  proof (cases "\<exists>de. e = Some de \<and> noise e \<and> n < kMaxUninterestingEvents")
    case True
    then obtain de where de: "e = Some de" "noise e" "exception_of de = None" "\<not> is_death de"
      and n: "n < kMaxUninterestingEvents"
      by (auto simp: noise_def)
    define s2 where "s2 = ContinueDebugEvent de (close_dll de s1)"
    have s2: "answers k s2 = answers k s1" "waits s2 = stl (waits s)" for k by (simp_all add: answers_def s2_def e)
    obtain m where m: "kMaxUninterestingEvents - n = Suc m" "kMaxUninterestingEvents - (n + 1) = m"
      using n by (metis Suc_diff_Suc Suc_eq_plus1)
    have "waits (snd (pump n s)) = waits (snd (pump (n + 1) s2))"
      using de n by (simp add: pump.simps [of n s] w s2_def)
    also have "\<dots> = sdrop (min m (length (takeWhile noise (answers (m + 1) s2))) + 1) (waits s2)"
      unfolding s2_def m(2) [symmetric] by (rule "1.IH" [OF w [symmetric]]) (use de n in auto)
    finally show ?thesis using de(1,2) by (simp add: m s2 e)
  next
    case False
    then have "kMaxUninterestingEvents - n = 0 \<or> takeWhile noise (answers (kMaxUninterestingEvents - n + 1) s) = []"
      using "1.prems" by (cases e) (auto simp: e noise_def)
    then have "min (kMaxUninterestingEvents - n) (length (takeWhile noise (answers (kMaxUninterestingEvents - n + 1) s))) = 0"
      by auto
    moreover have "waits (snd (pump n s)) = stl (waits s)"
      using False "1.prems" by (auto simp: pump.simps [of n s] w e noise_def split: option.splits)
    ultimately show ?thesis by simp
  qed
qed

text \<open>
  C19: The event pump of a test case always ends, after at most 10001 debug events, and its verdict is
  the first decisive answer: an exception ends it with that exception, a timeout or the victim's
  death with a harness error, and the 10001st event without an exception with the cap's error. No
  event is skipped and none is read past the decisive one.
\<close>
theorem pump_exact:
  "fst (pump 0 s) = pump_verdict 10000 (answers 10001 s) \<and>
   waits (snd (pump 0 s)) = sdrop (min 10000 (length (takeWhile noise (answers 10001 s))) + 1) (waits s)"
proof -
  have "kMaxUninterestingEvents - 0 = 10000" "kMaxUninterestingEvents - 0 + 1 = 10001" "0 \<le> kMaxUninterestingEvents"
    by (simp_all add: kMaxUninterestingEvents_def)
  then show ?thesis using pump_spec [of 0 s] pump_consumes [of 0 s] by (simp only: simp_thms)
qed

subsection \<open>The pump to the loader breakpoint\<close>

text \<open>When the first pump has reason to stop at the last of some answers: a timeout, the breakpoint or
  the victim's exit, or one event too many that is not an exception.\<close>

definition counted :: "debug_event option \<Rightarrow> bool" where
  "counted e \<longleftrightarrow> (case e of None \<Rightarrow> False | Some de \<Rightarrow> \<not> is_exception de)"

definition decisive :: "debug_event option \<Rightarrow> bool" where
  "decisive e \<longleftrightarrow> (case e of None \<Rightarrow> True | Some de \<Rightarrow> is_breakpoint de \<or> is_exit de)"

definition spawn_stops :: "nat \<Rightarrow> debug_event option list \<Rightarrow> bool" where
  "spawn_stops n es \<longleftrightarrow> decisive (last es) \<or> kMaxUninterestingEvents < n + length (filter counted es)"

definition count_event :: "nat \<Rightarrow> debug_event \<Rightarrow> nat" where
  "count_event n de = (if is_exception de then n else n + 1)"

lemma spawn_stops_Cons:
  "es \<noteq> [] \<Longrightarrow> spawn_stops n (Some de # es) = spawn_stops (count_event n de) es"
  by (auto simp: spawn_stops_def counted_def count_event_def)

lemma answers_Suc:
  "WaitForDebugEvent s = (e, s1) \<Longrightarrow> answers (Suc k) s = e # answers k s1"
  "answers k (ContinueDebugEvent de s) = answers k s" "answers k (adopt de s) = answers k s"
proof -
  show "WaitForDebugEvent s = (e, s1) \<Longrightarrow> answers (Suc k) s = e # answers k s1"
    using WaitForDebugEvent_answers [of s e s1] by (simp add: answers_def)
  have "waits (adopt de s) = waits s"
    by (simp add: adopt_def close_opt_def CloseHandle_def log_def Let_def split: event_info.splits option.splits)
  then show "answers k (ContinueDebugEvent de s) = answers k s" "answers k (adopt de s) = answers k s"
    by (simp_all add: answers_def)
qed

lemma answers_not_Nil: "answers (Suc k) s \<noteq> []"
  by (simp add: answers_def)

text \<open>One unfolding of the pump: it stops at the first answer, or goes on with the rest.\<close>

lemma spawn_pump_step:
  assumes "WaitForDebugEvent s = (e, s1)" "n \<le> kMaxUninterestingEvents"
  shows "spawn_stops n [e] \<Longrightarrow> spawn_pump n s \<noteq> None"
    "\<not> spawn_stops n [e] \<Longrightarrow> \<exists>de. e = Some de \<and> count_event n de \<le> kMaxUninterestingEvents \<and>
       spawn_pump n s = spawn_pump (count_event n de) (ContinueDebugEvent de (adopt de s1))"
proof -
  note u = spawn_pump.simps [of n s]
  show "spawn_stops n [e] \<Longrightarrow> spawn_pump n s \<noteq> None"
    using assms by (cases e) (auto simp: u spawn_stops_def decisive_def counted_def split: if_splits)
  show "\<not> spawn_stops n [e] \<Longrightarrow> \<exists>de. e = Some de \<and> count_event n de \<le> kMaxUninterestingEvents \<and>
       spawn_pump n s = spawn_pump (count_event n de) (ContinueDebugEvent de (adopt de s1))"
    using assms by (cases e) (auto simp: u spawn_stops_def decisive_def counted_def count_event_def split: if_splits)
qed

lemma spawn_stops_later:
  assumes "WaitForDebugEvent s = (Some de, s1)" "spawn_stops (count_event n de) (answers (Suc k) s1)"
  shows "spawn_stops n (answers (Suc (Suc k)) s)"
  using assms by (simp only: answers_Suc(1) [OF assms(1), of "Suc k"] spawn_stops_Cons answers_not_Nil not_False_eq_True)

lemma spawn_pump_returns:
  "n \<le> kMaxUninterestingEvents \<Longrightarrow> spawn_stops n (answers (Suc k) s) \<Longrightarrow> spawn_pump n s \<noteq> None"
proof (induction k arbitrary: n s)
  case 0
  obtain e s1 where w: "WaitForDebugEvent s = (e, s1)" by fastforce
  have "answers (Suc 0) s = [e]" using answers_Suc(1) [OF w, of 0] by (simp add: answers_def)
  then show ?case using 0 spawn_pump_step(1) [OF w 0(1)] by simp
next
  case (Suc k)
  obtain e s1 where w: "WaitForDebugEvent s = (e, s1)" by fastforce
  show ?case
  proof (cases "spawn_stops n [e]")
    case True
    then show ?thesis by (rule spawn_pump_step(1) [OF w Suc.prems(1)])
  next
    case False
    then obtain de where de: "e = Some de" "count_event n de \<le> kMaxUninterestingEvents"
      "spawn_pump n s = spawn_pump (count_event n de) (ContinueDebugEvent de (adopt de s1))"
      using spawn_pump_step(2) [OF w Suc.prems(1)] by blast
    have "spawn_stops (count_event n de) (answers (Suc k) (ContinueDebugEvent de (adopt de s1)))"
      using Suc.prems(2) unfolding answers_Suc(2,3) answers_Suc(1) [OF w] de(1)
      by (simp only: spawn_stops_Cons answers_not_Nil not_False_eq_True)
    then show ?thesis using Suc.IH [OF de(2)] de(3) by simp
  qed
qed

lemma spawn_pump_stops:
  "spawn_pump n s = Some y \<Longrightarrow> n \<le> kMaxUninterestingEvents \<longrightarrow> (\<exists>k. spawn_stops n (answers (Suc k) s))"
proof (rule spawn_pump.raw_induct [of "\<lambda>n s y. n \<le> kMaxUninterestingEvents \<longrightarrow> (\<exists>k. spawn_stops n (answers (Suc k) s))"])
  fix f :: "nat \<Rightarrow> hw \<Rightarrow> ((string + debug_event) \<times> hw) option" and n s y
  assume f: "\<And>n s y. f n s = Some y \<Longrightarrow> n \<le> kMaxUninterestingEvents \<longrightarrow> (\<exists>k. spawn_stops n (answers (Suc k) s))"
    and b: "(case WaitForDebugEvent s of
     (None, s1) \<Rightarrow> Some (Inl ''WaitForDebugEvent timed out waiting for initial breakpoint'', s1)
   | (Some de, s1) \<Rightarrow>
       if \<not> is_exception de \<and> n + 1 > kMaxUninterestingEvents then
         Some (Inl ''too many non-exception debug events without reaching the sync point'', s1)
       else if is_breakpoint de then Some (Inr de, s1)
       else if is_exit de then Some (Inl ''victim exited before reaching sync point'', ContinueDebugEvent de s1)
       else f (if is_exception de then n else n + 1) (ContinueDebugEvent de (adopt de s1))) = Some y"
  obtain e s1 where w: "WaitForDebugEvent s = (e, s1)" by fastforce
  show "n \<le> kMaxUninterestingEvents \<longrightarrow> (\<exists>k. spawn_stops n (answers (Suc k) s))"
  proof (cases "spawn_stops n [e]")
    case True
    then have "spawn_stops n (answers (Suc 0) s)" using answers_Suc(1) [OF w, of 0] by (simp add: answers_def)
    then show ?thesis by blast
  next
    case False
    then obtain de where de: "e = Some de" "\<not> is_breakpoint de" "\<not> is_exit de"
      by (cases e) (auto simp: spawn_stops_def decisive_def)
    have c: "count_event n de \<le> kMaxUninterestingEvents" if "n \<le> kMaxUninterestingEvents"
      using False that by (auto simp: de(1) spawn_stops_def counted_def count_event_def split: if_splits)
    have "n \<le> kMaxUninterestingEvents \<Longrightarrow> f (count_event n de) (ContinueDebugEvent de (adopt de s1)) = Some y"
      using b c de by (auto simp: w count_event_def split: if_splits)
    then have "n \<le> kMaxUninterestingEvents \<Longrightarrow> \<exists>k. spawn_stops (count_event n de) (answers (Suc k) s1)"
      using f [of "count_event n de" "ContinueDebugEvent de (adopt de s1)" y] c by (simp add: answers_Suc(2,3))
    then show ?thesis using spawn_stops_later [OF w [unfolded de(1)]] by blast
  qed
qed

text \<open>
  C20: Waiting for the loader's breakpoint ends exactly when the debug events give it a reason to: some
  answer is a timeout, the breakpoint or the victim's exit, or more than 10000 events that are not
  exceptions have come. Exceptions other than the breakpoint are not counted, so no bound on the
  number of events follows.
\<close>
theorem spawn_pump_ends_iff:
  "(spawn_pump 0 s \<noteq> None) = (\<exists>k. spawn_stops 0 (answers (Suc k) s))"
  using spawn_pump_returns [of 0 _ s] spawn_pump_stops [of 0 s] by auto

text \<open>
  A victim that keeps raising an exception other than the breakpoint before its entry point holds the
  spawn for ever: neither the timeout nor the event cap ends the loop.
\<close>
theorem spawn_may_hang:
  assumes "exception_of de = Some rec" "ExceptionCode rec \<noteq> EXCEPTION_BREAKPOINT" "waits s = sconst (Some de, f)"
  shows "spawn_pump 0 s = None"
proof -
  have "is_exception de" "\<not> is_breakpoint de" "\<not> is_exit de"
    using assms(1,2) by (auto simp: exception_of_def is_exception_def is_breakpoint_def is_exit_def split: event_info.splits)
  then have "\<not> decisive (Some de)" "\<not> counted (Some de)" by (simp_all add: decisive_def counted_def)
  moreover have "stake k (sconst x) = replicate k x" for k and x :: "debug_event option \<times> (victim \<Rightarrow> victim)"
    by (induction k) (simp_all only: stake.simps siterate.simps id_apply replicate.simps)
  then have "answers (Suc k) s = replicate (Suc k) (Some de)" for k
    by (simp only: answers_def assms(3) map_replicate fst_conv)
  ultimately have "\<not> spawn_stops 0 (answers (Suc k) s)" for k
    by (simp add: spawn_stops_def)
  then show ?thesis using spawn_pump_stops [of 0 s] by (cases "spawn_pump 0 s") auto
qed

definition demo_fault :: debug_event where
  "demo_fault = \<lparr>dwProcessId = 7, dwThreadId = 8, event_info = EXCEPTION
     \<lparr>ExceptionCode = EXCEPTION_ACCESS_VIOLATION, NumberParameters = 2, ExceptionInformation = [0, 0],
      ExceptionAddress = 0\<rparr>\<rparr>"

theorem spawn_may_hang_witness: "spawn_pump 0 (demo_hw (sconst (Some demo_fault, id))) = None"
proof (rule spawn_may_hang)
  show "exception_of demo_fault = Some \<lparr>ExceptionCode = EXCEPTION_ACCESS_VIOLATION, NumberParameters = 2,
      ExceptionInformation = [0, 0], ExceptionAddress = 0\<rparr>"
    by (simp add: exception_of_def demo_fault_def)
qed (simp_all add: demo_hw_def)

subsection \<open>Handles\<close>

lemma build_restricted_token_handles:
  "case build_restricted_token s of
     (Inl e, t) \<Rightarrow> live_handles t = live_handles s
   | (Inr h, t) \<Rightarrow> live_handles t = h # live_handles s \<and> h < next_handle t"
  by (simp add: build_restricted_token_def Let_def api_ok_def new_handle_def CloseHandle_def log_def)

lemma launch_victim_handles:
  assumes "live_handles s = token # hs" "token < next_handle s"
  shows "case launch_victim token s of
     (Some e, t) \<Rightarrow> live_handles t = hs
   | (None, t) \<Rightarrow> live_handles t = the (job t) # hs"
  using assms
  by (simp add: launch_victim_def Let_def api_ok_def new_handle_def CloseHandle_def close_opt_def log_def)

text \<open>
  C23: Spawning leaks no handle: on every path through the token construction, the job, the NUL device
  and the process creation, each handle opened is closed, but for the job's, which the session keeps
  when and only when the victim was created.
\<close>
theorem spawn_closes_handles:
  "case build_restricted_token s of
     (Inl e, t) \<Rightarrow> live_handles t = live_handles s
   | (Inr token, t) \<Rightarrow> (case launch_victim token t of
       (Some e, u) \<Rightarrow> live_handles u = live_handles s
     | (None, u) \<Rightarrow> live_handles u = the (job u) # live_handles s)"
proof -
  obtain r t where b: "build_restricted_token s = (r, t)" by fastforce
  show ?thesis
  proof (cases r)
    case (Inl e)
    then show ?thesis using build_restricted_token_handles [of s] by (simp add: b)
  next
    case (Inr token)
    then show ?thesis
      using build_restricted_token_handles [of s] launch_victim_handles [of t token "live_handles s"] by (simp add: b)
  qed
qed

text \<open>
  C24: Tearing down a live session terminates the victim and waits for its events without continuing the
  event that is still pending, and when the exit arrives it closes the thread and process handles of
  the debug event after that exit has been continued, although those belong to the system.
\<close>
theorem teardown_trace:
  assumes "process s = Some p" "thread s = Some t" "job s = Some j" "fst (shd (waits s)) = Some de" "is_exit de"
  shows "calls (teardown s) = calls s @
     [CallTerminate p, CallWait (Some de), CallContinue de, CallClose t, CallClose p, CallClose j]"
proof -
  obtain f where f: "shd (waits s) = (Some de, f)" using assms(4) by (cases "shd (waits s)") auto
  have d: "drain_to_exit s = ContinueDebugEvent de (snd (WaitForDebugEvent (log (CallTerminate p) s)))"
    using assms(1,5) f by (simp add: drain_to_exit_def numeral_nat WaitForDebugEvent_def log_def)
  then have "calls (drain_to_exit s) = calls s @ [CallTerminate p, CallWait (Some de), CallContinue de]"
    "process (drain_to_exit s) = Some p" "thread (drain_to_exit s) = Some t" "job (drain_to_exit s) = Some j"
    using assms(1-3) f by (simp_all add: WaitForDebugEvent_def ContinueDebugEvent_def log_def)
  then show ?thesis by (simp add: teardown_def Let_def close_opt_def CloseHandle_def log_def)
qed

definition exit_event :: debug_event where
  "exit_event = \<lparr>dwProcessId = 7, dwThreadId = 8, event_info = EXIT_PROCESS\<rparr>"

theorem teardown_trace_witness:
  "calls (teardown (demo_hw (sconst (Some exit_event, id)))) =
     [CallTerminate 1, CallWait (Some exit_event), CallContinue exit_event, CallClose 2, CallClose 1, CallClose 0]"
proof -
  have "is_exit exit_event" by (simp add: is_exit_def exit_event_def)
  then show ?thesis
    using teardown_trace [of "demo_hw (sconst (Some exit_event, id))" 1 2 0 exit_event] by (simp add: demo_hw_def)
qed

subsection \<open>One test case is one step\<close>

text \<open>What the victim is when it is resumed, and what is reported of it after the exception.\<close>

definition prepared_memory :: "test_case \<Rightarrow> (u64 \<Rightarrow> u8) \<Rightarrow> u64 \<Rightarrow> u8" where
  "prepared_memory tc m = store_bytes kStackTop (le_bytes 8 kCodeBase)
     (store_bytes kDataBase (tc_data_seed tc)
       (store_bytes kStackBase (replicate kPageSize 0)
         (store_bytes kDataBase (replicate kPageSize 0)
           (store_bytes kCodeBase (tc_bytes tc) m))))"

definition prepared :: "test_case \<Rightarrow> victim \<Rightarrow> victim" where
  "prepared tc v = \<lparr>vctx = start_context (vctx v) (tc_initial tc), vmem = prepared_memory tc (vmem v)\<rparr>"

definition step_outcome :: "exception_record \<Rightarrow> victim \<Rightarrow> lane_outcome" where
  "step_outcome rec v = outcome_default\<lparr>stop := map_exception rec, detail := exception_detail rec,
     after := (read_context (vctx v) reg_default)\<lparr>data_after := memory_at (vmem v) kDataBase kDataWindow\<rparr>,
     captures_x87 := True\<rparr>"

lemma api_ok_True: "oks s = sconst True \<Longrightarrow> api_ok s = (True, s)"
  by (simp add: api_ok_def)

lemma WriteProcessMemory_True: "oks s = sconst True \<Longrightarrow>
  WriteProcessMemory a bs s = (True, s\<lparr>vic := (vic s)\<lparr>vmem := store_bytes a bs (vmem (vic s))\<rparr>\<rparr>)"
  by (simp add: WriteProcessMemory_def api_ok_True)

text \<open>Events that the pump passes over, and what they do to the victim.\<close>

definition passed :: "(debug_event option \<times> (victim \<Rightarrow> victim)) list \<Rightarrow> victim \<Rightarrow> victim" where
  "passed ns v = fold (\<lambda>x v. snd x v) ns v"

lemma pump_passes:
  assumes "waits s = ns @- (Some de, f) ## w" "list_all (\<lambda>x. noise (fst x)) ns" "n + length ns \<le> kMaxUninterestingEvents"
    "exception_of de = Some rec"
  shows "\<exists>t. pump n s = (PumpException de rec, t) \<and> waits t = w \<and> vic t = f (passed ns (vic s)) \<and> oks t = oks s \<and>
    ready t = ready s \<and> steps_since_respawn t = steps_since_respawn s \<and> process t = process s"
  using assms
proof (induction ns arbitrary: n s)
  case Nil
  then show ?case by (simp add: pump.simps [of n s] WaitForDebugEvent_def log_def passed_def)
next
  case (Cons x ns)
  obtain d g where x: "x = (Some d, g)" "exception_of d = None" "\<not> is_death d"
    using Cons.prems(2) by (cases x) (auto simp: noise_def split: option.splits)
  define t where "t = ContinueDebugEvent d (close_dll d (snd (WaitForDebugEvent s)))"
  have t: "waits t = ns @- (Some de, f) ## w" "vic t = g (vic s)" "oks t = oks s" "ready t = ready s"
      "steps_since_respawn t = steps_since_respawn s" "process t = process s"
    using Cons.prems(1) x(1)
    by (simp_all add: t_def WaitForDebugEvent_def ContinueDebugEvent_def close_dll_def close_opt_def CloseHandle_def log_def
        split: event_info.splits option.splits)
  have "pump n s = pump (n + 1) t"
    using Cons.prems(1,3) x by (simp add: pump.simps [of n s] WaitForDebugEvent_def t_def)
  moreover have "passed (x # ns) (vic s) = passed ns (vic t)" by (simp add: passed_def x(1) t(2))
  moreover have "\<exists>u. pump (n + 1) t = (PumpException de rec, u) \<and> waits u = w \<and> vic u = f (passed ns (vic t)) \<and> oks u = oks t \<and>
      ready u = ready t \<and> steps_since_respawn u = steps_since_respawn t \<and> process u = process t"
    using Cons.IH [OF t(1), of "n + 1"] Cons.prems(2-4) by simp
  ultimately show ?case using t(3-6) by simp
qed

lemma run_one_session_after:
  assumes "ready s" "oks s = sconst True" "waits s = ns @- (Some de, f) ## w" "list_all (\<lambda>x. noise (fst x)) ns"
    "length ns \<le> kMaxUninterestingEvents" "exception_of de = Some rec"
  shows "\<exists>t. run_one tc s = Some (step_outcome rec (f (passed ns (prepared tc (vic s)))),
      finish_round (step_outcome rec (f (passed ns (prepared tc (vic s))))) t) \<and>
    waits t = w \<and> oks t = sconst True \<and> ready t \<and> steps_since_respawn t = steps_since_respawn s \<and>
    process t = process s"
proof -
  define s1 where "s1 = s\<lparr>vic := prepared tc (vic s)\<rparr>"
  define c where "c = start_context (vctx (vic s)) (tc_initial tc)"
  have get: "GetThreadContext s = (True, vctx (vic s), s)"
    by (simp add: GetThreadContext_def api_ok_True assms(2))
  have set: "SetThreadContext c s = (True, s\<lparr>vic := (vic s)\<lparr>vctx := c\<rparr>\<rparr>)"
    by (simp add: SetThreadContext_def api_ok_True assms(2))
  have code: "write_code tc (s\<lparr>vic := (vic s)\<lparr>vctx := c\<rparr>\<rparr>) =
      (True, s\<lparr>vic := \<lparr>vctx = c, vmem = store_bytes kCodeBase (tc_bytes tc) (vmem (vic s))\<rparr>\<rparr>)"
    by (cases "vic s") (simp add: write_code_def WriteProcessMemory_True assms(2))
  have reset: "reset_pages tc (s\<lparr>vic := \<lparr>vctx = c, vmem = store_bytes kCodeBase (tc_bytes tc) (vmem (vic s))\<rparr>\<rparr>) = s1"
    by (simp add: reset_pages_def WriteProcessMemory_True assms(2) s1_def prepared_def prepared_memory_def c_def)
  have res: "vic (resume s1) = prepared tc (vic s)" "waits (resume s1) = waits s" "oks (resume s1) = oks s"
    by (simp_all add: resume_def ContinueDebugEvent_def log_def s1_def split: option.splits)
  obtain s2 where pump: "pump 0 (resume s1) = (PumpException de rec, s2)" and s2: "waits s2 = w"
      "vic s2 = f (passed ns (prepared tc (vic s)))" "oks s2 = sconst True"
    and s2': "ready s2" "steps_since_respawn s2 = steps_since_respawn s" "process s2 = process s"
    using pump_passes [OF _ assms(4) _ assms(6), of "resume s1" f w 0] res assms(1-3,5)
    by (auto simp: resume_def ContinueDebugEvent_def log_def s1_def split: option.splits)
  have "GetThreadContext s2 = (True, vctx (vic s2), s2)"
    "ReadProcessMemory kDataBase kDataWindow s2 = (Some (memory_at (vmem (vic s2)) kDataBase kDataWindow), s2)"
    by (simp_all add: GetThreadContext_def ReadProcessMemory_def api_ok_True s2(3) memory_at_def)
  then have "collect rec s2 = (step_outcome rec (vic s2), s2)"
    by (simp add: collect_def step_outcome_def Let_def outcome_default_def)
  then have "run_ready tc s = (step_outcome rec (vic s2), finish_round (step_outcome rec (vic s2)) (s2\<lparr>pending_event := Some de\<rparr>))"
    by (simp add: run_ready_def get set [unfolded c_def] code [unfolded c_def] reset [unfolded c_def] pump)
  then show ?thesis using assms(1) s2 s2'
    by (intro exI [of _ "s2\<lparr>pending_event := Some de\<rparr>"]) (simp add: run_one_def ensure_ready_def)
qed

lemma run_one_session:
  assumes "ready s" "oks s = sconst True" "shd (waits s) = (Some de, f)" "exception_of de = Some rec"
  shows "\<exists>t. run_one tc s = Some (step_outcome rec (f (prepared tc (vic s))),
      finish_round (step_outcome rec (f (prepared tc (vic s)))) t) \<and>
    waits t = stl (waits s) \<and> oks t = sconst True \<and> ready t \<and> steps_since_respawn t = steps_since_respawn s \<and>
    process t = process s"
proof -
  have "waits s = [] @- (Some de, f) ## stl (waits s)" using assms(3) by (simp flip: assms(3))
  from run_one_session_after [OF assms(1,2) this _ _ assms(4)] show ?thesis by (simp add: passed_def)
qed

lemma run_one_step:
  assumes "ready s" "oks s = sconst True" "shd (waits s) = (Some de, f)" "exception_of de = Some rec"
  shows "map_option fst (run_one tc s) = Some (step_outcome rec (f (prepared tc (vic s))))"
  using run_one_session [OF assms, of tc] by auto

text \<open>
  C9: When the calls succeed and the victim's next debug event is an exception, \<open>run_one\<close> on a ready
  session is exactly one step of the victim from the prepared context and memory: the stop reason
  and the detail are those of the exception, the registers and the data window those the victim
  has then, whatever the session has run before.
\<close>
theorem run_one_is_one_step:
  assumes "ready s" "oks s = sconst True" "shd (waits s) = (Some de, f)" "exception_of de = Some rec"
  shows "map_option fst (run_one tc s) = Some (step_outcome rec (f (prepared tc (vic s))))"
  by (rule run_one_step [OF assms])

theorem run_one_is_one_step_witness:
  "map_option fst (run_one tc_default (demo_hw (sconst (Some demo_fault, id)))) =
     Some (step_outcome \<lparr>ExceptionCode = EXCEPTION_ACCESS_VIOLATION, NumberParameters = 2,
       ExceptionInformation = [0, 0], ExceptionAddress = 0\<rparr>
       (prepared tc_default \<lparr>vctx = blank_context, vmem = (\<lambda>_. 0xCC)\<rparr>))"
  using run_one_is_one_step [of "demo_hw (sconst (Some demo_fault, id))" demo_fault id
      "\<lparr>ExceptionCode = EXCEPTION_ACCESS_VIOLATION, NumberParameters = 2,
        ExceptionInformation = [0, 0], ExceptionAddress = 0\<rparr>" tc_default]
  by (simp add: demo_hw_def exception_of_def demo_fault_def)

lemma prepared_memory_scratch:
  assumes "length (tc_data_seed tc) = kDataWindow" "length (tc_bytes tc) \<le> kPageSize" "k < 0x3000"
    "k < length (tc_bytes tc) \<or> 0x1000 \<le> k"
  shows "prepared_memory tc m (kCodeBase + of_nat k) = scratch_byte tc k"
  using assms(3,4) by (auto simp: prepared_memory_def scratch_byte_def store_scratch [OF _ assms(1,2)])

text \<open>
  The memory the victim is resumed with is that of the test case and nothing of the cases before it
  in the three places an instruction can reach: the code page starts with the instruction's bytes,
  the data page is the seed followed by zeros, and the stack page is zero but for the return
  address at the stack pointer.
\<close>
theorem prepared_pages:
  assumes "length (tc_data_seed tc) = kDataWindow" "length (tc_bytes tc) \<le> kPageSize"
  shows "memory_at (prepared_memory tc m) kCodeBase (length (tc_bytes tc)) = tc_bytes tc \<and>
     memory_at (prepared_memory tc m) kDataBase kPageSize =
       tc_data_seed tc @ replicate (kPageSize - kDataWindow) 0 \<and>
     memory_at (prepared_memory tc m) kStackBase kPageSize =
       replicate 0xF00 0 @ le_bytes 8 kCodeBase @ replicate (kPageSize - 0xF08) 0"
proof -
  have at: "\<And>k. k < 0x3000 \<Longrightarrow> k < length (tc_bytes tc) \<or> 0x1000 \<le> k \<Longrightarrow>
      prepared_memory tc m (kCodeBase + of_nat k) = scratch_byte tc k"
    by (rule prepared_memory_scratch [OF assms])
  show ?thesis using scratch_pages [OF assms, of "prepared_memory tc m"] at by blast
qed

theorem prepared_pages_witness:
  "memory_at (prepared_memory tc_default (\<lambda>_. 0xCC)) kDataBase kPageSize =
     tc_data_seed tc_default @ replicate (kPageSize - kDataWindow) 0"
  using prepared_pages [of tc_default "\<lambda>_. 0xCC"] by (simp add: tc_default_def)

subsection \<open>The contract of a lane\<close>

text \<open>The victim as a machine, and the exceptions that answer an instruction.\<close>

definition victim_machine :: "nat \<Rightarrow> victim \<Rightarrow> machine" where
  "victim_machine n v = observed n (read_context (vctx v) reg_default) (vmem v)"

fun windows_faults :: "fault \<Rightarrow> exception_code list" where
  "windows_faults Fault_ud = [EXCEPTION_ILLEGAL_INSTRUCTION]"
| "windows_faults Fault_gp = [EXCEPTION_PRIV_INSTRUCTION]"
| "windows_faults Fault_pf = [EXCEPTION_IN_PAGE_ERROR]"
| "windows_faults Fault_de = [EXCEPTION_INT_DIVIDE_BY_ZERO, EXCEPTION_INT_OVERFLOW]"

text \<open>Windows says access violation both for a page fault, with the address, and for a protection fault,
  with all bits set in its place.\<close>

definition exception_answer :: "exception_record \<Rightarrow> fault option \<Rightarrow> bool" where
  "exception_answer rec f \<longleftrightarrow> (case f of
     None \<Rightarrow> ExceptionCode rec = EXCEPTION_SINGLE_STEP
   | Some f \<Rightarrow> ExceptionCode rec \<in> set (windows_faults f) \<or>
       ExceptionCode rec = EXCEPTION_ACCESS_VIOLATION \<and> 2 \<le> NumberParameters rec \<and>
       f = (if ExceptionInformation rec ! 1 = 0xFFFFFFFFFFFFFFFF then Fault_gp else Fault_pf))"

lemma windows_faults_stop: "ExceptionCode rec \<in> set (windows_faults f) \<Longrightarrow> map_exception rec = fault_stop f"
  by (cases f) (auto simp: map_exception_def)

lemma exception_answer_stop:
  "exception_answer rec f \<Longrightarrow> map_exception rec = (case f of None \<Rightarrow> Stop_ok | Some f \<Rightarrow> fault_stop f)"
  using windows_faults_stop
  by (cases f) (auto simp: exception_answer_def, auto simp: map_exception_def gp_shaped_def)

lemma masked_start_flags:
  "((f AND kCompareFlagsMask) OR 0x102) AND kCompareFlagsMask = f AND kCompareFlagsMask"
proof -
  have "(0x102 :: u64) AND kCompareFlagsMask = 0" by (simp add: kCompareFlagsMask_def)
  then show ?thesis by (simp add: bit.conj_disj_distrib2 and.assoc)
qed

lemma victim_start:
  assumes "tc_ok tc"
  shows "victim_machine (length (tc_bytes tc)) (prepared tc v) = start_machine tc"
proof -
  have sh: "reg_shape (tc_initial tc)" "well_tagged (x87 (tc_initial tc))" "length (tc_data_seed tc) = kDataWindow"
    "length (tc_bytes tc) \<le> kPageSize"
    using assms by (simp_all add: tc_ok_def)
  show ?thesis
    using read_start_context [OF sh(1), of "vctx v" reg_default] sh(2)
    by (auto simp: victim_machine_def prepared_def masked_start_flags intro!: observed_start assms prepared_memory_scratch sh)
qed

interpretation hardware: lane "\<lambda>v. True" prepared victim_machine exception_answer "\<lambda>v. True" step_outcome True
proof
  fix rec and v :: victim and f n
  show "exception_answer rec (Some f) \<Longrightarrow> reports True (Inl f) (step_outcome rec v)"
    using exception_answer_stop [of rec "Some f"] by (simp add: step_outcome_def outcome_default_def)
  show "exception_answer rec None \<Longrightarrow> reports True (Inr (victim_machine n v)) (step_outcome rec v)"
    using exception_answer_stop [of rec None] by (simp add: step_outcome_def outcome_default_def victim_machine_def observed_def
        take_memory_at kPageSize_def kDataWindow_def)
qed (rule victim_start)

definition victim_implements :: "isa \<Rightarrow> test_case \<Rightarrow> exception_record \<Rightarrow> (victim \<Rightarrow> victim) \<Rightarrow> victim \<Rightarrow> bool" where
  "victim_implements isa tc rec f v \<longleftrightarrow>
     implements exception_answer victim_machine (\<lambda>v. True) isa (\<lambda>v. (rec, f v)) (length (tc_bytes tc)) (prepared tc v)"

lemma run_one_reports_after:
  assumes "tc_ok tc" "ready s" "oks s = sconst True" "waits s = ns @- (Some de, f) ## w" "list_all (\<lambda>x. noise (fst x)) ns"
    "length ns \<le> kMaxUninterestingEvents" "exception_of de = Some rec"
    "victim_implements isa tc rec (\<lambda>v. f (passed ns v)) (vic s)" "map_option fst (run_one tc s) = Some out"
  shows "reports True (isa (start_machine tc)) out"
  using hardware.reports_result [OF _ assms(1) assms(8) [unfolded victim_implements_def]]
    run_one_session_after [OF assms(2-7), of tc] assms(9) by auto

lemma run_one_reports:
  assumes "tc_ok tc" "ready s" "oks s = sconst True" "shd (waits s) = (Some de, f)" "exception_of de = Some rec"
    "victim_implements isa tc rec f (vic s)" "map_option fst (run_one tc s) = Some out"
  shows "reports True (isa (start_machine tc)) out"
  using hardware.reports_result [OF _ assms(1) assms(6) [unfolded victim_implements_def]]
    run_one_step [OF assms(2-5), of tc] assms(7) by simp

end
