(* ===== verification/Demo.thy ===== *)
theory Demo
  imports SevenLane UnicornLane HwSession
begin

section \<open>Engines that satisfy the hypotheses\<close>

text \<open>
  A Unicorn over a map of registers, and on every lane an engine that implements the instruction set
  whose only instruction is NOP. With \<open>plain_engine\<close> they show that the hypotheses on the third-party
  engines, and that they implement the same instruction set, can be met together.
\<close>

definition nop_isa :: isa where
  "nop_isa M = Inr (M\<lparr>m_rip := m_rip M + 1\<rparr>)"

subsection \<open>seven and seven-jit\<close>

definition nop_step :: "(512 word, u16 \<times> u16) cpu_state \<times> view \<Rightarrow> seven_stop \<times> (512 word, u16 \<times> u16) cpu_state \<times> view" where
  "nop_step = (\<lambda>(s, m). (SR_none, s\<lparr>cpu_rip := cpu_rip s + 1\<rparr>, m))"

definition nop_run :: "unit \<Rightarrow> (512 word, u16 \<times> u16) cpu_state \<times> view \<Rightarrow>
    seven_stop \<times> unit \<times> (512 word, u16 \<times> u16) cpu_state \<times> view" where
  "nop_run j = (\<lambda>(s, m). (SR_execution_limit, j, s\<lparr>cpu_rip := cpu_rip s + 1\<rparr>, m))"

lemma nop_engine_machine:
  "engine_machine n (plain_engine, view, s\<lparr>cpu_rip := cpu_rip s + 1\<rparr>, m) =
     (engine_machine n (plain_engine, view, s, m))\<lparr>m_rip := m_rip (engine_machine n (plain_engine, view, s, m)) + 1\<rparr>"
  by (simp add: engine_machine_def observed_def read_cpu_def read_x87_def plain_engine_def Let_def del: upt_rec_numeral)

lemma nop_seven_implements: "tc_ok tc \<Longrightarrow> seven_implements nop_isa plain_engine (\<lambda>m. m) nop_step tc"
  using write_case_scratch(2) [OF plain_engine_laws(2), of "new_memory plain_engine" tc] plain_engine_laws
  by (simp add: seven_implements_def implements_def nop_step_def prepare_seven_def engine_answer_def engine_intact_def
      nop_isa_def nop_engine_machine unmapped_def memory_laws_def)

lemma nop_jit_implements: "tc_ok tc \<Longrightarrow> jit_implements nop_isa plain_engine (\<lambda>m. m) nop_run tc () m"
  using write_case_scratch(2) [where view = "\<lambda>m. m", OF plain_engine_laws(2) unmapped_unmap_pages [where view = "\<lambda>m. m", OF plain_engine_laws(2)], of tc m]
    plain_engine_laws
  by (simp add: jit_implements_def implements_def nop_run_def prepare_seven_jit_def engine_answer_def engine_intact_def
      nop_isa_def nop_engine_machine)

subsection \<open>Unicorn\<close>

definition plain_uc :: "(view \<times> (uc_reg \<Rightarrow> u8 list)) uc_api" where
  "plain_uc =
     \<lparr>uc_open = Inr (\<lambda>x. None, \<lambda>r. replicate (reg_size r) 0),
      uc_mem_map = (\<lambda>a n (v, g). (UC_ERR_OK, put_bytes a (replicate n 0) v, g)),
      uc_mem_write = (\<lambda>a bs (v, g). if mapped v a (length bs) then (UC_ERR_OK, put_bytes a bs v, g)
                                    else (UC_ERR_WRITE_UNMAPPED, v, g)),
      uc_mem_read = (\<lambda>a n (v, g). if mapped v a n then Some (memory_at (bytes_of v) a n) else None),
      uc_reg_write = (\<lambda>r bs (v, g). (UC_ERR_OK, v, g(r := bs))),
      uc_reg_read = (\<lambda>r (v, g). Some (g r)),
      uc_emu_start = (\<lambda>start until n (v, g). (UC_ERR_OK, [], v,
         g(REG_RIP := le_bytes 8 (of_le_bytes (g REG_RIP) + 1 :: u64)))),
      uc_strerror = (\<lambda>e. ''OK'')\<rparr>"

lemma plain_uc_laws: "uc_laws plain_uc fst"
  by (simp add: uc_laws_def plain_uc_def put_page_def shown_def disturbs_def split: prod.splits)

lemma nop_uc_machine:
  "uc_machine n (plain_uc, fst, v, g(REG_RIP := le_bytes 8 (of_le_bytes (g REG_RIP) + 1 :: u64))) =
     (uc_machine n (plain_uc, fst, v, g))\<lparr>m_rip := m_rip (uc_machine n (plain_uc, fst, v, g)) + 1\<rparr>"
proof -
  have r: "reg_bytes plain_uc r (v, h) = h r" for r h by (simp add: reg_bytes_def plain_uc_def)
  have m: "uc_mem_read plain_uc a k (v, h) = uc_mem_read plain_uc a k (v, g)" for a k h by (simp add: plain_uc_def)
  define h where "h = g(REG_RIP := le_bytes 8 (of_le_bytes (g REG_RIP) + 1 :: u64))"
  have "h r = g r" if "r \<noteq> REG_RIP" for r using that by (simp add: h_def)
  then have "h (kGprRegIds ! i) = g (kGprRegIds ! i)" "h (REG_XMM i) = g (REG_XMM i)" if "i < 16" for i
    using gpr_ids(3) [OF that] by auto
  then have maps: "map (\<lambda>i. of_le_bytes (h (kGprRegIds ! i)) :: u64) [0..<16] = map (\<lambda>i. of_le_bytes (g (kGprRegIds ! i))) [0..<16]"
    "map (\<lambda>i. of_le_bytes (take 8 (h (kXmmRegIds ! i))) :: u64) [0..<16] = map (\<lambda>i. of_le_bytes (take 8 (g (kXmmRegIds ! i)))) [0..<16]"
    "map (\<lambda>i. of_le_bytes (drop 8 (h (kXmmRegIds ! i))) :: u64) [0..<16] = map (\<lambda>i. of_le_bytes (drop 8 (g (kXmmRegIds ! i)))) [0..<16]"
    by (auto intro!: map_cong simp del: upt_rec_numeral)
  have "h REG_RIP = le_bytes 8 (of_le_bytes (g REG_RIP) + 1 :: u64)" "h REG_EFLAGS = g REG_EFLAGS"
    "h (REG_ST i) = g (REG_ST i)" "h REG_FPCW = g REG_FPCW" "h REG_FPSW = g REG_FPSW" "h REG_FPTAG = g REG_FPTAG" for i
    by (simp_all add: h_def)
  then have "uc_machine n (plain_uc, fst, v, h) =
      (uc_machine n (plain_uc, fst, v, g))\<lparr>m_rip := m_rip (uc_machine n (plain_uc, fst, v, g)) + 1\<rparr>"
    by (simp add: uc_machine_def observed_def read_unicorn_def uc_x87_def r m maps del: upt_rec_numeral)
  then show ?thesis by (simp only: h_def)
qed

lemma nop_unicorn_implements:
  assumes "tc_ok tc"
  shows "unicorn_implements nop_isa plain_uc fst tc"
  unfolding unicorn_implements_def
proof (intro allI impI)
  fix u assume u: "uc_open plain_uc = Inr u"
  then have "fst u = (\<lambda>x. None)" by (auto simp: plain_uc_def)
  then obtain w where w: "perform plain_uc (memory_calls tc) u = Inr w" "fst w = with_case tc (fresh_pages (\<lambda>x. None))"
    using perform_memory [OF plain_uc_laws _ assms] by blast
  obtain v where v: "perform plain_uc (register_calls (tc_initial tc) @ x87_calls (x87 (tc_initial tc))) w = Inr v" "fst v = fst w"
    using perform_registers [OF plain_uc_laws register_calls_ok, of "tc_initial tc" "x87 (tc_initial tc)" w] by auto
  have p: "perform plain_uc (setup_calls tc) u = Inr v"
    unfolding setup_calls_def perform_append [of plain_uc "memory_calls tc"] w(1) using v(1) by simp
  have "pages_mapped (fst v)" by (simp add: v(2) w(2) pages_mapped_fresh pages_mapped_with_case)
  moreover obtain m g where "v = (m, g)" by (cases v)
  moreover have "uc_emu_start plain_uc a b n (m, g) = (UC_ERR_OK, [], m, g(REG_RIP := le_bytes 8 (of_le_bytes (g REG_RIP) + 1 :: u64)))"
    for a b n m g by (simp add: plain_uc_def)
  ultimately show "implements uc_answer uc_machine uc_intact nop_isa
     (\<lambda>(api, view, u). case uc_emu_start api kCodeBase 0xFFFFFFFFFFFFFFFF 1 u of (err, ints, u) \<Rightarrow> ((err, ints), (api, view, u)))
     (length (tc_bytes tc)) (prepare_unicorn tc (plain_uc, fst, u))"
    by (simp add: implements_def prepare_unicorn_def u p uc_answer_def uc_intact_def plain_uc_laws
        nop_isa_def nop_uc_machine del: One_nat_def)
qed

subsection \<open>The processor\<close>

definition nop_trap :: exception_record where
  "nop_trap = \<lparr>ExceptionCode = EXCEPTION_SINGLE_STEP, NumberParameters = 0, ExceptionInformation = [], ExceptionAddress = 0\<rparr>"

definition nop_event :: debug_event where
  "nop_event = \<lparr>dwProcessId = 7, dwThreadId = 8, event_info = EXCEPTION nop_trap\<rparr>"

definition nop_victim :: "victim \<Rightarrow> victim" where
  "nop_victim v = v\<lparr>vctx := (vctx v)\<lparr>Rip := Rip (vctx v) + 1\<rparr>\<rparr>"

definition nop_session :: hw where
  "nop_session = demo_hw (sconst (Some nop_event, nop_victim))"

lemma nop_victim_implements: "victim_implements nop_isa tc nop_trap nop_victim v"
  by (simp add: victim_implements_def implements_def exception_answer_def nop_trap_def nop_isa_def
      victim_machine_def observed_def read_context_def read_x87_from_context_def read_xmm_from_context_def
      read_gpr_from_context_def nop_victim_def Let_def del: upt_rec_numeral)

end
