(* ===== verification/Driver.thy ===== *)
theory Driver
  imports Compare
begin

section \<open>The driver\<close>

text \<open>
  \<^verbatim>\<open>src/main.cpp\<close>, the parts that decide: seed derivation (\<open>mix_seed\<close>), the command line
  (\<open>parse_args\<close>, with \<^verbatim>\<open>strtoul\<close> and \<^verbatim>\<open>strtoull\<close> written out), the choice of threads and the split
  of the iterations, the command line of a sweep's children, the classification of their exits and one
  poll of the watchdog.
\<close>

subsection \<open>Seeds\<close>

definition mix_seed :: "u64 \<Rightarrow> 32 word \<Rightarrow> u64" where
  "mix_seed base worker_id =
     (let z = base + scast (worker_id + 1) * 0x9E3779B97F4A7C15;
          z = (z XOR drop_bit 30 z) * 0xBF58476D1CE4E5B9;
          z = (z XOR drop_bit 27 z) * 0x94D049BB133111EB
      in z XOR drop_bit 31 z)"

lemma xorshift_inj:
  assumes k: "0 < k" and e: "x XOR drop_bit k x = y XOR drop_bit k (y :: u64)"
  shows "x = y"
proof -
  have "n < 64 \<Longrightarrow> bit x n = bit y n" for n
  proof (induction "64 - n" arbitrary: n rule: less_induct)
    case less
    have "bit x (k + n) = bit y (k + n)"
    proof (cases "k + n < 64")
      case True
      then show ?thesis using less k by auto
    next
      case False
      then show ?thesis by (auto dest: bit_imp_le_length)
    qed
    moreover have "bit (x XOR drop_bit k x) n = bit (y XOR drop_bit k y) n" using e by simp
    ultimately show ?case by (auto simp: bit_xor_iff bit_drop_bit_eq add.commute)
  qed
  then show ?thesis by (intro bit_word_eqI) simp
qed

lemma mult_inj_by_inverse: "c * ci = (1 :: u64) \<Longrightarrow> x * c = y * c \<Longrightarrow> x = y"
proof -
  assume c: "c * ci = 1" and "x * c = y * c"
  then have "x * c * ci = y * c * ci" by (simp only:)
  then show "x = y" by (simp only: mult.assoc c mult_1_right)
qed

lemma mix_multipliers:
  "(0x9E3779B97F4A7C15 :: u64) * 0xF1DE83E19937733D = 1"
  "(0xBF58476D1CE4E5B9 :: u64) * 0x96DE1B173F119089 = 1"
  "(0x94D049BB133111EB :: u64) * 0x319642B2D24D8EC3 = 1"
  by simp_all

definition finalize :: "u64 \<Rightarrow> u64" where
  "finalize z = (let z = (z XOR drop_bit 30 z) * 0xBF58476D1CE4E5B9;
                     z = (z XOR drop_bit 27 z) * 0x94D049BB133111EB
                 in z XOR drop_bit 31 z)"

lemma finalize_inj: "finalize x = finalize y \<Longrightarrow> x = y"
  unfolding finalize_def Let_def
  by (drule xorshift_inj [rotated], simp, drule mult_inj_by_inverse [OF mix_multipliers(3)],
      drule xorshift_inj [rotated], simp, drule mult_inj_by_inverse [OF mix_multipliers(2)],
      drule xorshift_inj [rotated], simp, assumption)

lemma mix_seed_finalize: "mix_seed base w = finalize (base + scast (w + 1) * 0x9E3779B97F4A7C15)"
  by (simp add: mix_seed_def finalize_def Let_def)

lemma scast_u64_inj: "(scast (x :: 32 word) :: u64) = scast y \<Longrightarrow> x = y"
proof (rule bit_word_eqI)
  fix n assume e: "(scast x :: u64) = scast y" and n: "n < LENGTH(32)"
  have "bit (scast x :: u64) n = bit (scast y :: u64) n" using e by simp
  then show "bit x n = bit y n" using n by (simp add: bit_signed_iff)
qed

lemma mix_seed_inj: "inj (mix_seed base)"
proof (rule injI)
  fix x y assume "mix_seed base x = mix_seed base y"
  then have "base + scast (x + 1) * 0x9E3779B97F4A7C15 = base + scast (y + 1) * 0x9E3779B97F4A7C15"
    unfolding mix_seed_finalize by (rule finalize_inj)
  then have "(scast (x + 1) :: u64) * 0x9E3779B97F4A7C15 = scast (y + 1) * 0x9E3779B97F4A7C15" by simp
  then have "(scast (x + 1) :: u64) = scast (y + 1)" by (rule mult_inj_by_inverse [OF mix_multipliers(1)])
  then have "x + 1 = y + 1" by (rule scast_u64_inj)
  then show "x = y" by simp
qed

text \<open>
  Seed derivation never collides: for one base seed, distinct workers (or sweep indices) get
  distinct seeds, and for one worker, distinct base seeds do.
\<close>
theorem mix_seed_injective: "inj (mix_seed base) \<and> inj (\<lambda>b. mix_seed b w)"
proof (intro conjI injI)
  fix x y assume "mix_seed x w = mix_seed y w"
  then have "x + scast (w + 1) * 0x9E3779B97F4A7C15 = y + scast (w + 1) * 0x9E3779B97F4A7C15"
    unfolding mix_seed_finalize by (rule finalize_inj)
  then show "x = y" by simp
qed (rule injD [OF mix_seed_inj])

subsection \<open>Threads and shares\<close>

definition choose_threads :: "u32 \<Rightarrow> u32 \<Rightarrow> u64 \<Rightarrow> u32" where
  "choose_threads hw_conc requested iterations =
     (let threads = (if requested = 0
                     then (if hw_conc = 0 then 4 else if 4 < hw_conc then hw_conc - 2 else hw_conc)
                     else requested);
          threads = (if iterations < ucast threads then ucast (if iterations = 0 then 1 else iterations)
                     else threads)
      in if threads = 0 then 1 else threads)"

definition shares :: "u32 \<Rightarrow> u64 \<Rightarrow> u64 list" where
  "shares threads iterations =
     (let base_share = iterations div ucast threads; remainder = iterations mod ucast threads in
      map (\<lambda>w. base_share + (if of_nat w < remainder then 1 else 0)) [0..<unat threads])"

lemma unat_ucast_u32 [simp]: "unat (ucast (t :: u32) :: u64) = unat t"
  by (simp add: unsigned_ucast_eq take_bit_nat_eq_self unsigned_less [THEN order_less_trans])

lemma unat_u32_less: "unat (t :: u32) < 4294967296"
proof -
  have "unat t < 2 ^ LENGTH(32)" by (rule unsigned_less)
  then show ?thesis by simp
qed

lemma choose_threads_bounds:
  "0 < unat (choose_threads hw r it)" "unat (choose_threads hw r it) \<le> max 1 (unat it)"
proof -
  define t where "t = (if r = 0 then (if hw = 0 then 4 else if 4 < hw then hw - 2 else hw) else r)"
  have c: "choose_threads hw r it = (let t' = (if it < ucast t then ucast (if it = 0 then 1 else it) else t)
      in if t' = 0 then 1 else t')"
    by (simp add: choose_threads_def t_def Let_def)
  have small: "unat (ucast it :: u32) = unat it" if "it < ucast t"
  proof -
    have "unat it < unat t" using that by (simp add: word_less_nat_alt)
    then show ?thesis using unat_u32_less [of t]
      by (simp add: unsigned_ucast_eq take_bit_nat_eq_self)
  qed
  show "0 < unat (choose_threads hw r it)"
    by (simp add: c Let_def unat_gt_0)
  show "unat (choose_threads hw r it) \<le> max 1 (unat it)"
    using small by (auto simp: c Let_def word_less_nat_alt unat_eq_0 not_less)
qed

lemma sum_shares:
  assumes "0 < n"
  shows "(\<Sum>w \<leftarrow> [0..<n]. m div n + (if w < m mod n then 1 else 0)) = (m :: nat)"
proof -
  have "(\<Sum>w \<leftarrow> [0..<n]. if w < k then 1 else 0) = k" if "k \<le> n" for k :: nat
    using that
  proof (induction n)
    case (Suc n)
    then show ?case
    proof (cases "k = Suc n")
      case True
      have "(\<Sum>w \<leftarrow> [0..<Suc n]. if w < Suc n then 1 else (0 :: nat)) = (\<Sum>w \<leftarrow> [0..<Suc n]. 1)"
        by (rule arg_cong [where f = sum_list], rule map_cong) auto
      then show ?thesis using True by (simp add: sum_list_triv)
    qed simp
  qed simp
  then have "(\<Sum>w \<leftarrow> [0..<n]. if w < m mod n then 1 else 0) = m mod n"
    using assms by (simp add: less_imp_le)
  then show ?thesis by (simp add: sum_list_addf sum_list_triv)
qed

lemma shares_nat:
  assumes "0 < unat t"
  shows "map unat (shares t it) =
    map (\<lambda>w. unat it div unat t + (if w < unat it mod unat t then 1 else 0)) [0..<unat t]"
proof -
  have w: "(of_nat w :: u64) < it mod ucast t \<longleftrightarrow> w < unat it mod unat t" if "w < unat t" for w
    using that unat_u32_less [of t]
    by (simp add: word_less_nat_alt unsigned_of_nat take_bit_nat_eq_self unat_mod_distrib)
  have b: "unat (it div ucast t + (if P then 1 else 0)) = unat it div unat t + (if P then 1 else 0)"
    if "P \<Longrightarrow> 0 < unat it mod unat t" for P
  proof (cases P)
    case True
    have "unat it div unat t * 1 \<le> unat it div unat t * unat t" using assms by (intro mult_le_mono) auto
    also have "\<dots> < unat it div unat t * unat t + unat it mod unat t"
      using that [OF True] by (simp only: less_add_same_cancel1)
    also have "\<dots> = unat it" by (rule div_mult_mod_eq)
    finally have "unat it div unat t < unat it" by simp
    moreover have "unat it < 2 ^ LENGTH(64)" by (rule unsigned_less)
    ultimately show ?thesis using True by (simp add: unat_word_ariths unat_div_distrib)
  qed (simp add: unat_div_distrib)
  show ?thesis
    unfolding shares_def Let_def
    using w b by (auto simp: comp_def)
qed

lemma length_shares: "length (shares t it) = unat t"
  by (simp add: shares_def Let_def)

lemma shares_total: "0 < unat t \<Longrightarrow> sum_list (map unat (shares t it)) = unat it"
  by (simp add: shares_nat sum_shares)

text \<open>
  For every request and host the run uses at least one and at most max 1 iterations threads, the
  shares add up to exactly the requested iterations, and no two shares differ by more than one.
\<close>
theorem shares_exact:
  "case choose_threads hw r it of t \<Rightarrow>
     0 < unat t \<and> unat t \<le> max 1 (unat it) \<and> length (shares t it) = unat t \<and>
     sum_list (map unat (shares t it)) = unat it \<and>
     list_all (\<lambda>s. unat it div unat t \<le> unat s \<and> unat s \<le> unat it div unat t + 1) (shares t it)"
proof -
  define t where "t = choose_threads hw r it"
  have t: "0 < unat t" "unat t \<le> max 1 (unat it)" using choose_threads_bounds by (simp_all add: t_def)
  have "list_all (\<lambda>s. unat it div unat t \<le> s \<and> s \<le> unat it div unat t + 1) (map unat (shares t it))"
    unfolding shares_nat [OF t(1)] by (auto simp: list_all_iff)
  then have "list_all (\<lambda>s. unat it div unat t \<le> unat s \<and> unat s \<le> unat it div unat t + 1) (shares t it)"
    by (simp add: list_all_iff)
  then show ?thesis using t shares_total [OF t(1)] by (simp add: t_def length_shares)
qed

subsection \<open>strtoul and strtoull\<close>

text \<open>\<open>strto bits base\<close>: skip white space, take a sign, a radix prefix where \<open>base\<close> is 0, and the
  longest run of digits; saturate at the largest value, negate modulo \<open>2 ^ bits\<close> after a minus.\<close>

definition digit_value :: "char \<Rightarrow> nat" where
  "digit_value c = (let n = of_char c in
     if 48 \<le> n \<and> n \<le> 57 then n - 48 else if 65 \<le> n \<and> n \<le> 90 then n - 55
     else if 97 \<le> n \<and> n \<le> 122 then n - 87 else 99)"

definition is_space :: "char \<Rightarrow> bool" where
  "is_space c \<longleftrightarrow> (of_char c :: nat) \<in> {9, 10, 11, 12, 13, 32}"

definition split_sign :: "string \<Rightarrow> bool \<times> string" where
  "split_sign s = (case s of [] \<Rightarrow> (False, [])
     | c # r \<Rightarrow> if c = CHR ''-'' then (True, r) else if c = CHR ''+'' then (False, r) else (False, s))"

definition split_radix :: "nat \<Rightarrow> string \<Rightarrow> nat \<times> string" where
  "split_radix base s =
     (if base \<noteq> 0 then (base, s)
      else if (take 2 s = ''0x'' \<or> take 2 s = ''0X'') \<and> drop 2 s \<noteq> [] \<and> digit_value (s ! 2) < 16 then (16, drop 2 s)
      else if take 1 s = ''0'' then (8, s) else (10, s))"

definition strto :: "nat \<Rightarrow> nat \<Rightarrow> string \<Rightarrow> nat" where
  "strto bits base s =
     (let (neg, s2) = split_sign (dropWhile is_space s);
          (b, s3) = split_radix base s2;
          v = of_digits b (map digit_value (takeWhile (\<lambda>c. digit_value c < b) s3))
      in if 2 ^ bits \<le> v then 2 ^ bits - 1 else if neg then (2 ^ bits - v) mod 2 ^ bits else v)"

lemma digit_value_hex_digit: "d < 16 \<Longrightarrow> digit_value (hex_digit d) = d"
proof -
  assume "d < 16"
  then have "d \<in> {0,1,2,3,4,5,6,7,8,9,10,11,12,13,14,15}" by simp arith
  then show ?thesis by (auto simp: digit_value_def hex_digit_def)
qed

lemma digits_of_show:
  assumes "2 \<le> b" "b \<le> 16"
  shows "map digit_value (takeWhile (\<lambda>c. digit_value c < b) (show_nat b n)) = nat_digits b n"
proof -
  have d: "digit_value (hex_digit d) = d" if "d \<in> set (nat_digits b n)" for d
    using nat_digits_bound [OF assms(1) that] assms(2) by (simp add: digit_value_hex_digit)
  have "takeWhile (\<lambda>c. digit_value c < b) (show_nat b n) = show_nat b n"
    using d nat_digits_bound [OF assms(1)] by (auto simp: show_nat_def takeWhile_eq_all_conv)
  moreover have "map digit_value (show_nat b n) = nat_digits b n"
    using d by (auto simp: show_nat_def intro!: map_idI)
  ultimately show ?thesis by (simp only:)
qed

lemma show_nat_first:
  assumes "2 \<le> b" "b \<le> 16"
  obtains c s where "show_nat b n = c # s" "digit_value c < b"
proof -
  obtain d ds where nd: "nat_digits b n = d # ds" by (cases "nat_digits b n") auto
  then have "d < b" using nat_digits_bound [OF assms(1), of d n] by simp
  then have "digit_value (hex_digit d) < b" using assms(2) by (simp add: digit_value_hex_digit)
  then show ?thesis using that nd by (simp add: show_nat_def)
qed

lemma digit_not_special:
  assumes "digit_value c < 16"
  shows "\<not> is_space c" "c \<noteq> CHR ''-''" "c \<noteq> CHR ''+''"
  using assms by (auto simp: digit_value_def is_space_def Let_def split: if_splits)

lemma strto_decimal: "n < 2 ^ bits \<Longrightarrow> strto bits 10 (fmt_u n) = n"
proof -
  assume n: "n < 2 ^ bits"
  obtain c s where cs: "show_nat 10 n = c # s" "digit_value c < 10" by (rule show_nat_first [of 10]) simp_all
  then have "dropWhile is_space (fmt_u n) = fmt_u n" "split_sign (fmt_u n) = (False, fmt_u n)"
    using digit_not_special [of c] by (simp_all add: fmt_u_def split_sign_def)
  then show ?thesis
    using n digits_of_show [of 10 n] by (simp add: strto_def split_radix_def fmt_u_def)
qed

lemma fmt_X_1: "fmt_X 1 v = show_nat 16 (unat v)" "fmt_X (Suc 0) v = show_nat 16 (unat v)"
proof -
  obtain c s where "show_nat 16 (unat v) = c # s" by (rule show_nat_first [of 16]) simp_all
  then show "fmt_X 1 v = show_nat 16 (unat v)" "fmt_X (Suc 0) v = show_nat 16 (unat v)"
    by (simp_all add: fmt_X_def pad_left_def)
qed

lemma strto_hex: "strto 64 0 (''0x'' @ fmt_X 1 (v :: u64)) = unat v"
proof -
  obtain c s where cs: "show_nat 16 (unat v) = c # s" "digit_value c < 16" by (rule show_nat_first [of 16]) simp_all
  have "unat v < 2 ^ LENGTH(64)" by (rule unsigned_less)
  then have v: "unat v < 2 ^ 64" by simp
  have "dropWhile is_space (''0x'' @ fmt_X 1 v) = ''0x'' @ fmt_X 1 v"
    "split_sign (''0x'' @ fmt_X 1 v) = (False, ''0x'' @ fmt_X 1 v)"
    by (simp_all add: is_space_def split_sign_def)
  moreover have "split_radix 0 (''0x'' @ fmt_X 1 v) = (16, fmt_X 1 v)"
    using cs by (simp add: split_radix_def fmt_X_1)
  ultimately show ?thesis
    using v digits_of_show [of 16 "unat v"] by (simp add: strto_def fmt_X_1)
qed

subsection \<open>The command line\<close>

record options =
  o_iterations :: u64
  o_seed :: u64
  o_use_hw :: bool
  o_use_jit :: bool
  o_verbose_from :: u64
  o_threads :: u32
  o_threads_explicit :: bool
  o_watchdog :: u32
  o_sweep :: u32
  o_self_test :: bool
  o_no_unicorn :: bool
  o_no_seven :: bool

definition default_options :: options where
  "default_options = \<lparr>o_iterations = 200000, o_seed = 0xC0FFEE, o_use_hw = True, o_use_jit = False,
     o_verbose_from = 0xFFFFFFFFFFFFFFFF, o_threads = 0, o_threads_explicit = False, o_watchdog = 60,
     o_sweep = 0, o_self_test = False, o_no_unicorn = False, o_no_seven = False\<rparr>"

text \<open>An option that takes the next argument as its value, when there is one.\<close>

definition value_option :: "string \<Rightarrow> string \<Rightarrow> options \<Rightarrow> options option" where
  "value_option a v opts =
     (if a = ''--watchdog-seconds'' then Some (opts\<lparr>o_watchdog := of_nat (strto 32 10 v)\<rparr>)
      else if a = ''--sweep-seeds'' then Some (opts\<lparr>o_sweep := of_nat (strto 32 10 v)\<rparr>)
      else if a = ''--verbose-from'' then Some (opts\<lparr>o_verbose_from := of_nat (strto 64 10 v)\<rparr>)
      else if a = ''--threads'' then Some (opts\<lparr>o_threads := of_nat (strto 32 10 v), o_threads_explicit := True\<rparr>)
      else None)"

text \<open>Any other argument, at position \<open>i\<close> of \<open>argv\<close>.\<close>

definition plain_option :: "nat \<Rightarrow> string \<Rightarrow> options \<Rightarrow> options" where
  "plain_option i a opts =
     (if a = ''--no-hw'' then opts\<lparr>o_use_hw := False\<rparr>
      else if a = ''--jit'' then opts\<lparr>o_use_jit := True\<rparr>
      else if a = ''--self-test-escape'' then opts\<lparr>o_self_test := True\<rparr>
      else if a = ''--no-unicorn'' then opts\<lparr>o_no_unicorn := True\<rparr>
      else if a = ''--no-seven'' then opts\<lparr>o_no_seven := True\<rparr>
      else if i = 1 then opts\<lparr>o_iterations := of_nat (strto 64 10 a)\<rparr>
      else if i = 2 then opts\<lparr>o_seed := of_nat (strto 64 0 a)\<rparr>
      else opts)"

fun parse_args :: "nat \<Rightarrow> string list \<Rightarrow> options \<Rightarrow> options" where
  "parse_args i [] opts = opts"
| "parse_args i [a] opts = plain_option i a opts"
| "parse_args i (a # v # rest) opts =
     (case value_option a v opts of
        Some opts' \<Rightarrow> parse_args (i + 2) rest opts'
      | None \<Rightarrow> parse_args (i + 1) (v # rest) (plain_option i a opts))"

subsection \<open>The sweep\<close>

text \<open>The arguments \<open>run_seed_sweep\<close> writes after the quoted path of the executable, one blank
  before each.\<close>

definition sweep_args :: "u64 \<Rightarrow> u64 \<Rightarrow> bool \<Rightarrow> bool \<Rightarrow> u32 \<Rightarrow> u32 \<Rightarrow> bool \<Rightarrow> string list" where
  "sweep_args iterations child_seed use_hw use_jit watchdog_seconds threads threads_explicit =
     [fmt_u (unat iterations), ''0x'' @ fmt_X 1 child_seed] @
     (if \<not> use_hw then [''--no-hw''] else []) @
     (if use_jit then [''--jit''] else []) @
     [''--watchdog-seconds'', fmt_u (unat watchdog_seconds)] @
     (if threads_explicit then [''--threads'', fmt_u (unat threads)] else [])"

definition sweep_cmdline :: "string \<Rightarrow> string list \<Rightarrow> string" where
  "sweep_cmdline exe_path args = ''\"'' @ exe_path @ ''\"'' @ concat (map (\<lambda>t. '' '' @ t) args)"

definition supervisor_timeout_ms :: "u32 \<Rightarrow> u64 \<Rightarrow> u32" where
  "supervisor_timeout_ms watchdog_seconds iterations_per_seed =
     (watchdog_seconds + 60) * 1000 + ucast (min iterations_per_seed 600000)"

datatype child_end = LaunchFailed | WaitTimeout | Exited u32

record sweep_counts =
  s_clean :: nat
  s_crashed :: nat
  s_watchdog_killed :: nat
  s_supervisor_killed :: nat

definition count_child :: "child_end \<Rightarrow> sweep_counts \<Rightarrow> sweep_counts" where
  "count_child e c = (case e of
     LaunchFailed \<Rightarrow> c
   | WaitTimeout \<Rightarrow> c\<lparr>s_supervisor_killed := s_supervisor_killed c + 1\<rparr>
   | Exited code \<Rightarrow>
       if code = 2 then c\<lparr>s_watchdog_killed := s_watchdog_killed c + 1\<rparr>
       else if code \<noteq> 0 then c\<lparr>s_crashed := s_crashed c + 1\<rparr>
       else c\<lparr>s_clean := s_clean c + 1\<rparr>)"

text \<open>The loop over the seeds: child \<open>i\<close> runs with the seed mixed from the base seed and \<open>i\<close>.\<close>

definition sweep_seeds_of :: "u64 \<Rightarrow> nat \<Rightarrow> u64 list" where
  "sweep_seeds_of base n = map (\<lambda>i. mix_seed base (of_nat i)) [0..<n]"

definition sweep_tally :: "child_end list \<Rightarrow> sweep_counts" where
  "sweep_tally es = fold count_child es \<lparr>s_clean = 0, s_crashed = 0, s_watchdog_killed = 0, s_supervisor_killed = 0\<rparr>"

lemma not_option_decimal:
  "digit_value c < 16 \<Longrightarrow> plain_option i (c # s) opts =
     (if i = 1 then opts\<lparr>o_iterations := of_nat (strto 64 10 (c # s))\<rparr>
      else if i = 2 then opts\<lparr>o_seed := of_nat (strto 64 0 (c # s))\<rparr> else opts)"
  "digit_value c < 16 \<Longrightarrow> value_option (c # s) v opts = None"
  using digit_not_special [of c] by (simp_all add: plain_option_def value_option_def)

lemma parse_tail:
  "parse_args i ([''--watchdog-seconds'', fmt_u (unat wd)] @ (if te then [''--threads'', fmt_u (unat th)] else [])) opts
   = opts\<lparr>o_watchdog := wd, o_threads := (if te then th else o_threads opts),
         o_threads_explicit := te \<or> o_threads_explicit opts\<rparr>"
proof -
  have d: "strto 32 10 (fmt_u (unat (w :: u32))) = unat w" for w
    using unat_u32_less [of w] by (intro strto_decimal) simp
  show ?thesis by (cases te) (simp_all add: value_option_def d)
qed

text \<open>
  A sweep's child reads back exactly the iterations, derived seed, hardware switch, engine,
  watchdog and explicit thread count its parent passed, and every other option at its default: in
  particular the --no-unicorn, --no-seven and --verbose-from of the parent never reach it.
\<close>
theorem sweep_child_options:
  "parse_args 1 (sweep_args it cs hw jit wd th te) default_options =
     default_options\<lparr>o_iterations := it, o_seed := cs, o_use_hw := hw, o_use_jit := jit, o_watchdog := wd,
       o_threads := (if te then th else 0), o_threads_explicit := te\<rparr>"
proof -
  obtain c s where c: "fmt_u (unat it) = c # s" "digit_value c < 10"
    unfolding fmt_u_def by (rule show_nat_first [of 10]) simp_all
  have "unat it < 2 ^ LENGTH(64)" by (rule unsigned_less)
  then have i: "strto 64 10 (c # s) = unat it" using strto_decimal [of "unat it" 64] c(1) by simp
  have z: "digit_value CHR ''0'' < 16" by (simp add: digit_value_def)
  have h: "strto 64 0 (CHR ''0'' # CHR ''x'' # show_nat 16 (unat cs)) = unat cs"
    using strto_hex [of cs] by (simp add: fmt_X_1)
  have two: "parse_args 1 ([fmt_u (unat it), ''0x'' @ fmt_X 1 cs] @ x # xs) opts =
      parse_args (1 + 1 + 1) (x # xs) (opts\<lparr>o_iterations := it, o_seed := cs\<rparr>)" for x xs opts
    using c by (simp add: not_option_decimal z i h fmt_X_1)
  have flag: "parse_args k (''--no-hw'' # x # xs) opts = parse_args (k + 1) (x # xs) (opts\<lparr>o_use_hw := False\<rparr>)"
    "parse_args k (''--jit'' # x # xs) opts = parse_args (k + 1) (x # xs) (opts\<lparr>o_use_jit := True\<rparr>)" for k x xs opts
    by (simp_all add: value_option_def plain_option_def)
  have tail: "parse_args k (''--watchdog-seconds'' # fmt_u (unat wd) #
      (if te then [''--threads'', fmt_u (unat th)] else [])) opts =
      opts\<lparr>o_watchdog := wd, o_threads := (if te then th else o_threads opts),
         o_threads_explicit := te \<or> o_threads_explicit opts\<rparr>" for k opts
    using parse_tail [of k wd te th opts] by simp
  show ?thesis
    unfolding sweep_args_def
    by (cases hw; cases jit) (simp_all only: if_True if_False not_True_eq_False not_False_eq_True append.simps
        two [simplified append.simps] flag tail, simp_all add: default_options_def)
qed

text \<open>
  The supervisor waits longer than the child's own watchdog needs, with no wrap-around of the
  32-bit product, for every watchdog setting up to 4294307 seconds.
\<close>
theorem supervisor_outlasts_watchdog:
  assumes "unat wd \<le> 4294307"
  shows "unat (supervisor_timeout_ms wd it) = (unat wd + 60) * 1000 + min (unat it) 600000 \<and>
         unat wd * 1000 < unat (supervisor_timeout_ms wd it)"
proof -
  have m: "unat (min it 600000) = min (unat it) 600000" by (simp add: min_def word_le_nat_alt)
  then have c: "unat (ucast (min it 600000) :: u32) = min (unat it) 600000"
    by (simp add: unsigned_ucast_eq take_bit_nat_eq_self)
  have "unat ((wd + 60) * 1000) = (unat wd + 60) * 1000"
    using assms by (simp add: unat_word_ariths)
  then have "unat (supervisor_timeout_ms wd it) = (unat wd + 60) * 1000 + min (unat it) 600000"
    using assms c by (simp add: supervisor_timeout_ms_def unat_word_ariths)
  then show ?thesis by simp
qed

theorem supervisor_outlasts_watchdog_witness:
  "unat (60 :: u32) * 1000 < unat (supervisor_timeout_ms 60 200000)"
  using supervisor_outlasts_watchdog [of 60 200000] by simp

text \<open>
  The sweep's summary accounts for every child: each counter is the number of children that ended
  that way (exit code 0, exit code 2, any other exit code, supervisor timeout), and a child that
  could not be launched is in none of them.
\<close>
theorem sweep_tally_counts:
  "sweep_tally es = \<lparr>s_clean = count_list es (Exited 0),
     s_crashed = length (filter (\<lambda>e. case e of Exited c \<Rightarrow> c \<noteq> 0 \<and> c \<noteq> 2 | _ \<Rightarrow> False) es),
     s_watchdog_killed = count_list es (Exited 2), s_supervisor_killed = count_list es WaitTimeout\<rparr>"
proof -
  have "fold count_child es c = \<lparr>s_clean = s_clean c + count_list es (Exited 0),
     s_crashed = s_crashed c + length (filter (\<lambda>e. case e of Exited c \<Rightarrow> c \<noteq> 0 \<and> c \<noteq> 2 | _ \<Rightarrow> False) es),
     s_watchdog_killed = s_watchdog_killed c + count_list es (Exited 2),
     s_supervisor_killed = s_supervisor_killed c + count_list es WaitTimeout\<rparr>" for c
    by (induction es arbitrary: c) (auto simp: count_child_def split: child_end.splits)
  then show ?thesis by (simp add: sweep_tally_def)
qed

subsection \<open>The watchdog\<close>

record heartbeat =
  last_tick_ms :: u64
  hb_local_i :: u64
  hb_finished :: bool

datatype wd_action = WdKill nat | WdReturn | WdSleep

text \<open>One pass over the heartbeats at the sampled time \<open>now\<close>. The subtraction is on \<^verbatim>\<open>uint64_t\<close>.\<close>

fun wd_scan :: "nat \<Rightarrow> u64 \<Rightarrow> u64 \<Rightarrow> bool \<Rightarrow> heartbeat list \<Rightarrow> wd_action" where
  "wd_scan w timeout_ms now all_finished [] = (if all_finished then WdReturn else WdSleep)"
| "wd_scan w timeout_ms now all_finished (hb # hbs) =
     (if hb_finished hb then wd_scan (w + 1) timeout_ms now all_finished hbs
      else if timeout_ms < now - last_tick_ms hb then WdKill w
      else wd_scan (w + 1) timeout_ms now False hbs)"

definition watchdog_poll :: "u32 \<Rightarrow> u64 \<Rightarrow> heartbeat list \<Rightarrow> wd_action" where
  "watchdog_poll watchdog_seconds now hbs =
     (if watchdog_seconds = 0 then WdReturn
      else wd_scan 0 (ucast watchdog_seconds * 1000) now True hbs)"

definition overdue :: "u32 \<Rightarrow> u64 \<Rightarrow> heartbeat \<Rightarrow> bool" where
  "overdue ws now hb \<longleftrightarrow> \<not> hb_finished hb \<and> unat ws * 1000 < unat now - unat (last_tick_ms hb)"

lemma timeout_value: "unat (ucast (ws :: u32) * 1000 :: u64) = unat ws * 1000"
  using unat_u32_less [of ws] by (simp add: unat_word_ariths)

lemma wd_scan_spec:
  assumes "list_all (\<lambda>hb. last_tick_ms hb \<le> now) hbs"
  shows "wd_scan w (ucast ws * 1000) now af hbs =
     (case find_index True (map (overdue ws now) hbs) of Some k \<Rightarrow> WdKill (w + k)
      | None \<Rightarrow> if af \<and> list_all hb_finished hbs then WdReturn else WdSleep)"
  using assms
proof (induction hbs arbitrary: w af)
  case (Cons hb hbs)
  have "last_tick_ms hb \<le> now" using Cons.prems by simp
  then have "unat (now - last_tick_ms hb) = unat now - unat (last_tick_ms hb)" by (rule unat_sub)
  then have "(ucast ws * 1000 < now - last_tick_ms hb) = (unat ws * 1000 < unat now - unat (last_tick_ms hb))"
    by (simp add: word_less_nat_alt timeout_value)
  then show ?case
    using Cons.IH Cons.prems by (auto simp: overdue_def split: option.splits)
qed simp

text \<open>
  C33: While no heartbeat is newer than the sampled time, a poll kills exactly when some unfinished
  worker has been silent for longer than the timeout (the first such worker), ends exactly when all
  workers have finished, and otherwise goes back to sleep.
\<close>
theorem watchdog_poll_exact:
  assumes "ws \<noteq> 0" "list_all (\<lambda>hb. last_tick_ms hb \<le> now) hbs"
  shows "watchdog_poll ws now hbs =
     (case find_index True (map (overdue ws now) hbs) of Some k \<Rightarrow> WdKill k
      | None \<Rightarrow> if list_all hb_finished hbs then WdReturn else WdSleep)"
  using wd_scan_spec [OF assms(2), of 0 ws True] assms(1) by (simp add: watchdog_poll_def split: option.splits)

theorem watchdog_poll_exact_witness:
  "watchdog_poll 60 100000 [\<lparr>last_tick_ms = 99999, hb_local_i = 7, hb_finished = False\<rparr>,
     \<lparr>last_tick_ms = 39999, hb_local_i = 3, hb_finished = False\<rparr>] = WdKill 1"
  by (subst watchdog_poll_exact) (simp_all add: overdue_def)

text \<open>
  C34: A worker that ticks after the watchdog has sampled the time is killed as hung: for every nonzero
  timeout, a heartbeat up to a minute newer than the sample makes the unsigned difference wrap
  around and the poll kill the process, although the worker is making progress.
\<close>
theorem watchdog_kills_fresh_worker:
  assumes "ws \<noteq> 0" "now < tick" "unat tick - unat now \<le> 60000"
  shows "watchdog_poll ws now [\<lparr>last_tick_ms = tick, hb_local_i = i, hb_finished = False\<rparr>] = WdKill 0"
proof -
  have l: "unat tick < 2 ^ LENGTH(64)" by (rule unsigned_less)
  have lt: "unat now < unat tick" using assms(2) by (simp add: word_less_nat_alt)
  have "unat (now - tick) = 2 ^ 64 + unat now - unat tick"
    using lt l by (simp add: unat_sub_if_size word_size)
  then have "unat ws * 1000 < unat (now - tick)"
    using assms(3) lt l unat_u32_less [of ws] by simp
  then show ?thesis
    using assms(1) by (simp add: watchdog_poll_def word_less_nat_alt timeout_value)
qed

theorem watchdog_kills_fresh_worker_witness:
  "watchdog_poll 60 1000000 [\<lparr>last_tick_ms = 1000016, hb_local_i = 5, hb_finished = False\<rparr>] = WdKill 0"
  by (rule watchdog_kills_fresh_worker) simp_all

end
