(* ===== verification/Rounds.thy ===== *)
theory Rounds
  imports Driver
begin

section \<open>Rounds and workers\<close>

text \<open>
  \<^verbatim>\<open>run_worker\<close> of \<^verbatim>\<open>src/main.cpp\<close>. First one round of one worker, from the lanes' outcomes to the
  report: \<open>judge\<close> compares the three pairs, \<open>triage\<close> decides between finding and Unicorn outlier. Then
  all workers together, on the shared counters: a worker that reports takes a file index with an
  atomic \<^verbatim>\<open>fetch_add\<close> and writes the file under the mutex later, other workers in between
  (\<open>wstep\<close>, one step per atomic action).
\<close>

subsection \<open>One round\<close>

record verdicts =
  v_hw_ok :: bool
  v_su :: "divergence list"
  v_sh :: "divergence list"
  v_uh :: "divergence list"

text \<open>What a skipped lane leaves behind: a default-constructed outcome.\<close>

definition lane_result :: "bool \<Rightarrow> lane_outcome \<Rightarrow> lane_outcome" where
  "lane_result skipped outcome = (if skipped then outcome_default else outcome)"

definition judge :: "string \<Rightarrow> test_case \<Rightarrow> lane_outcome \<Rightarrow> lane_outcome \<Rightarrow> lane_outcome option \<Rightarrow> verdicts" where
  "judge seven_label tc seven_out unicorn_out hw =
     (let fm = tc_flags_mask tc; gm = tc_gpr_compare_mask tc;
          su = diff_pair (seven_label @ ''-vs-unicorn'') seven_out unicorn_out fm gm []
      in case hw of
        None \<Rightarrow> \<lparr>v_hw_ok = False, v_su = su, v_sh = [], v_uh = []\<rparr>
      | Some hw_out \<Rightarrow>
          if setup_ok hw_out then
            \<lparr>v_hw_ok = True, v_su = su,
             v_sh = diff_pair (seven_label @ ''-vs-hw'') seven_out hw_out fm gm [],
             v_uh = diff_pair ''unicorn-vs-hw'' unicorn_out hw_out fm gm []\<rparr>
          else \<lparr>v_hw_ok = False, v_su = su, v_sh = [], v_uh = []\<rparr>)"

datatype triage_result = NoReport | Outlier "divergence list" | Finding "divergence list"

definition triage :: "verdicts \<Rightarrow> triage_result" where
  "triage v =
     (if v_hw_ok v \<and> v_sh v = [] \<and> (v_su v \<noteq> [] \<or> v_uh v \<noteq> []) then Outlier (v_su v @ v_uh v)
      else let divergences = v_su v @ v_sh v @ v_uh v
           in if divergences \<noteq> [] then Finding divergences else NoReport)"

text \<open>The intended meaning of a report, from the agreement of the lanes alone.\<close>

datatype report_kind = KNone | KOutlier | KFinding

definition kind_of :: "triage_result \<Rightarrow> report_kind" where
  "kind_of t = (case t of NoReport \<Rightarrow> KNone | Outlier ds \<Rightarrow> KOutlier | Finding ds \<Rightarrow> KFinding)"

definition disagree :: "test_case \<Rightarrow> lane_outcome \<Rightarrow> lane_outcome \<Rightarrow> bool" where
  "disagree tc a b \<longleftrightarrow> setup_ok a \<and> setup_ok b \<and> \<not> lane_agree a b (tc_flags_mask tc) (tc_gpr_compare_mask tc)"

definition expected_kind :: "test_case \<Rightarrow> lane_outcome \<Rightarrow> lane_outcome \<Rightarrow> lane_outcome option \<Rightarrow> report_kind" where
  "expected_kind tc s u hw = (case hw of
     None \<Rightarrow> if disagree tc s u then KFinding else KNone
   | Some h \<Rightarrow>
       if \<not> setup_ok h then (if disagree tc s u then KFinding else KNone)
       else if disagree tc s h then KFinding
       else if disagree tc s u \<or> disagree tc u h then KOutlier else KNone)"

lemma diff_pair_disagree:
  "(diff_pair l a b (tc_flags_mask tc) (tc_gpr_compare_mask tc) [] \<noteq> []) = disagree tc a b"
  by (auto simp: diff_pair_Nil disagree_def)

lemma diff_pair_disagree_Nil:
  "(diff_pair l a b (tc_flags_mask tc) (tc_gpr_compare_mask tc) [] = []) = (\<not> disagree tc a b)"
  by (auto simp: diff_pair_Nil disagree_def)

lemma triage_kind: "kind_of (triage (judge l tc s u hw)) = expected_kind tc s u hw"
  by (auto simp: judge_def triage_def expected_kind_def kind_of_def Let_def diff_pair_disagree_Nil
      split: option.splits)

text \<open>
  C11: The triage of a round follows the oracle hierarchy: with usable hardware a finding is reported
  exactly when the engine under test disagrees with the hardware, a Unicorn outlier exactly when it
  agrees with the hardware but Unicorn disagrees with one of the two, and nothing otherwise; without
  hardware a finding exactly when the two engines disagree. No disagreement goes unreported.
\<close>
theorem triage_exact: "kind_of (triage (judge l tc s u hw)) = expected_kind tc s u hw"
  by (rule triage_kind)

text \<open>
  C39: Skipping Unicorn still compares against it: the default outcome stands for a retired instruction
  at RIP 0, so with --no-unicorn every round in which the engine under test retires at a nonzero RIP
  is reported. Without the hardware lane, or when its round failed, it is a finding, whatever the engine computed; with it
  it is a finding if the engine disagrees with the hardware, and otherwise a Unicorn outlier.
\<close>
theorem skipped_lane_is_compared:
  assumes "setup_ok s" "stop s = Stop_ok" "rip (after s) \<noteq> 0"
  shows "kind_of (triage (judge l tc s (lane_result True u) hw)) = (case hw of
     None \<Rightarrow> KFinding
   | Some h \<Rightarrow> if \<not> setup_ok h \<or> disagree tc s h then KFinding else KOutlier)"
proof -
  have "disagree tc s outcome_default"
    using assms by (simp add: disagree_def lane_agree_def state_agree_def outcome_default_def reg_default_def)
  then show ?thesis
    by (simp add: triage_kind expected_kind_def lane_result_def split: option.split)
qed

theorem skipped_lane_is_compared_witness:
  "kind_of (triage (judge ''seven'' tc_default (outcome_default\<lparr>after := reg_default\<lparr>rip := kCodeBase + 3\<rparr>\<rparr>)
     (lane_result True outcome_default) None)) = KFinding"
  using skipped_lane_is_compared [of "outcome_default\<lparr>after := reg_default\<lparr>rip := kCodeBase + 3\<rparr>\<rparr>" _ _ _ None]
  by (simp add: outcome_default_def kCodeBase_def)

subsection \<open>All workers\<close>

definition kMaxDumpFilesPerDir :: nat where "kMaxDumpFilesPerDir = 250"

datatype dump_dir = Findings | Outliers

datatype worker_pc = Running | Holding dump_dir nat | Dead | DeadHolding dump_dir nat

record shared =
  pcs :: "nat \<Rightarrow> worker_pc"
  counts :: "dump_dir \<Rightarrow> nat"
  files :: "dump_dir \<Rightarrow> nat list"

definition shared_init :: shared where
  "shared_init = \<lparr>pcs = (\<lambda>_. Running), counts = (\<lambda>_. 0), files = (\<lambda>_. [])\<rparr>"

text \<open>One atomic action of worker \<open>w\<close>: take an index, write its file, pass over the write when the
  directory is full, or die of an exception (caught at the end of the loop, which the worker leaves).\<close>

inductive wstep :: "shared \<Rightarrow> shared \<Rightarrow> bool" where
  take_index: "pcs s w = Running \<Longrightarrow>
    wstep s (s\<lparr>pcs := (pcs s)(w := Holding d (counts s d)), counts := (counts s)(d := counts s d + 1)\<rparr>)"
| write_file: "pcs s w = Holding d i \<Longrightarrow> i < kMaxDumpFilesPerDir \<Longrightarrow>
    wstep s (s\<lparr>pcs := (pcs s)(w := Running), files := (files s)(d := i # files s d)\<rparr>)"
| pass_over: "pcs s w = Holding d i \<Longrightarrow> \<not> i < kMaxDumpFilesPerDir \<Longrightarrow> wstep s (s\<lparr>pcs := (pcs s)(w := Running)\<rparr>)"
| die_running: "pcs s w = Running \<Longrightarrow> wstep s (s\<lparr>pcs := (pcs s)(w := Dead)\<rparr>)"
| die_holding: "pcs s w = Holding d i \<Longrightarrow> wstep s (s\<lparr>pcs := (pcs s)(w := DeadHolding d i)\<rparr>)"

inductive wreach :: "shared \<Rightarrow> bool" where
  wreach_init: "wreach shared_init"
| wreach_step: "wreach s \<Longrightarrow> wstep s t \<Longrightarrow> wreach t"

inductive_cases wstepE: "wstep s t"

definition holds :: "shared \<Rightarrow> nat \<Rightarrow> dump_dir \<Rightarrow> nat \<Rightarrow> bool" where
  "holds s w d i \<longleftrightarrow> pcs s w = Holding d i \<or> pcs s w = DeadHolding d i"

definition winv :: "shared \<Rightarrow> dump_dir \<Rightarrow> bool" where
  "winv s d \<longleftrightarrow> distinct (files s d) \<and>
     (\<forall>i \<in> set (files s d). i < counts s d \<and> i < kMaxDumpFilesPerDir) \<and>
     (\<forall>w i. holds s w d i \<longrightarrow> i < counts s d \<and> i \<notin> set (files s d)) \<and>
     (\<forall>w w' i. holds s w d i \<and> holds s w' d i \<longrightarrow> w = w') \<and>
     (\<forall>i < counts s d. i < kMaxDumpFilesPerDir \<longrightarrow> i \<in> set (files s d) \<or> (\<exists>w. holds s w d i))"

lemma winv_init: "winv shared_init d"
  by (simp add: winv_def shared_init_def holds_def)

lemma holds_upd: "holds (s\<lparr>pcs := (pcs s)(w := p)\<rparr>) v d i =
    (if v = w then p = Holding d i \<or> p = DeadHolding d i else holds s v d i)"
  by (simp add: holds_def)

lemma holds_frame [simp]:
  "holds (s\<lparr>counts := c\<rparr>) v d i = holds s v d i" "holds (s\<lparr>files := f\<rparr>) v d i = holds s v d i"
  by (simp_all add: holds_def)

lemma winvD:
  assumes "winv s e"
  shows "distinct (files s e)" "\<And>j. j \<in> set (files s e) \<Longrightarrow> j < counts s e \<and> j < kMaxDumpFilesPerDir"
    "\<And>v j. holds s v e j \<Longrightarrow> j < counts s e \<and> j \<notin> set (files s e)"
    "\<And>v v' j. holds s v e j \<Longrightarrow> holds s v' e j \<Longrightarrow> v = v'"
    "\<And>j. j < counts s e \<Longrightarrow> j < kMaxDumpFilesPerDir \<Longrightarrow> j \<in> set (files s e) \<or> (\<exists>v. holds s v e j)"
  using assms unfolding winv_def by blast+

lemma winv_step:
  assumes "winv s e" "wstep s t"
  shows "winv t e"
  using assms(2)
proof cases
  case (take_index w d)
  have n: "\<not> holds s w d' i" for d' i using take_index(2) by (simp add: holds_def)
  have h: "holds t v e i = (if v = w then e = d \<and> i = counts s d else holds s v e i)" for v i
    by (auto simp: take_index(1) holds_def)
  have c: "counts t e = (if e = d then counts s e + 1 else counts s e)" "files t e = files s e"
    by (simp_all add: take_index(1))
  note I = winvD [OF assms(1)]
  show ?thesis
    unfolding winv_def c(2)
  proof (intro conjI allI impI ballI)
    show "distinct (files s e)" by (rule I)
    show "i < counts t e" "i < kMaxDumpFilesPerDir" if "i \<in> set (files s e)" for i
      using I(2) [OF that] by (auto simp: c)
    show "i < counts t e" "i \<notin> set (files s e)" if "holds t v e i" for v i
      using that I(2) I(3) [of v i] by (auto simp: h c split: if_splits)
    show "v = v'" if "holds t v e i \<and> holds t v' e i" for v v' i
      using that I(3) [of v i] I(3) [of v' i] I(4) [of v i v'] by (auto simp: h split: if_splits)
    show "i \<in> set (files s e) \<or> (\<exists>v. holds t v e i)" if i: "i < counts t e" "i < kMaxDumpFilesPerDir" for i
    proof (cases "i < counts s e")
      case True
      from I(5) [OF this i(2)] show ?thesis
      proof
        assume "\<exists>v. holds s v e i"
        then obtain v where v: "holds s v e i" ..
        then have "v \<noteq> w" using n by auto
        then have "holds t v e i" using v h by simp
        then show ?thesis by blast
      qed simp
    next
      case False
      then have "e = d" "i = counts s d" using i(1) by (auto simp: c split: if_splits)
      then show ?thesis using h by auto
    qed
  qed
next
  case (write_file w d i)
  have h: "holds t v e j = (v \<noteq> w \<and> holds s v e j)" for v j
    by (auto simp: write_file(1) holds_def)
  have c: "counts t e = counts s e" "files t e = (if e = d then i # files s e else files s e)"
    by (simp_all add: write_file(1))
  have w: "holds s w d i" using write_file(2) by (simp add: holds_def)
  have only: "holds s w e j \<Longrightarrow> e = d \<and> j = i" for j using write_file(2) by (simp add: holds_def)
  note I = winvD [OF assms(1)]
  show ?thesis
    unfolding winv_def c(1)
  proof (intro conjI allI impI ballI)
    show "distinct (files t e)" using I(1,3) w by (auto simp: c(2))
    show "j < counts s e" "j < kMaxDumpFilesPerDir" if "j \<in> set (files t e)" for j
      using that I(2) I(3) [of w] w write_file(3) by (auto simp: c(2) split: if_splits)
    show "j < counts s e" "j \<notin> set (files t e)" if "holds t v e j" for v j
      using that I(3) I(4) [of v j w] w by (auto simp: h c(2))
    show "v = v'" if "holds t v e j \<and> holds t v' e j" for v v' j using that I(4) by (auto simp: h)
    show "j \<in> set (files t e) \<or> (\<exists>v. holds t v e j)" if jj: "j < counts s e" "j < kMaxDumpFilesPerDir" for j
    proof -
      consider "j \<in> set (files s e)" | v where "holds s v e j" using I(5) [OF jj] by blast
      then show ?thesis
      proof cases
        case (2 v)
        then show ?thesis using only by (cases "v = w") (auto simp: h c(2))
      qed (auto simp: c(2))
    qed
  qed
next
  case (pass_over w d i)
  have h: "holds t v e j = (v \<noteq> w \<and> holds s v e j)" for v j
    by (auto simp: pass_over(1) holds_def)
  have only: "holds s w e j \<Longrightarrow> j = i" for j using pass_over(2) by (simp add: holds_def)
  show ?thesis
    using assms(1) only pass_over(3) unfolding winv_def h by (simp add: pass_over(1)) metis
next
  case (die_running w)
  have h: "holds t v e j = holds s v e j" for v j
    using die_running(2) by (auto simp: die_running(1) holds_def)
  show ?thesis using assms(1) unfolding winv_def h by (simp add: die_running(1))
next
  case (die_holding w d i)
  have h: "holds t v e j = holds s v e j" for v j
    using die_holding(2) by (auto simp: die_holding(1) holds_def)
  show ?thesis using assms(1) unfolding winv_def h by (simp add: die_holding(1))
qed

lemma wreach_winv: "wreach s \<Longrightarrow> winv s d"
  by (induction rule: wreach.induct) (auto intro: winv_init winv_step)

text \<open>
  Whatever the interleaving of the workers, and whichever of them die, no dump file is written
  twice (no finding overwrites another), each directory holds at most 250 files, and every one of
  the first 250 reports is on disk unless the worker holding its index has not written it yet or died.
\<close>
theorem dump_files_unique_and_bounded:
  assumes "wreach s"
  shows "distinct (files s d) \<and> length (files s d) \<le> kMaxDumpFilesPerDir \<and>
    (\<forall>i < min (counts s d) kMaxDumpFilesPerDir. i \<in> set (files s d) \<or> (\<exists>w. holds s w d i))"
proof -
  have i: "winv s d" using assms by (rule wreach_winv)
  then have d: "distinct (files s d)" "set (files s d) \<subseteq> {..<kMaxDumpFilesPerDir}"
    by (auto simp: winv_def)
  have "length (files s d) = card (set (files s d))" using d(1) by (simp add: distinct_card)
  also have "\<dots> \<le> card {..<kMaxDumpFilesPerDir}" by (rule card_mono [OF _ d(2)]) simp
  finally show ?thesis using i by (auto simp: winv_def)
qed

definition demo_shared :: shared where
  "demo_shared = shared_init\<lparr>pcs := (\<lambda>_. Running)(1 := Holding Findings 0, 2 := Running),
     counts := (\<lambda>_. 0)(Findings := 2), files := (\<lambda>_. [])(Findings := [1])\<rparr>"

theorem dump_files_unique_and_bounded_witness:
  "distinct (files demo_shared Findings) \<and> length (files demo_shared Findings) \<le> kMaxDumpFilesPerDir"
proof -
  let ?s1 = "shared_init\<lparr>pcs := (\<lambda>_. Running)(1 := Holding Findings 0), counts := (\<lambda>_. 0)(Findings := 1)\<rparr>"
  let ?s2 = "?s1\<lparr>pcs := (pcs ?s1)(2 := Holding Findings 1), counts := (counts ?s1)(Findings := 2)\<rparr>"
  have "wstep shared_init ?s1"
    using take_index [of shared_init 1 Findings] by (simp add: shared_init_def)
  then have 1: "wreach ?s1" by (rule wreach_step [OF wreach_init])
  have "wstep ?s1 ?s2" using take_index [of ?s1 2 Findings] by (simp add: numeral_2_eq_2)
  then have 2: "wreach ?s2" by (rule wreach_step [OF 1])
  have "wstep ?s2 demo_shared"
    using write_file [of ?s2 2 Findings 1] by (simp add: demo_shared_def shared_init_def kMaxDumpFilesPerDir_def)
  then have "wreach demo_shared" by (rule wreach_step [OF 2])
  from dump_files_unique_and_bounded [OF this, of Findings] show ?thesis by simp
qed

end
