(* ===== verification/Report.thy ===== *)
theory Report
  imports Compare
begin

section \<open>The report writer\<close>

text \<open>
  \<^verbatim>\<open>src/report/report.cpp\<close>: the text of a finding and the name of its file. The directory, the file
  and the stream are the operating system's: \<open>write_finding\<close> returns the path and the contents. The
  lemmas show that nothing is cut by a buffer on the lines that carry the test case, and that the
  test case can be read back from the text.
\<close>

abbreviation buf256 :: "string \<Rightarrow> string" where "buf256 \<equiv> snprintf 256"
abbreviation buf192 :: "string \<Rightarrow> string" where "buf192 \<equiv> snprintf 192"

definition kTagName :: "string list" where
  "kTagName = [''valid'', ''zero'', ''spec'', ''empty'']"

definition append_x87 :: "string \<Rightarrow> x87_state \<Rightarrow> string" where
  "append_x87 indent x =
     buf192 (indent @ ''x87 cw='' @ fmt_X 4 (control_word x) @ '' sw='' @ fmt_X 4 (status_word x) @
       '' (top='' @ fmt_u (unat (x87_top_of x)) @ '') tw='' @ fmt_X 4 (tag_word x) @ newline) @
     concat (map (\<lambda>i. buf192 (indent @ ''  st'' @ fmt_u i @ ''='' @ fmt_X 4 (signexp x ! i) @ '':'' @
       fmt_X 16 (signif x ! i) @ '' '' @ kTagName ! unat (x87_tag_of_st x (int i)) @ newline)) [0..<8])"

text \<open>The two loops that \<^verbatim>\<open>append_outcome\<close> and \<^verbatim>\<open>write_finding\<close> both have.\<close>

definition gpr_text :: "reg_state \<Rightarrow> string" where
  "gpr_text r = concat (map (\<lambda>i. buf256 (kNames ! i @ ''='' @ fmt_X 16 (gpr r ! i) @ '' '') @
     (if i = 7 then newline @ ''  '' else [])) [0..<16]) @ newline"

definition xmm_text :: "reg_state \<Rightarrow> string" where
  "xmm_text r = concat (map (\<lambda>i. buf256 (''  xmm'' @ pad_right CHR '' '' 2 (fmt_u i) @ ''='' @
     fmt_X 16 (xmm_hi r ! i) @ fmt_X 16 (xmm_lo r ! i) @ newline)) [0..<16])"

definition append_outcome :: "string \<Rightarrow> lane_outcome \<Rightarrow> string" where
  "append_outcome label out =
     ''['' @ label @ '']'' @ newline @
     (if \<not> setup_ok out then ''  harness error: '' @ setup_error out @ newline
      else buf256 (''  stop='' @ stop_name (stop out) @ (if detail out = [] then [] else '' detail='') @ detail out @ newline) @
        ''  '' @ gpr_text (after out) @
        buf256 (''  rip='' @ fmt_X 16 (rip (after out)) @ '' rflags='' @ fmt_X 16 (rflags (after out)) @
          '' (compare-masked='' @ fmt_X 3 (rflags (after out) AND kCompareFlagsMask) @ '')'' @ newline) @
        xmm_text (after out) @
        (if captures_x87 out then append_x87 ''  '' (x87 (after out))
         else ''  x87 (not captured by this lane)'' @ newline))"

definition seed_text :: "u8 list \<Rightarrow> string" where
  "seed_text seed = concat (map (\<lambda>k.
     buf256 (''    '' @ fmt_X 3 (of_nat (32 * k) :: u64) @ '':'') @
     concat (map (\<lambda>b. buf256 ('' '' @ fmt_X 2 b)) (take 32 (drop (32 * k) seed))) @ newline)
     [0..<(length seed + 31) div 32])"

definition case_text :: "test_case \<Rightarrow> string" where
  "case_text tc =
     ''bytes: '' @ tc_text tc @ newline @
     ''touches_memory: '' @ (if tc_touches_memory tc then ''yes'' else ''no'') @ newline @
     ''initial:'' @ newline @ ''  '' @ gpr_text (tc_initial tc) @
     buf256 (''  rflags='' @ fmt_X 16 (rflags (tc_initial tc)) @ newline) @
     xmm_text (tc_initial tc) @
     append_x87 ''  '' (x87 (tc_initial tc)) @
     (if tc_touches_memory tc then ''  data_seed:'' @ newline @ seed_text (tc_data_seed tc) else []) @
     newline"

definition finding_path :: "string \<Rightarrow> int \<Rightarrow> string" where
  "finding_path findings_dir index = findings_dir @ snprintf 64 (''/finding_'' @ fmt_0i 6 index @ ''.txt'')"

definition write_finding ::
  "string \<Rightarrow> int \<Rightarrow> test_case \<Rightarrow> string \<Rightarrow> lane_outcome \<Rightarrow> lane_outcome \<Rightarrow> lane_outcome \<Rightarrow> bool \<Rightarrow> divergence list \<Rightarrow> string \<times> string"
where
  "write_finding findings_dir index tc seven_label s u h hw_available divergences =
     (finding_path findings_dir index,
      case_text tc @
      append_outcome seven_label s @ append_outcome ''unicorn'' u @
      (if hw_available then append_outcome ''hardware'' h
       else ''[hardware]'' @ newline @ ''  (not compared this round '' @ [CHR 0xE2, CHR 0x80, CHR 0x94] @
         '' harness unavailable)'' @ newline) @
      newline @ ''divergences:'' @ newline @
      concat (map (\<lambda>d. ''  '' @ pairing d @ '':'' @ newline @
        concat (map (\<lambda>l. ''    '' @ l @ newline) (lines d))) divergences))"

subsection \<open>Nothing is cut\<close>

lemma len64 [simp]: "length (fmt_X 16 (v :: u64)) = 16"
  by (rule length_fmt_X_exact) simp_all

lemma len16 [simp]: "length (fmt_X 4 (v :: u16)) = 4"
  by (rule length_fmt_X_exact) simp_all

lemma len8 [simp]: "length (fmt_X 2 (v :: u8)) = 2"
  by (rule length_fmt_X_exact) simp_all

lemma len_row: "k < 8 \<Longrightarrow> length (fmt_X 3 (of_nat (32 * k) :: u64)) = 3"
proof -
  assume "k < 8"
  then have "k \<in> {0, 1, 2, 3, 4, 5, 6, 7}" by auto
  then show ?thesis by (auto simp: fmt_X_def pad_left_def show_nat_def nat_digits.simps)
qed

lemma len_kNames: "i < 16 \<Longrightarrow> length (kNames ! i) \<le> 3"
proof -
  assume "i < 16"
  then have "kNames ! i \<in> set kNames" by (intro nth_mem) (simp add: kNames_def)
  then show ?thesis by (auto simp: kNames_def)
qed

lemma len_u1: "n < 10 \<Longrightarrow> length (fmt_u n) \<le> 1"
  by (rule length_fmt_u) simp_all

lemma len_u2: "n < 100 \<Longrightarrow> length (fmt_u n) \<le> 2"
  by (rule length_fmt_u) simp_all

lemma tag_name_len: "length (kTagName ! unat (x87_tag_of_st x (int i))) \<le> 5"
proof -
  have "tag_field (tag_word x) (st_phys x i) \<le> 3" by simp
  then have "unat (x87_tag_of_st x (int i)) < length kTagName"
    by (simp add: x87_tag_of_st_eq kTagName_def word_le_nat_alt)
  then have "kTagName ! unat (x87_tag_of_st x (int i)) \<in> set kTagName" by (rule nth_mem)
  then show ?thesis by (auto simp: kTagName_def)
qed

text \<open>The lines that describe a test case.\<close>

definition gpr_cells :: "reg_state \<Rightarrow> nat list \<Rightarrow> string" where
  "gpr_cells r is = concat (map (\<lambda>i. kNames ! i @ ''='' @ fmt_X 16 (gpr r ! i) @ '' '') is)"

definition xmm_line :: "reg_state \<Rightarrow> nat \<Rightarrow> string" where
  "xmm_line r i = ''  xmm'' @ pad_right CHR '' '' 2 (fmt_u i) @ ''='' @ fmt_X 16 (xmm_hi r ! i) @ fmt_X 16 (xmm_lo r ! i)"

definition x87_line :: "x87_state \<Rightarrow> string" where
  "x87_line x = ''  x87 cw='' @ fmt_X 4 (control_word x) @ '' sw='' @ fmt_X 4 (status_word x) @
     '' (top='' @ fmt_u (unat (x87_top_of x)) @ '') tw='' @ fmt_X 4 (tag_word x)"

definition st_line :: "x87_state \<Rightarrow> nat \<Rightarrow> string" where
  "st_line x i = ''    st'' @ fmt_u i @ ''='' @ fmt_X 4 (signexp x ! i) @ '':'' @ fmt_X 16 (signif x ! i) @ '' '' @
     kTagName ! unat (x87_tag_of_st x (int i))"

definition seed_line :: "u8 list \<Rightarrow> nat \<Rightarrow> string" where
  "seed_line seed k = ''    '' @ fmt_X 3 (of_nat (32 * k) :: u64) @ '':'' @
     concat (map (\<lambda>b. '' '' @ fmt_X 2 b) (take 32 (drop (32 * k) seed)))"

definition case_lines :: "test_case \<Rightarrow> string list" where
  "case_lines tc = (let r = tc_initial tc in
     [''bytes: '' @ tc_text tc, ''touches_memory: '' @ (if tc_touches_memory tc then ''yes'' else ''no''), ''initial:'',
      ''  '' @ gpr_cells r [0..<8], ''  '' @ gpr_cells r [8..<16], ''  rflags='' @ fmt_X 16 (rflags r)] @
     map (xmm_line r) [0..<16] @ [x87_line (x87 r)] @ map (st_line (x87 r)) [0..<8] @
     (if tc_touches_memory tc then ''  data_seed:'' # map (seed_line (tc_data_seed tc)) [0..<8] else []))"

definition unlines :: "string list \<Rightarrow> string" where
  "unlines ls = concat (map (\<lambda>l. l @ newline) ls)"

lemma unlines_append [simp]: "unlines (xs @ ys) = unlines xs @ unlines ys"
  by (simp add: unlines_def)

lemma unlines_Cons [simp]: "unlines (x # xs) = x @ newline @ unlines xs"
  by (simp add: unlines_def)

lemma unlines_Nil [simp]: "unlines [] = []"
  by (simp add: unlines_def)

lemma concat_map_lines: "(\<And>i. i < n \<Longrightarrow> f i = g i @ newline) \<Longrightarrow> concat (map f [0..<n]) = unlines (map g [0..<n])"
  unfolding unlines_def map_map comp_def by (intro arg_cong [where f = concat] map_cong refl) simp

lemma gpr_text_lines: "''  '' @ gpr_text r = unlines [''  '' @ gpr_cells r [0..<8], ''  '' @ gpr_cells r [8..<16]]"
proof -
  have c: "buf256 (kNames ! i @ ''='' @ fmt_X 16 (gpr r ! i) @ '' '') = kNames ! i @ ''='' @ fmt_X 16 (gpr r ! i) @ '' ''"
    if "i < 16" for i
    by (rule snprintf_id) (use len_kNames [OF that] in simp)
  have e: "[0..<8] = [0..<7] @ [7]" by (simp add: upt_conv_Cons eval_nat_numeral)
  have u: "[0..<16] = [0..<8] @ [8..<16]" using upt_add_eq_append [of 0 8 8] by simp
  have m1: "map (\<lambda>i. buf256 (kNames ! i @ ''='' @ fmt_X 16 (gpr r ! i) @ '' '') @ (if i = 7 then newline @ ''  '' else [])) [0..<7] =
      map (\<lambda>i. kNames ! i @ ''='' @ fmt_X 16 (gpr r ! i) @ '' '') [0..<7]"
    by (rule map_cong) (use c in simp_all)
  have m2: "map (\<lambda>i. buf256 (kNames ! i @ ''='' @ fmt_X 16 (gpr r ! i) @ '' '') @ (if i = 7 then newline @ ''  '' else [])) [8..<16] =
      map (\<lambda>i. kNames ! i @ ''='' @ fmt_X 16 (gpr r ! i) @ '' '') [8..<16]"
    by (rule map_cong) (use c in \<open>auto simp del: upt_rec_numeral\<close>)
  have c7: "buf256 (kNames ! 7 @ ''='' @ fmt_X 16 (gpr r ! 7) @ '' '') = kNames ! 7 @ ''='' @ fmt_X 16 (gpr r ! 7) @ '' ''"
    by (rule c) simp
  show ?thesis
    by (simp only: gpr_text_def gpr_cells_def u e map_append concat_append m1 m2 c7 list.map concat.simps unlines_Cons
        unlines_Nil append.assoc append_Nil append_Nil2 if_True refl)
qed

lemma xmm_text_lines: "xmm_text r = unlines (map (xmm_line r) [0..<16])"
proof -
  have "length (fmt_u i) \<le> 2" if "i < 16" for i using that by (intro len_u2) simp
  then have "buf256 (''  xmm'' @ pad_right CHR '' '' 2 (fmt_u i) @ ''='' @ fmt_X 16 (xmm_hi r ! i) @ fmt_X 16 (xmm_lo r ! i) @ newline) =
      xmm_line r i @ newline" if "i < 16" for i
    using that by (subst snprintf_id) (fastforce simp: xmm_line_def pad_right_def)+
  then show ?thesis unfolding xmm_text_def by (rule concat_map_lines)
qed

lemma append_x87_lines: "append_x87 ''  '' x = unlines (x87_line x # map (st_line x) [0..<8])"
proof -
  have "unat (x87_top_of x) < 10" using x87_top_less [of x] unfolding unat_eq_nat_uint by linarith
  from len_u1 [OF this] have c: "buf192 (''  '' @ ''x87 cw='' @ fmt_X 4 (control_word x) @ '' sw='' @ fmt_X 4 (status_word x) @
       '' (top='' @ fmt_u (unat (x87_top_of x)) @ '') tw='' @ fmt_X 4 (tag_word x) @ newline) = x87_line x @ newline"
    by (subst snprintf_id) (simp_all add: x87_line_def)
  have "buf192 (''  '' @ ''  st'' @ fmt_u i @ ''='' @ fmt_X 4 (signexp x ! i) @ '':'' @
       fmt_X 16 (signif x ! i) @ '' '' @ kTagName ! unat (x87_tag_of_st x (int i)) @ newline) = st_line x i @ newline" if "i < 8" for i
    using len_u1 [of i] tag_name_len [of x i] that by (subst snprintf_id) (simp_all add: st_line_def)
  note st = concat_map_lines [of 8, OF this]
  show ?thesis by (simp only: append_x87_def unlines_Cons c st append.assoc)
qed

lemma seed_text_lines:
  assumes "length seed = kDataWindow"
  shows "seed_text seed = unlines (map (seed_line seed) [0..<8])"
proof -
  have "(length seed + 31) div 32 = 8" by (simp add: assms kDataWindow_def)
  moreover have "buf256 ('' '' @ fmt_X 2 b) = '' '' @ fmt_X 2 b" for b :: u8 by (rule snprintf_id) simp
  moreover have "buf256 (''    '' @ fmt_X 3 (of_nat (32 * k) :: u64) @ '':'') = ''    '' @ fmt_X 3 (of_nat (32 * k) :: u64) @ '':''"
    if "k < 8" for k
    by (rule snprintf_id) (use len_row [OF that] in simp)
  ultimately show ?thesis
    unfolding seed_text_def by (simp only:) (rule concat_map_lines, simp add: seed_line_def)
qed

lemma case_text_lines:
  assumes "length (tc_data_seed tc) = kDataWindow"
  shows "case_text tc = unlines (case_lines tc) @ newline"
proof -
  have "buf256 (''  rflags='' @ fmt_X 16 (rflags r) @ newline) = ''  rflags='' @ fmt_X 16 (rflags r) @ newline" for r
    by (rule snprintf_id) simp
  moreover have "''  '' @ gpr_text r @ rest = unlines [''  '' @ gpr_cells r [0..<8], ''  '' @ gpr_cells r [8..<16]] @ rest" for r rest
    using gpr_text_lines [of r] by (metis append.assoc)
  ultimately show ?thesis
    by (simp only: case_text_def case_lines_def Let_def xmm_text_lines append_x87_lines seed_text_lines [OF assms]
        unlines_append unlines_Cons unlines_Nil append.assoc append_Nil split: if_split) simp
qed


subsection \<open>The test case can be read back\<close>

fun split_lines :: "string \<Rightarrow> string \<Rightarrow> string list" where
  "split_lines acc [] = [rev acc]"
| "split_lines acc (c # cs) = (if c = CHR 0x0A then rev acc # split_lines [] cs else split_lines (c # acc) cs)"

definition no_nl :: "string \<Rightarrow> bool" where
  "no_nl s \<longleftrightarrow> CHR 0x0A \<notin> set s"

text \<open>A hexadecimal field of \<open>w\<close> digits at column \<open>k\<close>; the cells of the general registers, of which
  the reader knows the lengths of the names; the bytes of a row of the data seed.\<close>

definition hex_at :: "nat \<Rightarrow> nat \<Rightarrow> string \<Rightarrow> 'a::len word" where
  "hex_at k w s = of_nat (parse_digits 16 (take w (drop k s)))"

fun read_cells :: "nat list \<Rightarrow> string \<Rightarrow> u64 list" where
  "read_cells [] s = []"
| "read_cells (k # ks) s = hex_at (k + 1) 16 s # read_cells ks (drop (k + 18) s)"

fun read_bytes :: "string \<Rightarrow> u8 list" where
  "read_bytes (b # h # l # rest) = of_nat (parse_digits 16 [h, l]) # read_bytes rest"
| "read_bytes _ = []"

definition read_case :: "string \<Rightarrow> string \<times> reg_state \<times> u8 list option" where
  "read_case s =
     (let ls = split_lines [] s in
      (drop 7 (ls ! 0),
       reg_default\<lparr>
         gpr := read_cells (map (\<lambda>i. length (kNames ! i)) [0..<8]) (drop 2 (ls ! 3)) @
                read_cells (map (\<lambda>i. length (kNames ! i)) [8..<16]) (drop 2 (ls ! 4)),
         rflags := hex_at 9 16 (ls ! 5),
         xmm_hi := map (\<lambda>i. hex_at 8 16 (ls ! (6 + i))) [0..<16],
         xmm_lo := map (\<lambda>i. hex_at 24 16 (ls ! (6 + i))) [0..<16],
         x87 := \<lparr>signif = map (\<lambda>i. hex_at 13 16 (ls ! (23 + i))) [0..<8],
                 signexp = map (\<lambda>i. hex_at 8 4 (ls ! (23 + i))) [0..<8],
                 control_word = hex_at 9 4 (ls ! 22), status_word = hex_at 17 4 (ls ! 22),
                 tag_word = hex_at 33 4 (ls ! 22)\<rparr>\<rparr>,
       if ls ! 1 = ''touches_memory: yes''
       then Some (concat (map (\<lambda>k. read_bytes (drop 8 (ls ! (32 + k)))) [0..<8])) else None))"

lemma no_nl_append [simp]: "no_nl (a @ b) \<longleftrightarrow> no_nl a \<and> no_nl b"
  by (auto simp: no_nl_def)

lemma no_nl_Cons [simp]: "no_nl (c # b) \<longleftrightarrow> c \<noteq> CHR 0x0A \<and> no_nl b"
  by (auto simp: no_nl_def)

lemma no_nl_Nil [simp]: "no_nl []"
  by (simp add: no_nl_def)

lemma no_nl_show [simp]: "2 \<le> b \<Longrightarrow> b \<le> 16 \<Longrightarrow> no_nl (show_nat b n)"
proof -
  assume b: "2 \<le> b" "b \<le> 16"
  have "hex_digit d \<noteq> CHR 0x0A" if "d < 16" for d
  proof -
    have "hex_digit d \<in> set ''0123456789ABCDEF''" unfolding hex_digit_def by (rule nth_mem) (use that in simp)
    then show ?thesis by auto
  qed
  moreover have "d < 16" if "d \<in> set (nat_digits b n)" for d
    using nat_digits_bound [OF b(1) that] b(2) by linarith
  ultimately show ?thesis by (force simp: no_nl_def show_nat_def)
qed

lemma no_nl_fmt_X [simp]: "no_nl (fmt_X w v)"
  using no_nl_show [of 16 "unat v"] by (auto simp: fmt_X_def pad_left_def no_nl_def)

lemma no_nl_fmt_u [simp]: "no_nl (fmt_u n)"
  by (simp add: fmt_u_def)

lemma no_nl_concat: "(\<And>i. i \<in> set xs \<Longrightarrow> no_nl (f i)) \<Longrightarrow> no_nl (concat (map f xs))"
  by (auto simp: no_nl_def)

lemma split_lines_line: "no_nl l \<Longrightarrow> split_lines acc (l @ newline @ rest) = (rev acc @ l) # split_lines [] rest"
  by (induction l arbitrary: acc) (auto simp: newline_def)

lemma split_lines_unlines: "list_all no_nl ls \<Longrightarrow> split_lines [] (unlines ls @ rest) = ls @ split_lines [] rest"
  by (induction ls) (simp_all add: split_lines_line)

lemma case_lines_no_nl:
  assumes "no_nl (tc_text tc)"
  shows "list_all no_nl (case_lines tc)"
proof -
  have k: "no_nl (kNames ! i)" if "i < 16" for i
  proof -
    have "kNames ! i \<in> set kNames" using that by (intro nth_mem) (simp add: kNames_def)
    moreover have "list_all no_nl kNames" by (simp add: kNames_def)
    ultimately show ?thesis by (simp add: list_all_iff)
  qed
  then have "no_nl (gpr_cells r is)" if "\<forall>i \<in> set is. i < 16" for r "is"
    unfolding gpr_cells_def using that by (intro no_nl_concat) simp
  moreover have "no_nl (st_line x i)" for x i
  proof -
    have "unat (x87_tag_of_st x (int i)) < length kTagName"
      using tag_field_le_3 [of "tag_word x" "st_phys x i"] by (simp add: x87_tag_of_st_eq kTagName_def word_le_nat_alt)
    then have "kTagName ! unat (x87_tag_of_st x (int i)) \<in> set kTagName" by (rule nth_mem)
    moreover have "list_all no_nl kTagName" by (simp add: kTagName_def)
    ultimately show ?thesis by (simp add: st_line_def list_all_iff)
  qed
  moreover have "no_nl (xmm_line r i)" for r i
  proof -
    have "no_nl (pad_right CHR '' '' 2 (fmt_u i))" using no_nl_fmt_u [of i] by (auto simp: pad_right_def no_nl_def)
    then show ?thesis by (simp add: xmm_line_def)
  qed
  moreover have "no_nl (seed_line ds k)" for ds k
    by (simp add: seed_line_def no_nl_concat)
  ultimately show ?thesis
    using assms by (auto simp: case_lines_def Let_def list_all_iff x87_line_def simp del: upt_rec_numeral)
qed

text \<open>Fields at their columns.\<close>

lemma hex_at_field: "length p = k \<Longrightarrow> length (fmt_X w v) = w \<Longrightarrow> hex_at k w (p @ fmt_X w v @ q) = v"
  by (simp add: hex_at_def)

lemma read_cells_gpr:
  "read_cells (map (\<lambda>i. length (kNames ! i)) is) (gpr_cells r is @ rest) = map (\<lambda>i. gpr r ! i) is"
proof (induction "is")
  case (Cons i "is")
  have "hex_at (length (kNames ! i) + 1) 16 (kNames ! i @ ''='' @ fmt_X 16 (gpr r ! i) @ '' '' @ gpr_cells r is @ rest) = gpr r ! i"
    using hex_at_field [of "kNames ! i @ ''=''" "length (kNames ! i) + 1" 16 "gpr r ! i" "'' '' @ gpr_cells r is @ rest"] by simp
  then show ?case using Cons by (simp add: gpr_cells_def)
qed simp

lemma read_bytes_row: "read_bytes (concat (map (\<lambda>b. '' '' @ fmt_X 2 b) bs)) = bs"
proof (induction bs)
  case (Cons b bs)
  obtain h l where "fmt_X 2 b = [h, l]" using len8 [of b] by (metis (no_types) One_nat_def Suc_1 length_0_conv length_Suc_conv)
  moreover then have "parse_digits 16 [h, l] = unat b" by (metis parse_fmt_X)
  ultimately show ?case using Cons by simp
qed simp

lemma concat_rows: "concat (map (\<lambda>k. take n (drop (n * k) xs)) [0..<m]) = take (n * m) xs"
proof (induction m)
  case (Suc m)
  have "n * Suc m = n * m + n" by simp
  then show ?case using Suc by (simp only: take_add) simp
qed simp

lemma len_u_exact: "n < 10 \<Longrightarrow> length (fmt_u n) = 1"
  using len_u1 [of n] nat_digits_Nil [of 10 n] by (simp add: fmt_u_def show_nat_def le_Suc_eq)

lemma xmm_line_fields: "i < 16 \<Longrightarrow> hex_at 8 16 (xmm_line r i) = xmm_hi r ! i \<and> hex_at 24 16 (xmm_line r i) = xmm_lo r ! i"
proof -
  assume "i < 16"
  then have l: "length (pad_right CHR '' '' 2 (fmt_u i)) = 2"
    using len_u2 [of i] by (simp add: pad_right_def)
  define p where "p = ''  xmm'' @ pad_right CHR '' '' 2 (fmt_u i) @ ''=''"
  have "length p = 8" using l by (simp add: p_def)
  moreover have "xmm_line r i = p @ fmt_X 16 (xmm_hi r ! i) @ fmt_X 16 (xmm_lo r ! i)" by (simp add: xmm_line_def p_def)
  ultimately show ?thesis
    using hex_at_field [of p 8 16 "xmm_hi r ! i" "fmt_X 16 (xmm_lo r ! i)"]
      hex_at_field [of "p @ fmt_X 16 (xmm_hi r ! i)" 24 16 "xmm_lo r ! i" "[]"] by simp
qed

lemma st_line_fields: "i < 8 \<Longrightarrow> hex_at 8 4 (st_line x i) = signexp x ! i \<and> hex_at 13 16 (st_line x i) = signif x ! i"
proof -
  assume "i < 8"
  then have l: "length (fmt_u i) = 1" by (simp add: len_u_exact)
  define p where "p = ''    st'' @ fmt_u i @ ''=''"
  define q where "q = '' '' @ kTagName ! unat (x87_tag_of_st x (int i))"
  have "length p = 8" using l by (simp add: p_def)
  moreover have "st_line x i = p @ fmt_X 4 (signexp x ! i) @ '':'' @ fmt_X 16 (signif x ! i) @ q" by (simp add: st_line_def p_def q_def)
  ultimately show ?thesis
    using hex_at_field [of p 8 4 "signexp x ! i" "'':'' @ fmt_X 16 (signif x ! i) @ q"]
      hex_at_field [of "p @ fmt_X 4 (signexp x ! i) @ '':''" 13 16 "signif x ! i" q] by simp
qed

lemma x87_line_fields:
  "hex_at 9 4 (x87_line x) = control_word x \<and> hex_at 17 4 (x87_line x) = status_word x \<and> hex_at 33 4 (x87_line x) = tag_word x"
proof -
  have "unat (x87_top_of x) < 10" using x87_top_less [of x] unfolding unat_eq_nat_uint by linarith
  then have l: "length (fmt_u (unat (x87_top_of x))) = 1" by (rule len_u_exact)
  define t where "t = '' (top='' @ fmt_u (unat (x87_top_of x)) @ '') tw=''"
  have "length t = 12" using l by (simp add: t_def)
  moreover have "x87_line x = ''  x87 cw='' @ fmt_X 4 (control_word x) @ '' sw='' @ fmt_X 4 (status_word x) @ t @ fmt_X 4 (tag_word x)"
    by (simp add: x87_line_def t_def)
  ultimately show ?thesis
    using hex_at_field [of "''  x87 cw=''" 9 4 "control_word x" "'' sw='' @ fmt_X 4 (status_word x) @ t @ fmt_X 4 (tag_word x)"]
      hex_at_field [of "''  x87 cw='' @ fmt_X 4 (control_word x) @ '' sw=''" 17 4 "status_word x" "t @ fmt_X 4 (tag_word x)"]
      hex_at_field [of "''  x87 cw='' @ fmt_X 4 (control_word x) @ '' sw='' @ fmt_X 4 (status_word x) @ t" 33 4 "tag_word x" "[]"]
    by simp
qed

lemma nth_case_lines:
  "case_lines tc ! 0 = ''bytes: '' @ tc_text tc"
  "case_lines tc ! 1 = ''touches_memory: '' @ (if tc_touches_memory tc then ''yes'' else ''no'')"
  "case_lines tc ! 3 = ''  '' @ gpr_cells (tc_initial tc) [0..<8]"
  "case_lines tc ! 4 = ''  '' @ gpr_cells (tc_initial tc) [8..<16]"
  "case_lines tc ! 5 = ''  rflags='' @ fmt_X 16 (rflags (tc_initial tc))"
  "i < 16 \<Longrightarrow> case_lines tc ! (6 + i) = xmm_line (tc_initial tc) i"
  "case_lines tc ! 22 = x87_line (x87 (tc_initial tc))"
  "j < 8 \<Longrightarrow> case_lines tc ! (23 + j) = st_line (x87 (tc_initial tc)) j"
  "tc_touches_memory tc \<Longrightarrow> j < 8 \<Longrightarrow> case_lines tc ! (32 + j) = seed_line (tc_data_seed tc) j"
proof -
  define h where "h = [''bytes: '' @ tc_text tc, ''touches_memory: '' @ (if tc_touches_memory tc then ''yes'' else ''no''),
    ''initial:'', ''  '' @ gpr_cells (tc_initial tc) [0..<8], ''  '' @ gpr_cells (tc_initial tc) [8..<16],
    ''  rflags='' @ fmt_X 16 (rflags (tc_initial tc))]"
  define x where "x = map (xmm_line (tc_initial tc)) [0..<16]"
  define t where "t = map (st_line (x87 (tc_initial tc))) [0..<8]"
  define d where "d = (if tc_touches_memory tc then ''  data_seed:'' # map (seed_line (tc_data_seed tc)) [0..<8] else [])"
  have c: "case_lines tc = h @ x @ [x87_line (x87 (tc_initial tc))] @ t @ d"
    by (simp add: case_lines_def h_def x_def t_def d_def Let_def del: upt_rec_numeral)
  have l: "length h = 6" "length x = 16" "length t = 8" by (simp_all add: h_def x_def t_def)
  show "case_lines tc ! 0 = ''bytes: '' @ tc_text tc"
    "case_lines tc ! 1 = ''touches_memory: '' @ (if tc_touches_memory tc then ''yes'' else ''no'')"
    "case_lines tc ! 3 = ''  '' @ gpr_cells (tc_initial tc) [0..<8]"
    "case_lines tc ! 4 = ''  '' @ gpr_cells (tc_initial tc) [8..<16]"
    "case_lines tc ! 5 = ''  rflags='' @ fmt_X 16 (rflags (tc_initial tc))"
    unfolding c by (simp_all add: h_def eval_nat_numeral del: upt_rec_numeral)
  show "i < 16 \<Longrightarrow> case_lines tc ! (6 + i) = xmm_line (tc_initial tc) i"
    unfolding c by (simp add: nth_append l) (simp add: x_def del: upt_rec_numeral)
  show "case_lines tc ! 22 = x87_line (x87 (tc_initial tc))" unfolding c by (simp add: nth_append l)
  show "j < 8 \<Longrightarrow> case_lines tc ! (23 + j) = st_line (x87 (tc_initial tc)) j"
    unfolding c by (simp add: nth_append l) (simp add: t_def del: upt_rec_numeral)
  show "tc_touches_memory tc \<Longrightarrow> j < 8 \<Longrightarrow> case_lines tc ! (32 + j) = seed_line (tc_data_seed tc) j"
    unfolding c by (simp add: nth_append l) (simp add: d_def del: upt_rec_numeral)
qed

lemma length_case_lines: "31 \<le> length (case_lines tc)" "tc_touches_memory tc \<Longrightarrow> length (case_lines tc) = 40"
  by (simp_all add: case_lines_def Let_def)

text \<open>
  C22: A finding can be reproduced from its file: from the text alone, whatever the outcomes and divergences
  below, one reads back the instruction's bytes as printed, all sixteen general registers, the flags,
  the XMM registers, the whole x87 state with its tag word and, when the instruction touches memory,
  the 256 bytes of the data seed. No buffer cuts any of it.
\<close>
theorem finding_reproducible:
  assumes "reg_shape (tc_initial tc)" "length (tc_data_seed tc) = kDataWindow" "no_nl (tc_text tc)"
  shows "read_case (snd (write_finding dir index tc label s u h avail ds)) =
    (tc_text tc, (tc_initial tc)\<lparr>rip := 0, data_after := replicate kDataWindow 0\<rparr>,
     if tc_touches_memory tc then Some (tc_data_seed tc) else None)"
proof -
  define r where "r = tc_initial tc"
  define c where "c = case_lines tc"
  obtain rest where "snd (write_finding dir index tc label s u h avail ds) = case_text tc @ rest"
    by (simp add: write_finding_def)
  then have "snd (write_finding dir index tc label s u h avail ds) = unlines c @ newline @ rest"
    by (simp add: case_text_lines [OF assms(2)] c_def)
  then obtain more where sp: "split_lines [] (snd (write_finding dir index tc label s u h avail ds)) = c @ more"
    using split_lines_unlines [OF case_lines_no_nl [OF assms(3)]] by (simp add: c_def)
  have sh: "length (gpr r) = 16" "length (xmm_lo r) = 16" "length (xmm_hi r) = 16" "x87_shape (x87 r)"
    using assms(1) by (simp_all add: reg_shape_def r_def)
  have at: "(c @ more) ! i = c ! i" if "i < 31" for i
    using length_case_lines(1) [of tc] that by (simp add: nth_append c_def)
  have seed: "map (\<lambda>k. read_bytes (drop 8 ((c @ more) ! (32 + k)))) [0..<8] = map (\<lambda>k. take 32 (drop (32 * k) (tc_data_seed tc))) [0..<8]"
    if t: "tc_touches_memory tc"
  proof (rule map_cong)
    fix k assume "k \<in> set [0..<8]"
    then have k: "k < 8" by simp
    have "(c @ more) ! (32 + k) = seed_line (tc_data_seed tc) k"
      using k length_case_lines(2) [OF t] nth_case_lines(9) [OF t k] by (simp add: nth_append c_def)
    moreover define p where "p = ''    '' @ fmt_X 3 (of_nat (32 * k) :: u64) @ '':''"
    moreover have "length p = 8" unfolding p_def length_append len_row [OF k] by simp
    ultimately show "read_bytes (drop 8 ((c @ more) ! (32 + k))) = take 32 (drop (32 * k) (tc_data_seed tc))"
      using read_bytes_row [of "take 32 (drop (32 * k) (tc_data_seed tc))"] by (simp add: seed_line_def del: of_nat_mult)
  qed (rule refl)
  have "concat (map (\<lambda>k. read_bytes (drop 8 ((c @ more) ! (32 + k)))) [0..<8]) = tc_data_seed tc" if "tc_touches_memory tc"
    unfolding seed [OF that] concat_rows using assms(2) by (simp add: kDataWindow_def)
  moreover have "drop 7 ((c @ more) ! 0) = tc_text tc" using at [of 0] nth_case_lines(1) by (simp add: c_def)
  moreover have "((c @ more) ! 1 = ''touches_memory: yes'') = tc_touches_memory tc"
    using at [of 1] nth_case_lines(2) [of tc] by (simp add: c_def)
  moreover have "read_cells (map (\<lambda>i. length (kNames ! i)) [0..<8]) (drop 2 ((c @ more) ! 3)) @
      read_cells (map (\<lambda>i. length (kNames ! i)) [8..<16]) (drop 2 ((c @ more) ! 4)) = gpr r"
  proof -
    have "drop 2 ((c @ more) ! 3) = gpr_cells r [0..<8] @ []" "drop 2 ((c @ more) ! 4) = gpr_cells r [8..<16] @ []"
      using at [of 3] at [of 4] nth_case_lines(3,4) [of tc] by (simp_all add: c_def r_def del: upt_rec_numeral)
    then have "read_cells (map (\<lambda>i. length (kNames ! i)) [0..<8]) (drop 2 ((c @ more) ! 3)) @
        read_cells (map (\<lambda>i. length (kNames ! i)) [8..<16]) (drop 2 ((c @ more) ! 4)) = map (\<lambda>i. gpr r ! i) ([0..<8] @ [8..<16])"
      by (simp only: read_cells_gpr map_append)
    also have "[0..<8] @ [8..<16] = [0..<16]" using upt_add_eq_append [of 0 8 8] by simp
    also have "map (\<lambda>i. gpr r ! i) [0..<16] = gpr r" using sh(1) by (metis map_nth)
    finally show ?thesis .
  qed
  moreover have "hex_at 9 16 ((c @ more) ! 5) = rflags r"
    using at [of 5] nth_case_lines(5) [of tc] hex_at_field [of "''  rflags=''" 9 16 "rflags r" "[]"] by (simp add: c_def r_def)
  moreover have xl: "(c @ more) ! (6 + i) = xmm_line r i" if "i < 16" for i
    using at [of "6 + i"] nth_case_lines(6) [of i tc] that by (simp add: c_def r_def)
  moreover have stl: "(c @ more) ! (23 + i) = st_line (x87 r) i" if "i < 8" for i
    using at [of "23 + i"] nth_case_lines(8) [of i tc] that by (simp add: c_def r_def)
  moreover have "map (\<lambda>i. hex_at 8 16 ((c @ more) ! (6 + i))) [0..<16] = xmm_hi r"
    "map (\<lambda>i. hex_at 24 16 ((c @ more) ! (6 + i))) [0..<16] = xmm_lo r"
    using sh xmm_line_fields [of _ r] by (auto simp: xl simp del: upt_rec_numeral intro!: nth_equalityI)
  moreover have "map (\<lambda>i. hex_at 13 16 ((c @ more) ! (23 + i))) [0..<8] = signif (x87 r)"
    "map (\<lambda>i. hex_at 8 4 ((c @ more) ! (23 + i))) [0..<8] = signexp (x87 r)"
    using sh(4) st_line_fields [of _ "x87 r"]
    by (auto simp: stl x87_shape_def simp del: upt_rec_numeral intro!: nth_equalityI)
  moreover have "hex_at 9 4 ((c @ more) ! 22) = control_word (x87 r)" "hex_at 17 4 ((c @ more) ! 22) = status_word (x87 r)"
    "hex_at 33 4 ((c @ more) ! 22) = tag_word (x87 r)"
    using at [of 22] nth_case_lines(7) [of tc] x87_line_fields [of "x87 r"] by (simp_all add: c_def r_def)
  ultimately show ?thesis
    unfolding read_case_def Let_def sp r_def [symmetric]
    by (cases "tc_touches_memory tc") (simp_all only: if_True if_False refl simp_thms, simp_all add: reg_default_def)
qed

lemma plain_case: "reg_shape (tc_initial tc_default)" "length (tc_data_seed tc_default) = kDataWindow" "no_nl (tc_text tc_default)"
  by (simp_all add: tc_default_def reg_shape_def reg_default_def x87_shape_def x87_default_def)

theorem finding_reproducible_witness:
  "read_case (snd (write_finding ''findings'' 3 (tc_default\<lparr>tc_touches_memory := True\<rparr>) ''seven''
      outcome_default outcome_default outcome_default False [])) =
     ([], reg_default\<lparr>rip := 0, data_after := replicate kDataWindow 0\<rparr>, Some (replicate kDataWindow 0))"
  using finding_reproducible [of "tc_default\<lparr>tc_touches_memory := True\<rparr>" "''findings''" 3 "''seven''"
      outcome_default outcome_default outcome_default False "[]"] plain_case
  by (simp add: tc_default_def)

text \<open>Findings with different numbers, or in different directories, are different files.\<close>

lemma length_fmt_0d: "n < 10 ^ w \<Longrightarrow> 0 < w \<Longrightarrow> length (fmt_0d w n) = w"
proof -
  assume "n < 10 ^ w" "0 < w"
  then have "length (nat_digits 10 n) \<le> w" by (intro length_nat_digits) simp_all
  then show ?thesis by (simp add: fmt_0d_def pad_left_def show_nat_def)
qed

lemma finding_path_inj:
  assumes "i < 10 ^ 6" "j < 10 ^ 6"
  shows "finding_path d (int i) = finding_path d' (int j) \<longleftrightarrow> d = d' \<and> i = j"
proof -
  have p: "snprintf 64 (''/finding_'' @ fmt_0i 6 (int n) @ ''.txt'') = ''/finding_'' @ fmt_0d 6 n @ ''.txt''" if "n < 10 ^ 6" for n
    using length_fmt_0d [OF that] by (simp add: snprintf_def fmt_0i_def)
  show ?thesis
    unfolding finding_path_def p [OF assms(1)] p [OF assms(2)]
    using length_fmt_0d [OF assms(1)] length_fmt_0d [OF assms(2)] by (auto simp: fmt_0d_inj)
qed

end
