(* ===== verification/Worker.thy ===== *)
theory Worker
  imports Rounds HwSession Report GenNext
begin

section \<open>One worker from start to end\<close>

text \<open>
  \<^verbatim>\<open>run_worker\<close> of \<^verbatim>\<open>src/main.cpp\<close> as a function of the worker's whole state: the generator, the hardware
  session, the JIT with its memory, the heartbeat, the counters, the files written and the messages
  printed. The counters are the ones the worker would see alone; their sharing is the subject of
  \<open>wstep\<close>. An engine that raises an exception returns it as a left value. The engines, the encoder,
  the random engine and the clock are parameters.
\<close>

record 'j engines =
  unicorn_lane :: "test_case \<Rightarrow> string + lane_outcome"
  interpreter_lane :: "test_case \<Rightarrow> string + lane_outcome"
  jit_lane :: "'j \<Rightarrow> test_case \<Rightarrow> string + lane_outcome \<times> 'j"
  recycle :: "'j \<Rightarrow> 'j"
  families :: families
  encode :: encoder
  seeded :: "u64 \<Rightarrow> nat stream"

record worker_args =
  a_worker_id :: u32
  a_iterations :: nat
  a_seed :: u64
  a_use_hw :: bool
  a_use_jit :: bool
  a_no_unicorn :: bool
  a_no_seven :: bool
  a_verbose_from :: nat
  a_findings_dir :: string
  a_outliers_dir :: string

record counters =
  finding_count :: nat
  unicorn_outlier_saved :: nat
  unicorn_outlier_count :: nat
  hw_harness_errors :: nat
  generator_discards :: nat
  total_done :: nat

datatype message =
  HwUnavailable string | HwStarted | RunningCase nat string | HwHarnessError string
  | DivergenceAt string string | NoLongerWriting | Progress nat | Crash nat string string

record 'j worker =
  w_gen :: generator
  w_hw :: hw
  w_use_hw :: bool
  w_jit :: 'j
  w_heartbeat :: heartbeat
  w_counters :: counters
  w_files :: "(string \<times> string) list"
  w_log :: "message list"
  w_clock :: "u64 stream"

definition print :: "message \<Rightarrow> 'j worker \<Rightarrow> 'j worker" where
  "print m w = w\<lparr>w_log := w_log w @ [m]\<rparr>"

definition new_generator :: "'j engines \<Rightarrow> u64 \<Rightarrow> generator" where
  "new_generator eng seed = \<lparr>gen_rng = seeded eng seed, gen_discarded = 0\<rparr>"

definition tick :: "'j worker \<Rightarrow> 'j worker" where
  "tick w = w\<lparr>w_heartbeat := (w_heartbeat w)\<lparr>last_tick_ms := shd (w_clock w)\<rparr>, w_clock := stl (w_clock w)\<rparr>"

definition seven_label :: "worker_args \<Rightarrow> string" where
  "seven_label a = (if a_use_jit a then ''seven-jit'' else ''seven'')"

definition start_hardware :: "worker_args \<Rightarrow> 'j worker \<Rightarrow> 'j worker option" where
  "start_hardware a w =
     (if \<not> a_use_hw a then Some (w\<lparr>w_use_hw := False\<rparr>)
      else (case ensure_ready (w_hw w) of
        None \<Rightarrow> None
      | Some (Some err, s) \<Rightarrow> Some (print (HwUnavailable err) (w\<lparr>w_hw := s, w_use_hw := False\<rparr>))
      | Some (None, s) \<Rightarrow> Some (print HwStarted (w\<lparr>w_hw := s, w_use_hw := True\<rparr>))))"

definition kJitRecycleInterval :: nat where "kJitRecycleInterval = 2000"

text \<open>The two engines, Unicorn first; a skipped one leaves the default outcome.\<close>

definition compute :: "'j engines \<Rightarrow> worker_args \<Rightarrow> test_case \<Rightarrow> 'j \<Rightarrow> string + lane_outcome \<times> lane_outcome \<times> 'j" where
  "compute eng a tc j =
     (case (if a_no_unicorn a then Inr outcome_default else unicorn_lane eng tc) of
        Inl ex \<Rightarrow> Inl ex
      | Inr u \<Rightarrow>
          (case (if a_no_seven a then Inr (outcome_default, j)
                 else if a_use_jit a then jit_lane eng j tc
                 else map_sum id (\<lambda>s. (s, j)) (interpreter_lane eng tc)) of
             Inl ex \<Rightarrow> Inl ex
           | Inr (s, j) \<Rightarrow> Inr (s, u, j)))"

definition hardware_round :: "test_case \<Rightarrow> 'j worker \<Rightarrow> (lane_outcome option \<times> 'j worker) option" where
  "hardware_round tc w =
     (if \<not> w_use_hw w then Some (None, w)
      else (case run_one tc (w_hw w) of
        None \<Rightarrow> None
      | Some (h, s) \<Rightarrow>
          let w = w\<lparr>w_hw := s\<rparr>; c = w_counters w in
          Some (Some h, if setup_ok h then w
            else print (HwHarnessError (setup_error h)) (w\<lparr>w_counters := c\<lparr>hw_harness_errors := hw_harness_errors c + 1\<rparr>\<rparr>))))"

text \<open>The report of a round. Without a usable hardware outcome the one that is handed on is not printed.\<close>

definition report_round :: "worker_args \<Rightarrow> test_case \<Rightarrow> lane_outcome \<Rightarrow> lane_outcome \<Rightarrow> lane_outcome option \<Rightarrow> 'j worker \<Rightarrow> 'j worker" where
  "report_round a tc s u hw w =
     (let h = (case hw of None \<Rightarrow> outcome_default | Some h \<Rightarrow> h);
          v = judge (seven_label a) tc s u hw;
          c = w_counters w
      in case triage v of
        Outlier ds \<Rightarrow>
          let oidx = unicorn_outlier_saved c;
              w = w\<lparr>w_counters := c\<lparr>unicorn_outlier_count := unicorn_outlier_count c + 1, unicorn_outlier_saved := oidx + 1\<rparr>\<rparr>
          in if oidx < kMaxDumpFilesPerDir
             then w\<lparr>w_files := w_files w @ [write_finding (a_outliers_dir a) (int oidx) tc (seven_label a) s u h (v_hw_ok v) ds]\<rparr>
             else w
      | Finding ds \<Rightarrow>
          let idx = finding_count c;
              w = w\<lparr>w_counters := c\<lparr>finding_count := idx + 1\<rparr>\<rparr>;
              f = write_finding (a_findings_dir a) (int idx) tc (seven_label a) s u h (v_hw_ok v) ds
          in if idx < kMaxDumpFilesPerDir then print (DivergenceAt (tc_text tc) (fst f)) (w\<lparr>w_files := w_files w @ [f]\<rparr>)
             else if idx = kMaxDumpFilesPerDir then print NoLongerWriting w
             else w
      | NoReport \<Rightarrow> w)"

definition count_done :: "'j worker \<Rightarrow> 'j worker" where
  "count_done w =
     (let c = w_counters w; done = total_done c + 1; w = w\<lparr>w_counters := c\<lparr>total_done := done\<rparr>\<rparr>
      in if done mod 5000 = 0 then print (Progress done) w else w)"

text \<open>An iteration up to its \<^verbatim>\<open>try\<close>: the heartbeat, the JIT's recycling, the test case and its announcement.\<close>

definition begin_iteration :: "'j engines \<Rightarrow> worker_args \<Rightarrow> nat \<Rightarrow> 'j worker \<Rightarrow> test_case \<times> 'j worker" where
  "begin_iteration eng a local_i w =
     (let w = tick w;
          w = w\<lparr>w_heartbeat := (w_heartbeat w)\<lparr>hb_local_i := of_nat local_i\<rparr>\<rparr>;
          w = (if a_use_jit a \<and> local_i \<noteq> 0 \<and> local_i mod kJitRecycleInterval = 0 then w\<lparr>w_jit := recycle eng (w_jit w)\<rparr> else w);
          (tc, g) = gen_next (families eng) (encode eng) (w_gen w);
          w = w\<lparr>w_gen := g\<rparr>
      in (tc, if a_verbose_from a \<le> local_i then print (RunningCase local_i (tc_text tc)) w else w))"

text \<open>One iteration; the flag says that an exception ended the worker.\<close>

definition run_iteration :: "'j engines \<Rightarrow> worker_args \<Rightarrow> nat \<Rightarrow> 'j worker \<Rightarrow> (bool \<times> 'j worker) option" where
  "run_iteration eng a local_i w =
     (let (tc, w) = begin_iteration eng a local_i w in
      case compute eng a tc (w_jit w) of
        Inl ex \<Rightarrow> Some (True, print (Crash local_i ex (tc_text tc)) w)
      | Inr (s, u, j) \<Rightarrow>
          (case hardware_round tc (w\<lparr>w_jit := j\<rparr>) of
             None \<Rightarrow> None
           | Some (hw, w) \<Rightarrow> Some (False, count_done (report_round a tc s u hw w))))"

text \<open>The loop, and the end of the worker on both ways out, with the session's destructor.\<close>

definition leave :: "'j worker \<Rightarrow> 'j worker" where
  "leave w = w\<lparr>w_heartbeat := (w_heartbeat w)\<lparr>hb_finished := True\<rparr>, w_hw := shutdown (w_hw w)\<rparr>"

fun worker_loop :: "'j engines \<Rightarrow> worker_args \<Rightarrow> nat list \<Rightarrow> 'j worker \<Rightarrow> 'j worker option" where
  "worker_loop eng a [] w =
     (let c = w_counters w in
      Some (leave (w\<lparr>w_counters := c\<lparr>generator_discards := generator_discards c + gen_discarded (w_gen w)\<rparr>\<rparr>)))"
| "worker_loop eng a (i # is) w =
     (case run_iteration eng a i w of
        None \<Rightarrow> None
      | Some (True, w) \<Rightarrow> Some (leave w)
      | Some (False, w) \<Rightarrow> worker_loop eng a is w)"

definition no_counts :: counters where
  "no_counts = \<lparr>finding_count = 0, unicorn_outlier_saved = 0, unicorn_outlier_count = 0, hw_harness_errors = 0,
     generator_discards = 0, total_done = 0\<rparr>"

definition new_worker :: "'j engines \<Rightarrow> worker_args \<Rightarrow> hw \<Rightarrow> 'j \<Rightarrow> u64 stream \<Rightarrow> 'j worker" where
  "new_worker eng a hw j clock = \<lparr>w_gen = new_generator eng (mix_seed (a_seed a) (a_worker_id a)), w_hw = hw, w_use_hw = False,
     w_jit = j, w_heartbeat = \<lparr>last_tick_ms = 0, hb_local_i = 0, hb_finished = False\<rparr>, w_counters = no_counts,
     w_files = [], w_log = [], w_clock = clock\<rparr>"

definition run_worker :: "'j engines \<Rightarrow> worker_args \<Rightarrow> hw \<Rightarrow> 'j \<Rightarrow> u64 stream \<Rightarrow> 'j worker option" where
  "run_worker eng a hw j clock =
     (case start_hardware a (tick (new_worker eng a hw j clock)) of
        None \<Rightarrow> None
      | Some w \<Rightarrow> worker_loop eng a [0..<a_iterations a] w)"

subsection \<open>A worker's run is reproducible\<close>

text \<open>The \<open>k\<close>-th test case of a seed, from the generator alone.\<close>

definition nth_generator :: "'j engines \<Rightarrow> u64 \<Rightarrow> nat \<Rightarrow> generator" where
  "nth_generator eng seed k = ((\<lambda>g. snd (gen_next (families eng) (encode eng) g)) ^^ k) (new_generator eng seed)"

definition nth_case :: "'j engines \<Rightarrow> u64 \<Rightarrow> nat \<Rightarrow> test_case" where
  "nth_case eng seed k = fst (gen_next (families eng) (encode eng) (nth_generator eng seed k))"

lemma nth_generator_Suc: "nth_generator eng seed (Suc k) = snd (gen_next (families eng) (encode eng) (nth_generator eng seed k))"
  by (simp add: nth_generator_def)

text \<open>Messages and files about one of the first \<open>n\<close> cases.\<close>

definition message_ok :: "'j engines \<Rightarrow> u64 \<Rightarrow> nat \<Rightarrow> message \<Rightarrow> bool" where
  "message_ok eng seed n m = (case m of
     Crash k ex t \<Rightarrow> k < n \<and> t = tc_text (nth_case eng seed k)
   | RunningCase k t \<Rightarrow> k < n \<and> t = tc_text (nth_case eng seed k)
   | _ \<Rightarrow> True)"

definition file_ok :: "'j engines \<Rightarrow> u64 \<Rightarrow> nat \<Rightarrow> string \<times> string \<Rightarrow> bool" where
  "file_ok eng seed n f \<longleftrightarrow> (\<exists>k < n. \<exists>rest. snd f = case_text (nth_case eng seed k) @ rest)"

definition crashed :: "message \<Rightarrow> bool" where
  "crashed m = (case m of Crash k ex t \<Rightarrow> True | _ \<Rightarrow> False)"

definition worker_inv :: "'j engines \<Rightarrow> u64 \<Rightarrow> nat \<Rightarrow> 'j worker \<Rightarrow> bool" where
  "worker_inv eng seed n w \<longleftrightarrow> w_gen w = nth_generator eng seed n \<and>
     list_all (\<lambda>m. message_ok eng seed n m \<and> \<not> crashed m) (w_log w) \<and>
     list_all (file_ok eng seed n) (w_files w) \<and> total_done (w_counters w) = n \<and> generator_discards (w_counters w) = 0"

lemma message_ok_mono: "message_ok eng seed n m \<Longrightarrow> n \<le> n' \<Longrightarrow> message_ok eng seed n' m"
  by (auto simp: message_ok_def split: message.splits)

lemma file_ok_mono: "file_ok eng seed n f \<Longrightarrow> n \<le> n' \<Longrightarrow> file_ok eng seed n' f"
  by (force simp: file_ok_def)

lemma write_finding_file: "tc = nth_case eng seed k \<Longrightarrow> k < n \<Longrightarrow> file_ok eng seed n (write_finding d i tc l s u h ok ds)"
  by (auto simp: file_ok_def write_finding_def)

text \<open>What the parts of an iteration add to the log and the files.\<close>

definition extends :: "'j engines \<Rightarrow> u64 \<Rightarrow> nat \<Rightarrow> 'j worker \<Rightarrow> 'j worker \<Rightarrow> bool" where
  "extends eng seed n w v \<longleftrightarrow> w_gen v = w_gen w \<and> w_use_hw v = w_use_hw w \<and> total_done (w_counters v) = total_done (w_counters w) \<and>
     generator_discards (w_counters v) = generator_discards (w_counters w) \<and>
     (\<exists>ms. w_log v = w_log w @ ms \<and> list_all (\<lambda>m. message_ok eng seed n m \<and> \<not> crashed m) ms) \<and>
     (\<exists>fs. w_files v = w_files w @ fs \<and> list_all (file_ok eng seed n) fs)"

lemma extends_refl: "extends eng seed n w w"
  by (simp add: extends_def)

lemma report_round_extends:
  assumes "tc = nth_case eng seed k" "k < n"
  shows "extends eng seed n w (report_round a tc s u hw w)"
  using write_finding_file [OF assms]
  by (auto simp: report_round_def Let_def extends_def print_def message_ok_def crashed_def split: triage_result.splits)

lemma hardware_round_extends:
  assumes "hardware_round tc w = Some (hw, v)"
  shows "extends eng seed n w v"
  using assms
  by (auto simp: hardware_round_def Let_def extends_def print_def message_ok_def crashed_def split: if_splits option.splits)

lemma begin_iteration_inv:
  assumes "worker_inv eng seed i w"
  obtains v ms where "begin_iteration eng a i w = (nth_case eng seed i, v)"
    "w_log v = w_log w @ ms" "list_all (\<lambda>m. message_ok eng seed (Suc i) m \<and> \<not> crashed m) ms"
    "w_files v = w_files w" "w_gen v = nth_generator eng seed (Suc i)" "w_counters v = w_counters w" "w_use_hw v = w_use_hw w"
proof -
  have g: "gen_next (families eng) (encode eng) (w_gen w) = (nth_case eng seed i, nth_generator eng seed (Suc i))"
    using assms by (simp add: worker_inv_def nth_case_def nth_generator_Suc)
  show thesis
  proof (cases "a_verbose_from a \<le> i")
    case True
    show thesis
      by (rule that [of "snd (begin_iteration eng a i w)" "[RunningCase i (tc_text (nth_case eng seed i))]"])
        (simp_all add: True begin_iteration_def Let_def tick_def g print_def message_ok_def crashed_def)
  next
    case False
    show thesis
      by (rule that [of "snd (begin_iteration eng a i w)" "[]"]) (simp_all add: False begin_iteration_def Let_def tick_def g)
  qed
qed

lemma run_iteration_inv:
  assumes "worker_inv eng seed i w" "run_iteration eng a i w = Some (c, v)"
  shows "if c then (\<exists>ex ms. w_log v = ms @ [Crash i ex (tc_text (nth_case eng seed i))] \<and>
        list_all (\<lambda>m. message_ok eng seed (Suc i) m \<and> \<not> crashed m) ms) \<and>
        list_all (file_ok eng seed (Suc i)) (w_files v) \<and> total_done (w_counters v) = i \<and> generator_discards (w_counters v) = 0
      else worker_inv eng seed (Suc i) v"
proof -
  obtain w2 ms where b0: "begin_iteration eng a i w = (nth_case eng seed i, w2)"
    and ms: "w_log w2 = w_log w @ ms" "list_all (\<lambda>m. message_ok eng seed (Suc i) m \<and> \<not> crashed m) ms"
    "w_files w2 = w_files w" "w_gen w2 = nth_generator eng seed (Suc i)" "w_counters w2 = w_counters w"
    by (rule begin_iteration_inv [OF assms(1), of a]) (rule that)
  define tc where "tc = nth_case eng seed i"
  have b: "begin_iteration eng a i w = (tc, w2)" by (simp add: b0 tc_def)
  note r = run_iteration_def [of eng a i w, unfolded b Let_def prod.case]
  have old: "list_all (\<lambda>m. message_ok eng seed (Suc i) m \<and> \<not> crashed m) (w_log w)"
    "list_all (file_ok eng seed (Suc i)) (w_files w)" "total_done (w_counters w) = i" "generator_discards (w_counters w) = 0"
    using assms(1) message_ok_mono [of eng seed i _ "Suc i"] file_ok_mono [of eng seed i _ "Suc i"]
    by (auto simp: worker_inv_def list_all_iff)
  show ?thesis
  proof (cases "compute eng a tc (w_jit w2)")
    case (Inl ex)
    then show ?thesis using assms(2) ms old unfolding r by (auto simp: print_def tc_def)
  next
    case (Inr p)
    obtain s u j where p: "p = (s, u, j)" by (cases p)
    obtain hw w3 where h: "hardware_round tc (w2\<lparr>w_jit := j\<rparr>) = Some (hw, w3)" "c = False"
      "v = count_done (report_round a tc s u hw w3)"
      using assms(2) unfolding r Inr p by (auto split: option.splits)
    define w4 where "w4 = report_round a tc s u hw w3"
    have e: "extends eng seed (Suc i) (w2\<lparr>w_jit := j\<rparr>) w3"
      by (rule hardware_round_extends [OF h(1)])
    have e4: "extends eng seed (Suc i) w3 w4"
      unfolding w4_def by (rule report_round_extends [OF tc_def]) simp
    have "worker_inv eng seed (Suc i) v"
      using e e4 ms old h(3)
      by (auto simp: w4_def [symmetric] worker_inv_def extends_def count_done_def Let_def print_def message_ok_def crashed_def list_all_iff)
    then show ?thesis using h(2) by simp
  qed
qed

text \<open>How a worker that has returned stands: it is marked finished, what it said and wrote is about its first
  \<open>n\<close> cases, and it either did all of them or its last message names the case that stopped it.\<close>

definition worker_final :: "'j engines \<Rightarrow> u64 \<Rightarrow> nat \<Rightarrow> 'j worker \<Rightarrow> bool" where
  "worker_final eng seed n w \<longleftrightarrow> hb_finished (w_heartbeat w) \<and> list_all (message_ok eng seed n) (w_log w) \<and>
     list_all (file_ok eng seed n) (w_files w) \<and>
     (if list_all (\<lambda>m. \<not> crashed m) (w_log w)
      then total_done (w_counters w) = n \<and> generator_discards (w_counters w) = gen_discarded (nth_generator eng seed n)
      else generator_discards (w_counters w) = 0 \<and>
        (\<exists>k < n. \<exists>ex. total_done (w_counters w) = k \<and> last (w_log w) = Crash k ex (tc_text (nth_case eng seed k))))"

lemma leave_fields [simp]:
  "w_log (leave w) = w_log w" "w_files (leave w) = w_files w" "w_counters (leave w) = w_counters w"
  "hb_finished (w_heartbeat (leave w))"
  by (simp_all add: leave_def)

lemma worker_loop_final:
  assumes "worker_inv eng seed i w" "worker_loop eng a [i..<n] w = Some v" "i \<le> n"
  shows "worker_final eng seed n v"
  using assms
proof (induction "n - i" arbitrary: i w)
  case 0
  then show ?case by (auto simp: worker_inv_def worker_final_def list_all_iff)
next
  case (Suc m)
  then have l: "[i..<n] = i # [Suc i..<n]" "Suc i \<le> n" by (simp_all add: upt_conv_Cons)
  obtain c w' where r: "run_iteration eng a i w = Some (c, w')"
    using Suc.prems(2) by (auto simp: l(1) split: option.splits)
  note step = run_iteration_inv [OF Suc.prems(1) r]
  show ?case
  proof (cases c)
    case False
    then have "worker_inv eng seed (Suc i) w'" using step by simp
    then show ?thesis using Suc.hyps(1) [of "Suc i" w'] Suc.hyps(2) Suc.prems(2) l r False by simp
  next
    case True
    then have v: "v = leave w'" using Suc.prems(2) l(1) r by simp
    obtain ex ms where ms: "w_log w' = ms @ [Crash i ex (tc_text (nth_case eng seed i))]"
      "list_all (\<lambda>m. message_ok eng seed (Suc i) m \<and> \<not> crashed m) ms"
      and rest: "list_all (file_ok eng seed (Suc i)) (w_files w')" "total_done (w_counters w') = i" "generator_discards (w_counters w') = 0"
      using step True by auto
    have "message_ok eng seed n (Crash i ex (tc_text (nth_case eng seed i)))" using l(2) by (simp add: message_ok_def)
    moreover have "list_all (message_ok eng seed n) ms" using ms(2) message_ok_mono [OF _ l(2)] unfolding list_all_iff by blast
    moreover have "list_all (file_ok eng seed n) (w_files w')" using rest(1) file_ok_mono [OF _ l(2)] unfolding list_all_iff by blast
    ultimately have "list_all (message_ok eng seed n) (w_log w')" "list_all (file_ok eng seed n) (w_files w')"
      by (simp_all add: ms(1))
    moreover have "\<not> list_all (\<lambda>m. \<not> crashed m) (w_log w')" by (simp add: ms(1) crashed_def)
    ultimately show ?thesis using ms(1) rest l(2) by (auto simp: worker_final_def v)
  qed
qed

lemma start_hardware_inv:
  assumes "start_hardware a (tick (new_worker eng a hw j clock)) = Some w"
  shows "worker_inv eng (mix_seed (a_seed a) (a_worker_id a)) 0 w"
  using assms
  by (auto simp: start_hardware_def tick_def new_worker_def worker_inv_def nth_generator_def no_counts_def print_def
      message_ok_def crashed_def split: if_splits option.splits)

lemma run_worker_final:
  assumes "run_worker eng a hw j clock = Some v"
  shows "worker_final eng (mix_seed (a_seed a) (a_worker_id a)) (a_iterations a) v"
  using assms start_hardware_inv worker_loop_final [of _ _ 0]
  by (fastforce simp: run_worker_def split: option.splits)


text \<open>Without the hardware lane nothing a worker calls can wait for ever.\<close>

lemma report_round_use_hw [simp]: "w_use_hw (report_round a tc s u hw w) = w_use_hw w"
  by (simp add: report_round_def Let_def print_def split: triage_result.splits)

lemma count_done_fields [simp]:
  "w_use_hw (count_done w) = w_use_hw w" "finding_count (w_counters (count_done w)) = finding_count (w_counters w)"
  by (simp_all add: count_done_def Let_def print_def)

lemma begin_iteration_use_hw [simp]: "w_use_hw (snd (begin_iteration eng a i w)) = w_use_hw w"
  by (simp add: begin_iteration_def Let_def tick_def print_def split: prod.split)

lemma run_iteration_returns:
  assumes "\<not> w_use_hw w"
  shows "\<exists>c v. run_iteration eng a i w = Some (c, v) \<and> \<not> w_use_hw v"
proof -
  obtain tc v where b: "begin_iteration eng a i w = (tc, v)" by fastforce
  then have "\<not> w_use_hw v" using assms begin_iteration_use_hw [of eng a i w] by simp
  then show ?thesis
    by (cases "compute eng a tc (w_jit v)") (auto simp: run_iteration_def b hardware_round_def print_def)
qed

lemma worker_loop_returns:
  assumes "\<not> w_use_hw w"
  shows "\<exists>v. worker_loop eng a is w = Some v"
  using assms
proof (induction "is" arbitrary: w)
  case Nil
  then show ?case by (simp add: Let_def)
next
  case (Cons i "is")
  obtain c v where v: "run_iteration eng a i w = Some (c, v)" "\<not> w_use_hw v"
    using run_iteration_returns [OF Cons.prems] by blast
  then show ?case using Cons.IH [OF v(2)] by (cases c) auto
qed

lemma run_worker_returns:
  assumes "\<not> a_use_hw a"
  shows "\<exists>v. run_worker eng a hw j clock = Some v"
  using assms worker_loop_returns [of "tick (new_worker eng a hw j clock)\<lparr>w_use_hw := False\<rparr>"]
  by (simp add: run_worker_def start_hardware_def)

text \<open>Where no engine raises an exception no worker crashes.\<close>

lemma run_iteration_no_crash:
  assumes "\<And>tc j. \<exists>x. compute eng a tc j = Inr x" "run_iteration eng a i w = Some (c, v)"
  shows "\<not> c"
proof
  assume "c"
  with assms(2) obtain tc j ex where "compute eng a tc j = Inl ex"
    by (auto simp: run_iteration_def Let_def split: prod.splits sum.splits option.splits)
  then show False using assms(1) [of tc j] by simp
qed

lemma worker_loop_no_crash:
  assumes "\<And>tc j. \<exists>x. compute eng a tc j = Inr x" "worker_inv eng seed i w" "worker_loop eng a [i..<n] w = Some v" "i \<le> n"
  shows "list_all (\<lambda>m. \<not> crashed m) (w_log v)"
  using assms(2-4)
proof (induction "n - i" arbitrary: i w)
  case 0
  then show ?case by (auto simp: worker_inv_def list_all_iff)
next
  case (Suc m)
  then have l: "[i..<n] = i # [Suc i..<n]" "Suc i \<le> n" by (simp_all add: upt_conv_Cons)
  obtain c w' where r: "run_iteration eng a i w = Some (c, w')"
    using Suc.prems(2) by (auto simp: l(1) split: option.splits)
  have c: "\<not> c" by (rule run_iteration_no_crash [OF assms(1) r])
  then have "worker_inv eng seed (Suc i) w'" using run_iteration_inv [OF Suc.prems(1) r] by simp
  then show ?case using Suc.hyps(1) [of "Suc i" w'] Suc.hyps(2) Suc.prems(2) l r c by simp
qed

lemma run_worker_no_crash:
  assumes "\<And>tc j. \<exists>x. compute eng a tc j = Inr x" "run_worker eng a hw j clock = Some v"
  shows "list_all (\<lambda>m. \<not> crashed m) (w_log v)"
  using assms(2) start_hardware_inv worker_loop_no_crash [OF assms(1), where i = 0]
  by (fastforce simp: run_worker_def split: option.splits)

text \<open>What a worker without hardware counts as findings: the rounds on whose test case the two engines
  disagree, \<open>d k\<close> saying so of the \<open>k\<close>-th, whatever the state of the JIT.\<close>

definition engines_decide :: "'j engines \<Rightarrow> worker_args \<Rightarrow> test_case \<Rightarrow> bool \<Rightarrow> bool" where
  "engines_decide eng a tc d \<longleftrightarrow> (\<forall>j. \<exists>s u j'. compute eng a tc j = Inr (s, u, j') \<and>
     (triage (judge (seven_label a) tc s u None) \<noteq> NoReport) = d)"

lemma report_round_counts:
  "finding_count (w_counters (report_round a tc s u None w)) =
     finding_count (w_counters w) + (if triage (judge (seven_label a) tc s u None) = NoReport then 0 else 1)"
  by (auto simp: report_round_def judge_def triage_def Let_def print_def)

lemma run_iteration_counts:
  assumes "worker_inv eng seed i w" "\<not> w_use_hw w" "engines_decide eng a (nth_case eng seed i) d"
  shows "\<exists>v. run_iteration eng a i w = Some (False, v) \<and> \<not> w_use_hw v \<and>
    finding_count (w_counters v) = finding_count (w_counters w) + (if d then 1 else 0)"
proof -
  obtain v ms where v: "begin_iteration eng a i w = (nth_case eng seed i, v)" "w_counters v = w_counters w" "w_use_hw v = w_use_hw w"
    by (rule begin_iteration_inv [OF assms(1), of a]) (rule that)
  obtain s u j where "compute eng a (nth_case eng seed i) (w_jit v) = Inr (s, u, j)"
    "(triage (judge (seven_label a) (nth_case eng seed i) s u None) \<noteq> NoReport) = d"
    using assms(3) unfolding engines_decide_def by blast
  then show ?thesis
    using v assms(2) by (auto simp: run_iteration_def hardware_round_def report_round_counts)
qed

lemma worker_loop_counts:
  assumes "\<And>k. k < n \<Longrightarrow> engines_decide eng a (nth_case eng seed k) (d k)"
    "worker_inv eng seed i w" "\<not> w_use_hw w" "i \<le> n"
  shows "\<exists>v. worker_loop eng a [i..<n] w = Some v \<and>
    finding_count (w_counters v) = finding_count (w_counters w) + length (filter d [i..<n])"
  using assms(2-4)
proof (induction "n - i" arbitrary: i w)
  case 0
  then show ?case by (simp add: Let_def)
next
  case (Suc m)
  then have l: "[i..<n] = i # [Suc i..<n]" "i < n" "Suc i \<le> n" by (simp_all add: upt_conv_Cons)
  obtain v where v: "run_iteration eng a i w = Some (False, v)" "\<not> w_use_hw v"
    "finding_count (w_counters v) = finding_count (w_counters w) + (if d i then 1 else 0)"
    using run_iteration_counts [OF Suc.prems(1,2) assms(1) [OF l(2)]] by blast
  have "worker_inv eng seed (Suc i) v" using run_iteration_inv [OF Suc.prems(1) v(1)] by simp
  then show ?case using Suc.hyps(1) [of "Suc i" v] Suc.hyps(2) v l by auto
qed

lemma run_worker_counts:
  assumes "\<And>k. k < a_iterations a \<Longrightarrow> engines_decide eng a (nth_case eng (mix_seed (a_seed a) (a_worker_id a)) k) (d k)"
    and "\<not> a_use_hw a"
  shows "\<exists>v. run_worker eng a hw j clock = Some v \<and> finding_count (w_counters v) = length (filter d [0..<a_iterations a])"
proof -
  obtain w where w: "start_hardware a (tick (new_worker eng a hw j clock)) = Some w" "\<not> w_use_hw w"
    "finding_count (w_counters w) = 0"
    using assms(2) by (simp add: start_hardware_def tick_def new_worker_def no_counts_def)
  then show ?thesis
    using worker_loop_counts [OF assms(1) start_hardware_inv [OF w(1)] w(2)] by (simp add: run_worker_def)
qed

subsection \<open>Properties of a worker\<close>

text \<open>
  C14: A worker's output is reproducible from the seed and its number alone: every case it announces or dies
  in, and every file it writes, is the \<open>k\<close>-th case that the generator seeded with
  \<^verbatim>\<open>mix_seed(seed, worker_id)\<close> draws, for the \<open>k\<close> it names, whatever the lanes, the session and the
  clock did. A worker that returns is marked finished, has done all its iterations and counted every
  discard, unless an exception ended it, which its last message then reports with the iteration.
\<close>
theorem worker_reproducible:
  assumes "run_worker eng a hw j clock = Some w"
  shows "worker_final eng (mix_seed (a_seed a) (a_worker_id a)) (a_iterations a) w"
  using assms by (rule run_worker_final)

definition idle_engines :: "unit engines" where
  "idle_engines = \<lparr>unicorn_lane = (\<lambda>tc. Inr outcome_default), interpreter_lane = (\<lambda>tc. Inl ''access violation''),
     jit_lane = (\<lambda>j tc. Inr (outcome_default, j)), recycle = (\<lambda>j. j), families = kFamilies no_caps,
     encode = (\<lambda>ip i. EncErr), seeded = (\<lambda>s. sconst 0)\<rparr>"

definition idle_args :: worker_args where
  "idle_args = \<lparr>a_worker_id = 0, a_iterations = 2, a_seed = 1, a_use_hw = False, a_use_jit = False, a_no_unicorn = False,
     a_no_seven = False, a_verbose_from = 0, a_findings_dir = ''f'', a_outliers_dir = ''o''\<rparr>"

text \<open>Here the interpreter raises an exception on the first case.\<close>

theorem worker_reproducible_witness:
  "\<exists>w. run_worker idle_engines idle_args (demo_hw (sconst (None, \<lambda>v. v))) () (sconst 3) = Some w \<and>
     last (w_log w) = Crash 0 ''access violation'' (tc_text (nth_case idle_engines (mix_seed 1 0) 0)) \<and>
     worker_final idle_engines (mix_seed 1 0) 2 w"
proof -
  have l: "[0..<2] = [0, Suc 0 :: nat]" by (simp add: upt_rec)
  obtain tc g where g: "gen_next (kFamilies no_caps) (\<lambda>ip i. EncErr) (new_generator idle_engines (mix_seed 1 0)) = (tc, g)"
    by fastforce
  obtain w where w: "run_worker idle_engines idle_args (demo_hw (sconst (None, \<lambda>v. v))) () (sconst 3) = Some w"
    using run_worker_returns [of idle_args idle_engines "demo_hw (sconst (None, \<lambda>v. v))" "()" "sconst 3"]
    by (auto simp: idle_args_def simp del: One_nat_def)
  then have "last (w_log w) = Crash 0 ''access violation'' (tc_text tc)"
    using g by (auto simp: run_worker_def start_hardware_def new_worker_def tick_def run_iteration_def begin_iteration_def compute_def
      idle_args_def idle_engines_def l print_def Let_def)
  moreover have "nth_case idle_engines (mix_seed 1 0) 0 = tc" using g by (simp add: nth_case_def nth_generator_def idle_engines_def)
  ultimately show ?thesis using w worker_reproducible [OF w] by (simp add: idle_args_def)
qed

end
