(* ===== verification/Sweep.thy ===== *)
theory Sweep
  imports Driver
begin

section \<open>The sweep's archive\<close>

text \<open>
  What \<^verbatim>\<open>run_seed_sweep\<close> of \<^verbatim>\<open>src/main.cpp\<close> does to the file system: it clears the dumps, runs a child,
  moves what the child left beside the executable into \<^verbatim>\<open>sweep_results\<close> under the child's seed, and
  goes on to the next seed. The two directories are maps from names to entries; whether the next
  rename succeeds is an oracle, and the child is a function of its seed and the directory it runs in.
\<close>

text \<open>A directory with its files, or a file.\<close>

datatype entry = Dir "(string \<times> string) list" | File string

type_synonym directory = "string \<Rightarrow> entry option"

record sweep_fs =
  exe_dir :: directory
  sweep_dir :: directory
  renames :: "bool stream"

text \<open>What a child does: how it ends, and what it leaves in the directory of the executable.\<close>

type_synonym child = "u64 \<Rightarrow> directory \<Rightarrow> child_end \<times> directory"

definition seed_tag :: "u64 \<Rightarrow> string" where
  "seed_tag child_seed = ''0x'' @ fmt_X 1 child_seed"

definition clear_dumps :: "sweep_fs \<Rightarrow> sweep_fs" where
  "clear_dumps st = st\<lparr>exe_dir := (exe_dir st)(''crash.dmp'' := None, ''watchdog_hang.dmp'' := None)\<rparr>"

text \<open>Clear the destination and rename.\<close>

definition move_entry :: "string \<Rightarrow> string \<Rightarrow> sweep_fs \<Rightarrow> sweep_fs" where
  "move_entry src dst st =
     (let st1 = st\<lparr>sweep_dir := (sweep_dir st)(dst := None), renames := stl (renames st)\<rparr>
      in if shd (renames st)
         then st1\<lparr>sweep_dir := (sweep_dir st1)(dst := exe_dir st src), exe_dir := (exe_dir st)(src := None)\<rparr>
         else st1)"

definition is_empty_entry :: "entry \<Rightarrow> bool" where
  "is_empty_entry e = (case e of Dir fs \<Rightarrow> fs = [] | File s \<Rightarrow> s = [])"

definition archive_dir :: "string \<Rightarrow> string \<Rightarrow> string \<Rightarrow> sweep_fs \<Rightarrow> sweep_fs" where
  "archive_dir tag src_name dst_prefix st =
     (let st1 = (case exe_dir st src_name of
          None \<Rightarrow> st
        | Some e \<Rightarrow> if is_empty_entry e then st else move_entry src_name (dst_prefix @ tag) st)
      in st1\<lparr>exe_dir := (exe_dir st1)(src_name := None)\<rparr>)"

definition archive_dump :: "string \<Rightarrow> string \<Rightarrow> sweep_fs \<Rightarrow> sweep_fs" where
  "archive_dump tag stem st =
     (let src = stem @ ''.dmp'' in
      case exe_dir st src of None \<Rightarrow> st | Some e \<Rightarrow> move_entry src (stem @ ''_'' @ tag @ ''.dmp'') st)"

definition archive :: "string \<Rightarrow> sweep_fs \<Rightarrow> sweep_fs" where
  "archive tag st = archive_dump tag ''watchdog_hang'' (archive_dump tag ''crash''
     (archive_dir tag ''unicorn_outliers'' ''outliers_'' (archive_dir tag ''findings'' ''findings_'' st)))"

text \<open>One iteration: a child that cannot be launched is passed over.\<close>

definition sweep_child :: "child \<Rightarrow> u64 \<Rightarrow> sweep_fs \<times> child_end list \<Rightarrow> sweep_fs \<times> child_end list" where
  "sweep_child child child_seed = (\<lambda>(st, ends).
     let st1 = clear_dumps st; (e, left) = child child_seed (exe_dir st1) in
     if e = LaunchFailed then (st1, ends @ [e])
     else (archive (seed_tag child_seed) (st1\<lparr>exe_dir := left\<rparr>), ends @ [e]))"

definition run_seed_sweep :: "child \<Rightarrow> u64 \<Rightarrow> nat \<Rightarrow> sweep_fs \<Rightarrow> sweep_fs \<times> sweep_counts" where
  "run_seed_sweep child base_seed sweep_seeds st =
     (case fold (sweep_child child) (sweep_seeds_of base_seed sweep_seeds) (st, []) of
        (st1, ends) \<Rightarrow> (st1, sweep_tally ends))"

subsection \<open>Whose output is in the archive\<close>

text \<open>The names a child writes, and what the archive of one seed is after a child has left \<open>left\<close>.\<close>

definition outputs :: "string list" where
  "outputs = [''findings'', ''unicorn_outliers'', ''crash.dmp'', ''watchdog_hang.dmp'']"

definition archived_as :: "u64 \<Rightarrow> string \<Rightarrow> string" where
  "archived_as s name =
     (if name = ''findings'' then ''findings_'' @ seed_tag s
      else if name = ''unicorn_outliers'' then ''outliers_'' @ seed_tag s
      else if name = ''crash.dmp'' then ''crash_'' @ seed_tag s @ ''.dmp''
      else ''watchdog_hang_'' @ seed_tag s @ ''.dmp'')"

definition clean_dir :: "directory \<Rightarrow> bool" where
  "clean_dir d \<longleftrightarrow> (\<forall>name \<in> set outputs. d name = None)"

definition kept :: "directory \<Rightarrow> string \<Rightarrow> bool" where
  "kept left name \<longleftrightarrow> (case left name of None \<Rightarrow> False
     | Some e \<Rightarrow> (name = ''findings'' \<or> name = ''unicorn_outliers'') \<longrightarrow> \<not> is_empty_entry e)"

definition archived :: "u64 \<Rightarrow> directory \<Rightarrow> directory \<Rightarrow> directory" where
  "archived s left arch = (\<lambda>dst.
     case find (\<lambda>name. kept left name \<and> archived_as s name = dst) outputs of
       None \<Rightarrow> arch dst | Some name \<Rightarrow> left name)"

lemma seed_tag_inj: "seed_tag a = seed_tag b \<longleftrightarrow> a = b"
  by (simp add: seed_tag_def fmt_X_inj)

lemma archived_as_hd:
  "hd (archived_as s n) = (if n = ''findings'' then CHR ''f'' else if n = ''unicorn_outliers'' then CHR ''o''
     else if n = ''crash.dmp'' then CHR ''c'' else CHR ''w'')"
  by (simp add: archived_as_def)

lemma archived_as_inj:
  assumes "n \<in> set outputs" "m \<in> set outputs"
  shows "archived_as a n = archived_as b m \<longleftrightarrow> a = b \<and> n = m"
proof
  assume e: "archived_as a n = archived_as b m"
  then have "hd (archived_as a n) = hd (archived_as b m)" by simp
  then have "n = m" using assms unfolding archived_as_hd outputs_def by (simp split: if_splits)
  moreover have "a = b" using e unfolding \<open>n = m\<close> archived_as_def
    by (cases "m = ''findings''"; cases "m = ''unicorn_outliers''"; cases "m = ''crash.dmp''")
      (simp_all add: seed_tag_inj)
  ultimately show "a = b \<and> n = m" by simp
qed simp

text \<open>When the renames succeed, an iteration archives what the child left and leaves a clean directory.\<close>

lemma clean_dir_names:
  "clean_dir d \<longleftrightarrow> d ''findings'' = None \<and> d ''unicorn_outliers'' = None \<and> d ''crash.dmp'' = None \<and> d ''watchdog_hang.dmp'' = None"
  by (simp add: clean_dir_def outputs_def)

lemma archive_dir_ok:
  assumes "renames st = sconst True"
  shows "archive_dir tag src pre st = st\<lparr>exe_dir := (exe_dir st)(src := None),
    sweep_dir := (case exe_dir st src of None \<Rightarrow> sweep_dir st
      | Some e \<Rightarrow> if is_empty_entry e then sweep_dir st else (sweep_dir st)(pre @ tag := Some e))\<rparr>"
proof (cases st)
  case (fields e sw r)
  then show ?thesis using assms by (auto simp: archive_dir_def move_entry_def Let_def split: option.splits)
qed

lemma archive_dump_ok:
  assumes "renames st = sconst True"
  shows "archive_dump tag stem st = st\<lparr>exe_dir := (exe_dir st)(stem @ ''.dmp'' := None),
    sweep_dir := (case exe_dir st (stem @ ''.dmp'') of None \<Rightarrow> sweep_dir st
      | Some e \<Rightarrow> (sweep_dir st)(stem @ ''_'' @ tag @ ''.dmp'' := Some e))\<rparr>"
proof (cases st)
  case (fields e sw r)
  then show ?thesis using assms
    by (auto simp: archive_dump_def move_entry_def Let_def fun_upd_idem_iff split: option.splits)
qed

lemma archived_eq:
  "archived s left arch = (case left ''watchdog_hang.dmp'' of None \<Rightarrow> id
       | Some e \<Rightarrow> (\<lambda>d. d(''watchdog_hang_'' @ seed_tag s @ ''.dmp'' := Some e)))
    ((case left ''crash.dmp'' of None \<Rightarrow> id | Some e \<Rightarrow> (\<lambda>d. d(''crash_'' @ seed_tag s @ ''.dmp'' := Some e)))
    ((case left ''unicorn_outliers'' of None \<Rightarrow> id | Some e \<Rightarrow> if is_empty_entry e then id
       else (\<lambda>d. d(''outliers_'' @ seed_tag s := Some e)))
    ((case left ''findings'' of None \<Rightarrow> id | Some e \<Rightarrow> if is_empty_entry e then id
       else (\<lambda>d. d(''findings_'' @ seed_tag s := Some e))) arch)))"
  by (rule ext) (auto simp: archived_def outputs_def kept_def archived_as_def split: option.splits)

lemma archive_ok:
  assumes "renames st = sconst True"
  shows "renames (archive (seed_tag s) st) = sconst True \<and> clean_dir (exe_dir (archive (seed_tag s) st)) \<and>
    sweep_dir (archive (seed_tag s) st) = archived s (exe_dir st) (sweep_dir st)"
  using assms
  by (simp add: archive_def archive_dir_ok archive_dump_ok clean_dir_names archived_eq split: option.split)

text \<open>A sweep over distinct seeds: which archive entries are whose.\<close>

definition result_of :: "child_end \<times> directory \<Rightarrow> string \<Rightarrow> entry option \<Rightarrow> entry option" where
  "result_of r name old = (case r of (e, left) \<Rightarrow> if e \<noteq> LaunchFailed \<and> kept left name then left name else old)"

lemma archived_own: "name \<in> set outputs \<Longrightarrow> archived s left arch (archived_as s name) = (if kept left name then left name else arch (archived_as s name))"
proof -
  assume n: "name \<in> set outputs"
  have "find (\<lambda>m. kept left m \<and> archived_as s m = archived_as s name) outputs = (if kept left name then Some name else None)"
    using archived_as_inj [OF _ n, of _ s s] n unfolding outputs_def by auto
  then show ?thesis by (simp add: archived_def)
qed

lemma archived_other: "t \<noteq> s \<Longrightarrow> name \<in> set outputs \<Longrightarrow> archived s left arch (archived_as t name) = arch (archived_as t name)"
proof -
  assume n: "t \<noteq> s" "name \<in> set outputs"
  have "find (\<lambda>m. kept left m \<and> archived_as s m = archived_as t name) outputs = None"
    unfolding find_None_iff using archived_as_inj [OF _ n(2), of _ s t] n(1) by auto
  then show ?thesis by (simp add: archived_def)
qed

lemma sweep_child_ok:
  assumes "renames st = sconst True" "clean_dir (exe_dir st)" "sweep_child child s (st, ends) = (st1, ends1)"
  shows "renames st1 = sconst True \<and> clean_dir (exe_dir st1) \<and> (\<exists>d. clean_dir d \<and>
    ends1 = ends @ [fst (child s d)] \<and>
    sweep_dir st1 = (if fst (child s d) = LaunchFailed then sweep_dir st else archived s (snd (child s d)) (sweep_dir st)))"
proof -
  define d where "d = exe_dir (clear_dumps st)"
  have d: "clean_dir d" "renames (clear_dumps st) = sconst True" "sweep_dir (clear_dumps st) = sweep_dir st"
    using assms(1,2) by (simp_all add: d_def clear_dumps_def clean_dir_names)
  show ?thesis
  proof (cases "fst (child s d) = LaunchFailed")
    case True
    then have "st1 = clear_dumps st" "ends1 = ends @ [LaunchFailed]"
      using assms(3) by (auto simp: sweep_child_def Let_def d_def [symmetric] split_beta)
    then show ?thesis using d True by (auto simp: d_def [symmetric])
  next
    case False
    then have "st1 = archive (seed_tag s) ((clear_dumps st)\<lparr>exe_dir := snd (child s d)\<rparr>)" "ends1 = ends @ [fst (child s d)]"
      using assms(3) by (auto simp: sweep_child_def Let_def d_def [symmetric] split_beta)
    then show ?thesis
      using d False archive_ok [of "(clear_dumps st)\<lparr>exe_dir := snd (child s d)\<rparr>" s] by auto
  qed
qed

lemma sweep_fold_ok:
  assumes "renames st = sconst True" "clean_dir (exe_dir st)" "distinct ss" "fold (sweep_child child) ss (st, ends) = (st1, ends1)"
  shows "\<exists>ds. length ds = length ss \<and> list_all clean_dir ds \<and> ends1 = ends @ map2 (\<lambda>s d. fst (child s d)) ss ds \<and>
    (\<forall>i < length ss. \<forall>name \<in> set outputs. sweep_dir st1 (archived_as (ss ! i) name) =
       result_of (child (ss ! i) (ds ! i)) name (sweep_dir st (archived_as (ss ! i) name))) \<and>
    (\<forall>t name. t \<notin> set ss \<longrightarrow> name \<in> set outputs \<longrightarrow> sweep_dir st1 (archived_as t name) = sweep_dir st (archived_as t name))"
  using assms
proof (induction ss arbitrary: st ends)
  case (Cons s ss)
  obtain st2 ends2 where c: "sweep_child child s (st, ends) = (st2, ends2)" by fastforce
  obtain d where d: "renames st2 = sconst True" "clean_dir (exe_dir st2)" "clean_dir d" "ends2 = ends @ [fst (child s d)]"
    "sweep_dir st2 = (if fst (child s d) = LaunchFailed then sweep_dir st else archived s (snd (child s d)) (sweep_dir st))"
    using sweep_child_ok [OF Cons.prems(1,2) c] by blast
  obtain ds where ds: "length ds = length ss" "list_all clean_dir ds" "ends1 = ends2 @ map2 (\<lambda>s d. fst (child s d)) ss ds"
    "\<forall>i < length ss. \<forall>name \<in> set outputs. sweep_dir st1 (archived_as (ss ! i) name) =
       result_of (child (ss ! i) (ds ! i)) name (sweep_dir st2 (archived_as (ss ! i) name))"
    "\<forall>t name. t \<notin> set ss \<longrightarrow> name \<in> set outputs \<longrightarrow> sweep_dir st1 (archived_as t name) = sweep_dir st2 (archived_as t name)"
    using Cons.IH [OF d(1,2), of ends2] Cons.prems(3,4) c by auto
  have own: "sweep_dir st2 (archived_as s name) = result_of (child s d) name (sweep_dir st (archived_as s name))"
    if "name \<in> set outputs" for name
    using archived_own [OF that, of s "snd (child s d)" "sweep_dir st"] by (simp add: d(5) result_of_def split_beta)
  have other: "sweep_dir st2 (archived_as t name) = sweep_dir st (archived_as t name)"
    if "t \<noteq> s" "name \<in> set outputs" for t name
    using archived_other [OF that] by (simp add: d(5))
  show ?case
  proof (intro exI [of _ "d # ds"] conjI allI impI ballI)
    fix i name assume i: "i < length (s # ss)" and n: "name \<in> set outputs"
    show "sweep_dir st1 (archived_as ((s # ss) ! i) name) =
        result_of (child ((s # ss) ! i) ((d # ds) ! i)) name (sweep_dir st (archived_as ((s # ss) ! i) name))"
    proof (cases i)
      case 0
      then show ?thesis using own [OF n] ds(5) Cons.prems(3) n by simp
    next
      case (Suc j)
      then have "ss ! j \<noteq> s" using Cons.prems(3) i by (auto simp: in_set_conv_nth)
      then show ?thesis using Suc i ds(4) n other by simp
    qed
  qed (use d ds Cons.prems(3) other in auto)
qed simp

lemma distinct_sweep_seeds:
  assumes "n \<le> 2 ^ 32"
  shows "distinct (sweep_seeds_of base n)"
proof -
  have "i = j" if "i < n" "j < n" "mix_seed base (of_nat i) = mix_seed base (of_nat j)" for i j
  proof -
    have "(of_nat i :: u32) = of_nat j" using that(3) mix_seed_inj [of base] by (auto dest: injD)
    then have "unat (of_nat i :: u32) = unat (of_nat j :: u32)" by simp
    then show ?thesis using that(1,2) assms by (simp add: unsigned_of_nat take_bit_nat_eq_self)
  qed
  then show ?thesis by (auto simp: sweep_seeds_of_def distinct_map inj_on_def)
qed

subsection \<open>Properties of the archive\<close>

lemma sweep_archives:
  assumes "renames st = sconst True" "clean_dir (exe_dir st)" "n \<le> 2 ^ 32"
  shows "\<exists>ds. length ds = n \<and> list_all clean_dir ds \<and>
    snd (run_seed_sweep child base n st) = sweep_tally (map2 (\<lambda>s d. fst (child s d)) (sweep_seeds_of base n) ds) \<and>
    (\<forall>i \<in> {0..<n}. \<forall>name \<in> set outputs.
       sweep_dir (fst (run_seed_sweep child base n st)) (archived_as (sweep_seeds_of base n ! i) name) =
       result_of (child (sweep_seeds_of base n ! i) (ds ! i)) name (sweep_dir st (archived_as (sweep_seeds_of base n ! i) name)))"
proof -
  have l: "length (sweep_seeds_of base n) = n" by (simp add: sweep_seeds_of_def)
  obtain st1 ends where f: "fold (sweep_child child) (sweep_seeds_of base n) (st, []) = (st1, ends)" by fastforce
  obtain ds where ds: "length ds = n" "list_all clean_dir ds" "ends = map2 (\<lambda>s d. fst (child s d)) (sweep_seeds_of base n) ds"
    "\<forall>i < n. \<forall>name \<in> set outputs. sweep_dir st1 (archived_as (sweep_seeds_of base n ! i) name) =
       result_of (child (sweep_seeds_of base n ! i) (ds ! i)) name (sweep_dir st (archived_as (sweep_seeds_of base n ! i) name))"
    using sweep_fold_ok [OF assms(1,2) distinct_sweep_seeds [OF assms(3)] f] unfolding l append_Nil by blast
  have r: "run_seed_sweep child base n st = (st1, sweep_tally ends)" by (simp only: run_seed_sweep_def f prod.case)
  show ?thesis unfolding r fst_conv snd_conv
  proof (intro exI [of _ ds] conjI ballI)
    fix i name assume "i \<in> {0..<n}" "name \<in> set outputs"
    then show "sweep_dir st1 (archived_as (sweep_seeds_of base n ! i) name) =
        result_of (child (sweep_seeds_of base n ! i) (ds ! i)) name (sweep_dir st (archived_as (sweep_seeds_of base n ! i) name))"
      using ds(4) by (simp only: atLeastLessThan_iff)
  qed (rule ds(1), rule ds(2), simp only: ds(3))
qed

text \<open>
  C15: From a clean directory, and as long as no rename fails, every child of a sweep starts without output of
  an earlier one, and afterwards the archive of each seed is exactly what that seed's child left,
  the summary counting those children. An entry the child did not write keeps what an earlier sweep
  over the same base seed left there.
\<close>
theorem sweep_archive_is_own:
  assumes "renames st = sconst True" "clean_dir (exe_dir st)" "n \<le> 2 ^ 32"
  shows "\<exists>ds. length ds = n \<and> list_all clean_dir ds \<and>
    snd (run_seed_sweep child base n st) = sweep_tally (map2 (\<lambda>s d. fst (child s d)) (sweep_seeds_of base n) ds) \<and>
    (\<forall>i \<in> {0..<n}. \<forall>name \<in> set outputs.
       sweep_dir (fst (run_seed_sweep child base n st)) (archived_as (sweep_seeds_of base n ! i) name) =
       result_of (child (sweep_seeds_of base n ! i) (ds ! i)) name (sweep_dir st (archived_as (sweep_seeds_of base n ! i) name)))"
  by (rule sweep_archives [OF assms])

definition demo_fs :: sweep_fs where
  "demo_fs = \<lparr>exe_dir = (\<lambda>x. None), sweep_dir = (\<lambda>x. None), renames = sconst True\<rparr>"

definition one_finding :: entry where
  "one_finding = Dir [(''finding_000000.txt'', ''bytes: 90'')]"

definition finding_child :: child where
  "finding_child s d = (Exited 0, d(''findings'' := Some one_finding))"

theorem sweep_archive_is_own_witness:
  "sweep_dir (fst (run_seed_sweep finding_child 0 2 demo_fs)) (archived_as (sweep_seeds_of 0 2 ! 1) ''findings'') = Some one_finding"
proof -
  have "renames demo_fs = sconst True" "clean_dir (exe_dir demo_fs)" "(2 :: nat) \<le> 2 ^ 32"
    by (simp_all add: demo_fs_def clean_dir_def)
  from sweep_archive_is_own [OF this, of finding_child 0]
  obtain ds where "\<forall>i \<in> {0..<2}. \<forall>name \<in> set outputs.
      sweep_dir (fst (run_seed_sweep finding_child 0 2 demo_fs)) (archived_as (sweep_seeds_of 0 2 ! i) name) =
      result_of (finding_child (sweep_seeds_of 0 2 ! i) (ds ! i)) name (sweep_dir demo_fs (archived_as (sweep_seeds_of 0 2 ! i) name))"
    by blast
  then have "sweep_dir (fst (run_seed_sweep finding_child 0 2 demo_fs)) (archived_as (sweep_seeds_of 0 2 ! 1) ''findings'') =
      result_of (finding_child (sweep_seeds_of 0 2 ! 1) (ds ! 1)) ''findings'' (sweep_dir demo_fs (archived_as (sweep_seeds_of 0 2 ! 1) ''findings''))"
    by (elim ballE [of _ _ 1] ballE [of _ _ "''findings''"]) (simp_all add: outputs_def)
  then show ?thesis by (simp add: result_of_def finding_child_def kept_def one_finding_def is_empty_entry_def)
qed

text \<open>
  C31: Only the dumps are cleared before a child: a findings directory left beside the executable by an earlier,
  unrelated run is filed under the first seed of the next sweep, although that seed's child finished
  clean and wrote nothing.
\<close>
theorem stale_findings_are_filed:
  assumes "renames st = sconst True" "exe_dir st ''findings'' = Some e" "\<not> is_empty_entry e"
    and "child (mix_seed base 0) (exe_dir (clear_dumps st)) = (Exited 0, exe_dir (clear_dumps st))"
  shows "sweep_dir (fst (run_seed_sweep child base 1 st)) (archived_as (mix_seed base 0) ''findings'') = Some e \<and>
    s_clean (snd (run_seed_sweep child base 1 st)) = 1"
proof -
  define st1 where "st1 = clear_dumps st"
  have r: "renames st1 = sconst True" "exe_dir st1 ''findings'' = Some e" using assms(1,2) by (simp_all add: st1_def clear_dumps_def)
  have "run_seed_sweep child base 1 st = (archive (seed_tag (mix_seed base 0)) st1, sweep_tally [Exited 0])"
    using assms(4) by (simp add: run_seed_sweep_def sweep_seeds_of_def sweep_child_def Let_def st1_def)
  moreover have "kept (exe_dir st1) ''findings''" using r(2) assms(3) by (simp add: kept_def)
  ultimately show ?thesis
    using archive_ok [OF r(1), of "mix_seed base 0"] archived_own [of "''findings''" "mix_seed base 0" "exe_dir st1" "sweep_dir st1"] r(2)
    by (simp add: outputs_def sweep_tally_def count_child_def)
qed

theorem stale_findings_are_filed_witness:
  "sweep_dir (fst (run_seed_sweep (\<lambda>s d. (Exited 0, d)) 5 1 (demo_fs\<lparr>exe_dir := [''findings'' \<mapsto> one_finding]\<rparr>)))
     (archived_as (mix_seed 5 0) ''findings'') = Some one_finding"
  using stale_findings_are_filed [of "demo_fs\<lparr>exe_dir := [''findings'' \<mapsto> one_finding]\<rparr>" one_finding "\<lambda>s d. (Exited 0, d)" 5]
  by (simp add: demo_fs_def one_finding_def is_empty_entry_def)

text \<open>
  A rename that fails loses the findings: the directory is removed from beside the executable after the
  warning as after a success, and what an earlier sweep had archived under the seed is gone too.
\<close>
theorem failed_rename_loses_findings:
  assumes "shd (renames st) = False" "exe_dir st ''findings'' = Some e" "\<not> is_empty_entry e"
  shows "exe_dir (archive_dir (seed_tag s) ''findings'' ''findings_'' st) ''findings'' = None \<and>
    sweep_dir (archive_dir (seed_tag s) ''findings'' ''findings_'' st) (archived_as s ''findings'') = None"
  using assms by (simp add: archive_dir_def move_entry_def Let_def archived_as_def)

theorem failed_rename_loses_findings_witness:
  "exe_dir (archive_dir (seed_tag 7) ''findings'' ''findings_''
     \<lparr>exe_dir = [''findings'' \<mapsto> one_finding], sweep_dir = (\<lambda>x. Some one_finding), renames = sconst False\<rparr>) ''findings'' = None"
  using failed_rename_loses_findings [of "\<lparr>exe_dir = [''findings'' \<mapsto> one_finding], sweep_dir = (\<lambda>x. Some one_finding),
      renames = sconst False\<rparr>" one_finding 7]
  by (simp add: one_finding_def is_empty_entry_def)

end
