(* ===== verification/Program.thy ===== *)
theory Program
  imports Worker Sweep
begin

section \<open>The program\<close>

text \<open>
  The rest of \<^verbatim>\<open>src/main.cpp\<close>: what \<^verbatim>\<open>main\<close> does with its options, the workers it starts and how their
  counters add up, the one hand-written test case, the handler of the guarded build, and the watchdog
  as the loop it is, which waits for \<^verbatim>\<open>io_mutex\<close>. Workers run on their own here; what the threads share is
  the subject of \<open>tstep\<close>.
\<close>

subsection \<open>The watchdog's loop\<close>

text \<open>Taking a mutex blocks until it is free, which may be never; the stream says at which of the coming moments
  it is free for the thread that waits. The result is the moments from then on.\<close>

partial_function (option) lock_mutex :: "bool stream \<Rightarrow> bool stream option" where
  "lock_mutex free = (if shd free then Some free else lock_mutex (stl free))"

text \<open>Each poll sees a time and the heartbeats. Before it ends the process the watchdog takes \<^verbatim>\<open>io_mutex\<close> for its
  line. The loop may run for ever, and so may the wait, so the result is an option.\<close>

partial_function (option) run_watchdog :: "u32 \<Rightarrow> (u64 \<times> heartbeat list) stream \<Rightarrow> bool stream \<Rightarrow> wd_action option" where
  "run_watchdog watchdog_seconds polls io_mutex =
     (case watchdog_poll watchdog_seconds (fst (shd polls)) (snd (shd polls)) of
        WdSleep \<Rightarrow> run_watchdog watchdog_seconds (stl polls) io_mutex
      | WdReturn \<Rightarrow> Some WdReturn
      | WdKill w \<Rightarrow> (case lock_mutex io_mutex of None \<Rightarrow> None | Some unlocked \<Rightarrow> Some (WdKill w)))"

lemma lock_mutex_free: "free !! k \<Longrightarrow> lock_mutex free \<noteq> None"
proof (induction k arbitrary: free)
  case (Suc k)
  then show ?case by (subst lock_mutex.simps) simp
qed (simp add: lock_mutex.simps)

lemma lock_mutex_held:
  assumes "lock_mutex free = Some r"
  shows "\<exists>k. free !! k"
  using assms
proof (rule lock_mutex.raw_induct [where P = "\<lambda>free r. \<exists>k. free !! k", rotated])
  fix f and free r :: "bool stream"
  assume ih: "\<And>free r. f free = Some r \<Longrightarrow> \<exists>k. free !! k"
    and step: "(if shd free then Some free else f (stl free)) = Some r"
  show "\<exists>k. free !! k"
  proof (cases "shd free")
    case True
    then show ?thesis by (intro exI [of _ 0]) simp
  next
    case False
    then obtain k where "stl free !! k" using ih [of "stl free" r] step by auto
    then show ?thesis by (intro exI [of _ "Suc k"]) simp
  qed
qed

lemma lock_mutex_iff: "(lock_mutex free = None) = (\<forall>k. \<not> free !! k)"
  using lock_mutex_free lock_mutex_held by (cases "lock_mutex free") blast+

definition acted :: "bool stream \<Rightarrow> wd_action \<Rightarrow> wd_action option" where
  "acted io_mutex act = (if (\<exists>w. act = WdKill w) \<and> (\<forall>k. \<not> io_mutex !! k) then None else Some act)"

lemma run_watchdog_acts:
  "watchdog_poll ws (fst (shd polls)) (snd (shd polls)) \<noteq> WdSleep \<Longrightarrow>
    run_watchdog ws polls io = acted io (watchdog_poll ws (fst (shd polls)) (snd (shd polls)))"
  using lock_mutex_iff [of io]
  by (subst run_watchdog.simps) (auto simp: acted_def split: wd_action.split option.split)

lemma run_watchdog_sleeps:
  assumes "\<And>k. k < n \<Longrightarrow> watchdog_poll ws (fst (polls !! k)) (snd (polls !! k)) = WdSleep"
  shows "run_watchdog ws polls io = run_watchdog ws (sdrop n polls) io"
  using assms
proof (induction n arbitrary: polls)
  case (Suc n)
  have "run_watchdog ws (stl polls) io = run_watchdog ws (sdrop n (stl polls)) io"
    using Suc.prems [of "Suc k" for k] by (intro Suc.IH) simp
  moreover have "run_watchdog ws polls io = run_watchdog ws (stl polls) io"
    using Suc.prems [of 0] by (subst run_watchdog.simps) simp
  ultimately show ?case by simp
qed simp

text \<open>The first poll that does not send the watchdog back to sleep decides.\<close>

lemma run_watchdog_decides:
  assumes "\<And>k. k < n \<Longrightarrow> watchdog_poll ws (fst (polls !! k)) (snd (polls !! k)) = WdSleep"
    and "watchdog_poll ws (fst (polls !! n)) (snd (polls !! n)) = act" "act \<noteq> WdSleep"
  shows "run_watchdog ws polls io = acted io act"
proof -
  have "shd (sdrop n polls) = polls !! n" by (simp add: sdrop_simps)
  then have "run_watchdog ws (sdrop n polls) io = acted io act"
    using assms(2,3) run_watchdog_acts [of ws "sdrop n polls" io] by simp
  then show ?thesis using run_watchdog_sleeps [OF assms(1)] by simp
qed

lemma run_watchdog_first:
  assumes "watchdog_poll ws (fst (polls !! n)) (snd (polls !! n)) \<noteq> WdSleep"
  obtains m where "m \<le> n" "watchdog_poll ws (fst (polls !! m)) (snd (polls !! m)) \<noteq> WdSleep"
    "run_watchdog ws polls io = acted io (watchdog_poll ws (fst (polls !! m)) (snd (polls !! m)))"
proof -
  define m where "m = (LEAST k. watchdog_poll ws (fst (polls !! k)) (snd (polls !! k)) \<noteq> WdSleep)"
  have "watchdog_poll ws (fst (polls !! m)) (snd (polls !! m)) \<noteq> WdSleep" "m \<le> n"
    using assms unfolding m_def by (rule LeastI, rule Least_le)
  moreover have "watchdog_poll ws (fst (polls !! k)) (snd (polls !! k)) = WdSleep" if "k < m" for k
    using that not_less_Least unfolding m_def by blast
  ultimately show thesis using run_watchdog_decides that by blast
qed

lemma wd_scan_unfinished:
  assumes "i < length hbs" "\<not> hb_finished (hbs ! i)"
  shows "wd_scan w t now af hbs \<noteq> WdReturn"
  using assms
proof (induction hbs arbitrary: i w af)
  case (Cons hb hbs)
  show ?case
  proof (cases i)
    case 0
    then have "wd_scan v t now False hbs \<noteq> WdReturn" for v by (induction hbs arbitrary: v) auto
    then show ?thesis using 0 Cons.prems by simp
  next
    case (Suc j)
    then show ?thesis using Cons by simp
  qed
qed simp

lemma wd_scan_overdue:
  assumes "i < length hbs" "\<not> hb_finished (hbs ! i)" "t < now - last_tick_ms (hbs ! i)"
  shows "\<exists>v. wd_scan w t now af hbs = WdKill v"
  using assms
proof (induction hbs arbitrary: i w af)
  case (Cons hb hbs)
  then show ?case by (cases i) auto
qed simp

text \<open>
  C27: What bounds a hang, and what does not. Once some worker's heartbeat stops changing before the worker has
  finished, the watchdog decides to end the process within as many further polls as its timeout has seconds,
  plus one, provided each poll finds the clock at least a second later than the one before (the code sleeps
  two). It then ends the process if \<^verbatim>\<open>io_mutex\<close> is free at some moment after that, and if it never is,
  the worker having hung while it held it, the watchdog waits for ever itself.
\<close>
theorem hang_is_bounded:
  assumes "ws \<noteq> 0"
    and "\<And>k. i < length (snd (polls !! k)) \<and> \<not> hb_finished (snd (polls !! k) ! i)"
    and "\<And>k. k \<in> {k0..k0 + unat ws + 1} \<Longrightarrow> last_tick_ms (snd (polls !! k) ! i) = t0"
    and "unat t0 \<le> unat (fst (polls !! k0))"
    and "\<And>k. k \<in> {k0..<k0 + unat ws + 1} \<Longrightarrow> unat (fst (polls !! k)) + 1000 \<le> unat (fst (polls !! Suc k))"
  shows "\<exists>n v. n \<le> k0 + unat ws + 1 \<and> watchdog_poll ws (fst (polls !! n)) (snd (polls !! n)) = WdKill v \<and>
    run_watchdog ws polls io_mutex = (if \<exists>k. io_mutex !! k then Some (WdKill v) else None)"
proof -
  define e where "e = k0 + unat ws + 1"
  have clock: "unat (fst (polls !! k0)) + 1000 * d \<le> unat (fst (polls !! (k0 + d)))" if "d \<le> unat ws + 1" for d
    using that
  proof (induction d)
    case (Suc d)
    then show ?case using assms(5) [of "k0 + d"] by simp
  qed simp
  have late: "unat t0 + 1000 * (unat ws + 1) \<le> unat (fst (polls !! e))"
    using clock [of "unat ws + 1"] assms(4) by (simp add: e_def)
  then have "t0 \<le> fst (polls !! e)" by (simp add: word_le_nat_alt)
  then have "unat (fst (polls !! e) - t0) = unat (fst (polls !! e)) - unat t0" by (rule unat_sub)
  then have "ucast ws * 1000 < fst (polls !! e) - last_tick_ms (snd (polls !! e) ! i)"
    using late assms(3) [of e] by (simp add: e_def word_less_nat_alt timeout_value)
  then obtain v where "wd_scan 0 (ucast ws * 1000) (fst (polls !! e)) True (snd (polls !! e)) = WdKill v"
    using wd_scan_overdue assms(2) [of e] by blast
  then have "watchdog_poll ws (fst (polls !! e)) (snd (polls !! e)) \<noteq> WdSleep"
    using assms(1) by (simp add: watchdog_poll_def)
  then obtain n where n: "n \<le> e" "run_watchdog ws polls io_mutex = acted io_mutex (watchdog_poll ws (fst (polls !! n)) (snd (polls !! n)))"
    "watchdog_poll ws (fst (polls !! n)) (snd (polls !! n)) \<noteq> WdSleep"
    by (rule run_watchdog_first)
  moreover have "watchdog_poll ws (fst (polls !! n)) (snd (polls !! n)) \<noteq> WdReturn"
    unfolding watchdog_poll_def using wd_scan_unfinished [of i "snd (polls !! n)"] assms(1) assms(2) [of n] by simp
  moreover obtain v where "watchdog_poll ws (fst (polls !! n)) (snd (polls !! n)) = WdKill v"
    using calculation(3,4) by (metis wd_action.exhaust)
  ultimately show ?thesis unfolding e_def by (intro exI [of _ n] exI [of _ v]) (auto simp: acted_def)
qed

text \<open>A worker that hangs at once, polled every two seconds with a timeout of one, outside and inside
  \<^verbatim>\<open>io_mutex\<close>.\<close>

theorem hang_is_bounded_witness:
  "\<exists>v. run_watchdog 1 (smap (\<lambda>k. (of_nat (2000 * k), [\<lparr>last_tick_ms = 0, hb_local_i = 3, hb_finished = False\<rparr>])) (fromN 0))
       (sconst True) = Some (WdKill v) \<and>
   run_watchdog 1 (smap (\<lambda>k. (of_nat (2000 * k), [\<lparr>last_tick_ms = 0, hb_local_i = 3, hb_finished = False\<rparr>])) (fromN 0))
       (sconst False) = None"
proof -
  have u: "unat (of_nat (2000 * k) :: u64) = 2000 * k" if "k \<le> 3" for k
    using that by (simp add: unsigned_of_nat take_bit_nat_eq_self del: of_nat_mult)
  have "unat (2000 + of_nat (2000 * k) :: u64) = 2000 + 2000 * k" if "k < 2" for k
    using u [of "Suc k"] that by (simp del: of_nat_mult)
  with u show ?thesis
    using hang_is_bounded [of 1 0 "smap (\<lambda>k. (of_nat (2000 * k), [\<lparr>last_tick_ms = 0, hb_local_i = 3, hb_finished = False\<rparr>])) (fromN 0)"
        0 0 "sconst True"]
      hang_is_bounded [of 1 0 "smap (\<lambda>k. (of_nat (2000 * k), [\<lparr>last_tick_ms = 0, hb_local_i = 3, hb_finished = False\<rparr>])) (fromN 0)"
        0 0 "sconst False"]
    by (auto simp del: of_nat_mult)
qed

subsection \<open>What main does\<close>

datatype run_mode = SelfTest | SeedSweep | ProbeBsrZero | FuzzRun

text \<open>The arguments are those after the program's name.\<close>

definition main_mode :: "string list \<Rightarrow> options \<Rightarrow> run_mode" where
  "main_mode args opts =
     (if o_self_test opts then SelfTest
      else if 0 < o_sweep opts then SeedSweep
      else if args \<noteq> [] \<and> hd args = ''--probe-bsr-zero'' then ProbeBsrZero
      else FuzzRun)"

text \<open>The directory of the executable's path.\<close>

definition is_separator :: "char \<Rightarrow> bool" where
  "is_separator c \<longleftrightarrow> c = CHR ''/'' \<or> c = CHR 0x5C"

definition exe_dir_of :: "string \<Rightarrow> string" where
  "exe_dir_of p = (if \<not> list_ex is_separator p then ''.''
     else rev (tl (dropWhile (\<lambda>c. \<not> is_separator c) (rev p))))"

text \<open>The workers of a run, in the order they are started.\<close>

definition launch :: "u32 \<Rightarrow> string \<Rightarrow> options \<Rightarrow> worker_args list" where
  "launch hw_conc exe opts =
     (let threads = choose_threads hw_conc (o_threads opts) (o_iterations opts) in
      map (\<lambda>(w, share). \<lparr>a_worker_id = of_nat w, a_iterations = unat share, a_seed = o_seed opts,
          a_use_hw = o_use_hw opts, a_use_jit = o_use_jit opts,
          a_no_unicorn = o_no_unicorn opts, a_no_seven = o_no_seven opts, a_verbose_from = unat (o_verbose_from opts),
          a_findings_dir = exe_dir_of exe @ ''/findings'', a_outliers_dir = exe_dir_of exe @ ''/unicorn_outliers''\<rparr>)
        (enumerate 0 (shares threads (o_iterations opts))))"

text \<open>All workers, each with a session, a JIT and a clock of its own; the run ends when every one has.\<close>

definition fuzz_run :: "'j engines \<Rightarrow> (u32 \<Rightarrow> hw \<times> 'j \<times> u64 stream) \<Rightarrow> worker_args list \<Rightarrow> 'j worker list option" where
  "fuzz_run eng env as =
     those (map (\<lambda>a. case env (a_worker_id a) of (hw, j, clock) \<Rightarrow> run_worker eng a hw j clock) as)"

text \<open>What the shared counters hold at the end: each is only ever added to.\<close>

definition total_counters :: "counters list \<Rightarrow> counters" where
  "total_counters cs = \<lparr>finding_count = sum_list (map finding_count cs),
     unicorn_outlier_saved = sum_list (map unicorn_outlier_saved cs),
     unicorn_outlier_count = sum_list (map unicorn_outlier_count cs),
     hw_harness_errors = sum_list (map hw_harness_errors cs),
     generator_discards = sum_list (map generator_discards cs),
     total_done = sum_list (map total_done cs)\<rparr>"

definition done_line :: "counters \<Rightarrow> string" where
  "done_line c = ''done. findings='' @ fmt_u (finding_count c) @ '' unicorn_only_outliers='' @ fmt_u (unicorn_outlier_count c) @
     '' hw_harness_errors='' @ fmt_u (hw_harness_errors c) @ '' generator_discards='' @ fmt_u (generator_discards c) @ newline"

definition arg_seed :: "worker_args \<Rightarrow> u64" where
  "arg_seed a = mix_seed (a_seed a) (a_worker_id a)"

lemma launch_fields:
  "map a_worker_id (launch hc exe opts) = map of_nat [0..<unat (choose_threads hc (o_threads opts) (o_iterations opts))]"
  "map a_iterations (launch hc exe opts) =
     map unat (shares (choose_threads hc (o_threads opts) (o_iterations opts)) (o_iterations opts))"
  "a \<in> set (launch hc exe opts) \<Longrightarrow> a_seed a = o_seed opts \<and> a_use_hw a = o_use_hw opts"
  by (auto simp: launch_def Let_def enumerate_eq_zip zip_map_fst_snd comp_def split_beta length_shares
      intro!: nth_equalityI)

lemma launch_flags:
  "a \<in> set (launch hc exe opts) \<Longrightarrow>
     a_use_jit a = o_use_jit opts \<and> a_no_unicorn a = o_no_unicorn opts \<and> a_no_seven a = o_no_seven opts"
  by (auto simp: launch_def Let_def)

lemma of_nat_u32_inj: "i < unat (t :: u32) \<Longrightarrow> j < unat t \<Longrightarrow> (of_nat i :: u32) = of_nat j \<Longrightarrow> i = j"
proof -
  assume h: "i < unat t" "j < unat t" "(of_nat i :: u32) = of_nat j"
  then have "unat (of_nat i :: u32) = unat (of_nat j :: u32)" by simp
  then show "i = j" using h(1,2) unat_u32_less [of t] by (simp add: unsigned_of_nat take_bit_nat_eq_self)
qed

lemma launch_ids_distinct: "distinct (map a_worker_id (launch hc exe opts))"
  unfolding launch_fields(1) by (auto simp: distinct_map inj_on_def intro: of_nat_u32_inj)

lemma launch_seeds_distinct: "distinct (map arg_seed (launch hc exe opts))"
proof -
  have "map arg_seed (launch hc exe opts) = map (mix_seed (o_seed opts)) (map a_worker_id (launch hc exe opts))"
    using launch_fields(3) by (auto simp: arg_seed_def)
  then show ?thesis
    using launch_ids_distinct inj_on_subset [OF mix_seed_inj subset_UNIV] by (simp only: distinct_map [of "mix_seed _"])
qed

lemma launch_total: "sum_list (map a_iterations (launch hc exe opts)) = unat (o_iterations opts)"
  using shares_total choose_threads_bounds by (simp add: launch_fields(2))

lemma those_Some: "those xs = Some ys \<longleftrightarrow> xs = map Some ys"
proof (induction xs arbitrary: ys)
  case (Cons x xs)
  then show ?case by (cases ys) (auto split: option.splits)
qed auto

lemma fuzz_run_workers:
  "fuzz_run eng env as = Some ws \<longleftrightarrow>
     list_all2 (\<lambda>a w. (case env (a_worker_id a) of (hw, j, clock) \<Rightarrow> run_worker eng a hw j clock) = Some w) as ws"
  by (auto simp: fuzz_run_def those_Some list_all2_conv_all_nth list_eq_iff_nth_eq)

lemma fuzz_run_all:
  assumes "\<And>a. a \<in> set as \<Longrightarrow> \<exists>w. (case env (a_worker_id a) of (hw, j, clock) \<Rightarrow> run_worker eng a hw j clock) = Some w \<and> P a w"
  obtains ws where "fuzz_run eng env as = Some ws" "list_all2 P as ws"
proof -
  obtain f where f: "\<And>a. a \<in> set as \<Longrightarrow>
      (case env (a_worker_id a) of (hw, j, clock) \<Rightarrow> run_worker eng a hw j clock) = Some (f a) \<and> P a (f a)"
    using assms by metis
  show thesis
    by (rule that [of "map f as"]) (use f in \<open>simp_all add: fuzz_run_workers list_all2_conv_all_nth\<close>)
qed

lemma fuzz_run_final:
  assumes "fuzz_run eng env as = Some ws"
  shows "list_all2 (\<lambda>a w. worker_final eng (arg_seed a) (a_iterations a) w) as ws"
  using assms unfolding fuzz_run_workers
  by (rule list_all2_mono) (auto simp: arg_seed_def intro: run_worker_final split: prod.splits)

lemma sum_list_map2:
  assumes "list_all2 (\<lambda>a w. f w = g a) as ws"
  shows "sum_list (map f ws) = sum_list (map g as)"
  using assms by (induction rule: list_all2_induct) simp_all

lemma clean_run_totals:
  assumes "fuzz_run eng env (launch hc exe opts) = Some ws"
    and "list_all (\<lambda>w. list_all (\<lambda>m. \<not> crashed m) (w_log w)) ws"
  shows "total_done (total_counters (map w_counters ws)) = unat (o_iterations opts) \<and>
    distinct (map arg_seed (launch hc exe opts)) \<and>
    generator_discards (total_counters (map w_counters ws)) =
      (\<Sum>a \<leftarrow> launch hc exe opts. gen_discarded (nth_generator eng (arg_seed a) (a_iterations a)))"
proof -
  have f: "list_all2 (\<lambda>a w. total_done (w_counters w) = a_iterations a \<and>
      generator_discards (w_counters w) = gen_discarded (nth_generator eng (arg_seed a) (a_iterations a))) (launch hc exe opts) ws"
    using fuzz_run_final [OF assms(1)] assms(2)
    by (auto simp: list_all2_conv_all_nth list_all_length worker_final_def)
  have "list_all2 (\<lambda>a w. total_done (w_counters w) = a_iterations a) (launch hc exe opts) ws"
    "list_all2 (\<lambda>a w. generator_discards (w_counters w) = gen_discarded (nth_generator eng (arg_seed a) (a_iterations a)))
       (launch hc exe opts) ws"
    using f by (auto elim: list_all2_mono)
  from sum_list_map2 [OF this(1)] sum_list_map2 [OF this(2)] show ?thesis
    using launch_total launch_seeds_distinct by (simp add: total_counters_def comp_def)
qed

text \<open>
  C13: A run without a crash does what was asked: whatever the number of threads, the workers together complete
  exactly the requested iterations, each drawing from a generator with a seed of its own, and the
  discards that the last line prints are all the candidates these generators threw away.
\<close>
theorem clean_run_completes:
  assumes "fuzz_run eng env (launch hc exe opts) = Some ws"
    and "list_all (\<lambda>w. list_all (\<lambda>m. \<not> crashed m) (w_log w)) ws"
  shows "total_done (total_counters (map w_counters ws)) = unat (o_iterations opts) \<and>
    distinct (map arg_seed (launch hc exe opts)) \<and>
    generator_discards (total_counters (map w_counters ws)) =
      (\<Sum>a \<leftarrow> launch hc exe opts. gen_discarded (nth_generator eng (arg_seed a) (a_iterations a)))"
  by (rule clean_run_totals [OF assms])

text \<open>
  C30: What the watchdog advises does not reproduce the hang of any worker but the first: a rerun with
  \<^verbatim>\<open>--threads 1\<close> and the same seed has one worker, number 0, and its generator's seed is not that of any
  other worker of the original run, so that worker's iteration range is never reached.
\<close>
theorem one_thread_misses_other_workers:
  assumes "a \<in> set (launch hc exe opts)" "a_worker_id a \<noteq> 0"
  shows "map a_worker_id (launch hc exe (opts\<lparr>o_threads := 1\<rparr>)) = [0] \<and>
    arg_seed a \<notin> set (map arg_seed (launch hc exe (opts\<lparr>o_threads := 1\<rparr>)))"
proof -
  have "choose_threads hc 1 it = 1" for it
    by (auto simp: choose_threads_def Let_def word_less_nat_alt unat_eq_zero)
  then have ids: "map a_worker_id (launch hc exe (opts\<lparr>o_threads := 1\<rparr>)) = [0]" by (simp add: launch_fields(1))
  have "arg_seed a \<noteq> arg_seed b" if b: "b \<in> set (launch hc exe (opts\<lparr>o_threads := 1\<rparr>))" for b
  proof -
    have "a_worker_id b \<in> set (map a_worker_id (launch hc exe (opts\<lparr>o_threads := 1\<rparr>)))" using b by simp
    then have "a_worker_id b = 0" by (simp only: ids) simp
    moreover have "a_seed a = a_seed b" using launch_fields(3) [OF assms(1)] launch_fields(3) [OF b] by simp
    ultimately show ?thesis using assms(2) injD [OF mix_seed_inj] by (auto simp: arg_seed_def)
  qed
  then show ?thesis using ids by auto
qed

text \<open>
  C32: A sweep does not nest: every child reads back exactly the iterations, derived seed, hardware switch,
  engine, watchdog and explicit thread count its parent wrote, every other option at its default, and
  so takes the way of an ordinary run: it is no sweep of its own, no self-test and no probe. The
  parent's --no-unicorn, --no-seven and --verbose-from never reach it.
\<close>
theorem sweep_child_is_plain_run:
  "case sweep_args it cs hw jit wd th te of args \<Rightarrow>
     parse_args 1 args default_options =
       default_options\<lparr>o_iterations := it, o_seed := cs, o_use_hw := hw, o_use_jit := jit, o_watchdog := wd,
         o_threads := (if te then th else 0), o_threads_explicit := te\<rparr> \<and>
     main_mode args (parse_args 1 args default_options) = FuzzRun"
proof -
  obtain c s where c: "fmt_u (unat it) = c # s" "digit_value c < 10"
    unfolding fmt_u_def by (rule show_nat_first [of 10]) simp_all
  then have "c \<noteq> CHR ''-''" by (intro digit_not_special) simp
  then have "main_mode (sweep_args it cs hw jit wd th te) (default_options\<lparr>o_iterations := it, o_seed := cs,
      o_use_hw := hw, o_use_jit := jit, o_watchdog := wd, o_threads := (if te then th else 0), o_threads_explicit := te\<rparr>) = FuzzRun"
    using c(1) by (simp add: main_mode_def sweep_args_def default_options_def)
  then show ?thesis using sweep_child_options [of it cs hw jit wd th te] by simp
qed

subsection \<open>The probe of BSR with a zero source\<close>

definition probe_case :: test_case where
  "probe_case = tc_default\<lparr>tc_bytes := [0x0F, 0xBD, 0x17], tc_text := ''0F BD 17 (BSR EDX,[RDI])'',
     tc_touches_memory := True, tc_flags_mask := 0x40,
     tc_initial := reg_default\<lparr>gpr := (replicate 16 0x1122334455667788)[4 := kStackTop, 7 := kDataBase], rflags := 0x202\<rparr>\<rparr>"

definition probe_lines :: "lane_outcome \<Rightarrow> lane_outcome \<Rightarrow> lane_outcome \<Rightarrow> string list" where
  "probe_lines s u h =
     [''initial RDX = '' @ fmt_X 16 (gpr (tc_initial probe_case) ! 2) @ newline,
      ''seven:   stop='' @ stop_name (stop s) @ '' RDX='' @ fmt_X 16 (gpr (after s) ! 2) @ newline,
      ''unicorn: stop='' @ stop_name (stop u) @ '' RDX='' @ fmt_X 16 (gpr (after u) ! 2) @ newline,
      ''hw:      stop='' @ stop_name (stop h) @ (if setup_ok h then [] else '' ('' @ setup_error h @ '')'') @
        '' RDX='' @ fmt_X 16 (gpr (after h) ! 2) @ newline]"

text \<open>Exit code and output, from the two engines and the session.\<close>

definition probe_bsr_zero :: "(test_case \<Rightarrow> lane_outcome) \<Rightarrow> (test_case \<Rightarrow> lane_outcome) \<Rightarrow> hw \<Rightarrow> (u32 \<times> string list) option" where
  "probe_bsr_zero seven unicorn s =
     (case ensure_ready s of
        None \<Rightarrow> None
      | Some (Some herr, s) \<Rightarrow> Some (1, [''hardware unavailable: '' @ herr @ newline])
      | Some (None, s) \<Rightarrow> (case run_one probe_case s of
            None \<Rightarrow> None
          | Some (h, s) \<Rightarrow> Some (0, probe_lines (seven probe_case) (unicorn probe_case) h)))"

text \<open>The case meets the contract of the lanes: they start it alike.\<close>

lemma probe_case_ok: "tc_ok probe_case"
proof -
  have "x87_shape x87_default" by (simp add: x87_shape_def x87_default_def)
  then show ?thesis using default_well_tagged
    by (simp add: probe_case_def tc_ok_def tc_default_def reg_shape_def reg_default_def kPageSize_def)
qed

lemma probe_case_reads_zero: "take 4 (tc_data_seed probe_case) = replicate 4 0"
  by (simp add: probe_case_def tc_default_def kDataWindow_def)

subsection \<open>The guarded build\<close>

datatype handler_end = ContinueSearch | Terminate string u32

text \<open>The vectored handler; the parameter tells how far an address is past the payload of a guest page, if
  it lies in a guard page.\<close>

definition report_guard_page_escape :: "(u64 \<Rightarrow> nat option) \<Rightarrow> exception_record \<Rightarrow> handler_end" where
  "report_guard_page_escape classify rec =
     (if ExceptionCode rec \<noteq> EXCEPTION_ACCESS_VIOLATION \<or> NumberParameters rec < 2 then ContinueSearch
      else (case classify (ExceptionInformation rec ! 1) of
        None \<Rightarrow> ContinueSearch
      | Some past \<Rightarrow> Terminate
          (''[escape] '' @ (if ExceptionInformation rec ! 0 \<noteq> 0 then ''a store'' else ''a load'') @ '' at '' @
           fmt_X 16 (ExceptionInformation rec ! 1) @ '' ran '' @ fmt_u past @
           '' bytes past the end of a guest page -- faulting ip '' @ fmt_X 16 (ExceptionAddress rec) @ newline)
          0xE5CA9E))"

text \<open>The self-test: what the store past the probe page raises, if it faults, goes to the handler; a fault
  that the handler passes on is another crash.\<close>

definition self_test_escape :: "bool \<Rightarrow> bool \<Rightarrow> exception_record option \<Rightarrow> (u64 \<Rightarrow> nat option) \<Rightarrow> u32 \<Rightarrow> u32" where
  "self_test_escape guarded_build probe_mapped store_fault classify crash_code =
     (if \<not> guarded_build then 2
      else if \<not> probe_mapped then 2
      else (case store_fault of
        None \<Rightarrow> 2
      | Some rec \<Rightarrow> (case report_guard_page_escape classify rec of
            ContinueSearch \<Rightarrow> crash_code
          | Terminate msg code \<Rightarrow> code)))"

text \<open>The run is trustworthy only when it dies of the escape: no other end has that exit code.\<close>

lemma self_test_armed:
  assumes "crash_code \<noteq> 0xE5CA9E"
  shows "self_test_escape g p fault classify crash_code = 0xE5CA9E \<longleftrightarrow>
    g \<and> p \<and> (\<exists>rec. fault = Some rec \<and> ExceptionCode rec = EXCEPTION_ACCESS_VIOLATION \<and> 2 \<le> NumberParameters rec \<and>
      classify (ExceptionInformation rec ! 1) \<noteq> None)"
  using assms
  by (auto simp: self_test_escape_def report_guard_page_escape_def split: option.splits)

text \<open>A sweep counts a child that an escape ended as crashed.\<close>

lemma escape_counts_as_crash: "s_crashed (sweep_tally [Exited 0xE5CA9E]) = 1"
  by (simp add: sweep_tally_def count_child_def)

subsection \<open>Witnesses\<close>

definition idle_env :: "u32 \<Rightarrow> hw \<times> unit \<times> u64 stream" where
  "idle_env w = (demo_hw (sconst (None, \<lambda>v. v)), (), sconst 3)"

definition idle_options :: options where
  "idle_options = default_options\<lparr>o_iterations := 3, o_threads := 2, o_use_hw := False, o_no_seven := True\<rparr>"

lemma idle_run: "\<exists>ws. fuzz_run idle_engines idle_env (launch 8 ''C:/f.exe'' idle_options) = Some ws \<and>
    list_all (\<lambda>w. list_all (\<lambda>m. \<not> crashed m) (w_log w)) ws"
proof -
  have "a_use_hw a = False \<and> a_no_seven a" if "a \<in> set (launch 8 ''C:/f.exe'' idle_options)" for a
    using that by (auto simp: launch_def Let_def idle_options_def)
  then have "\<exists>w. (case idle_env (a_worker_id a) of (hw, j, clock) \<Rightarrow> run_worker idle_engines a hw j clock) = Some w \<and>
      list_all (\<lambda>m. \<not> crashed m) (w_log w)" if "a \<in> set (launch 8 ''C:/f.exe'' idle_options)" for a
  proof -
    have a: "\<not> a_use_hw a" "a_no_seven a"
      using that \<open>\<And>a. a \<in> set (launch 8 ''C:/f.exe'' idle_options) \<Longrightarrow> a_use_hw a = False \<and> a_no_seven a\<close> by blast+
    obtain w where w: "run_worker idle_engines a (demo_hw (sconst (None, \<lambda>v. v))) () (sconst 3) = Some w"
      using run_worker_returns [OF a(1), of idle_engines "demo_hw (sconst (None, \<lambda>v. v))" "()" "sconst 3"] by auto
    have "\<exists>x. compute idle_engines a tc j = Inr x" for tc j
      using a(2) by (simp add: compute_def idle_engines_def)
    from run_worker_no_crash [OF this w] show ?thesis using w by (simp add: idle_env_def)
  qed
  then obtain ws where "fuzz_run idle_engines idle_env (launch 8 ''C:/f.exe'' idle_options) = Some ws"
    "list_all2 (\<lambda>a w. list_all (\<lambda>m. \<not> crashed m) (w_log w)) (launch 8 ''C:/f.exe'' idle_options) ws"
    by (rule fuzz_run_all)
  then show ?thesis by (auto simp: list_all2_conv_all_nth list_all_length)
qed

theorem clean_run_completes_witness:
  "\<exists>ws. fuzz_run idle_engines idle_env (launch 8 ''C:/f.exe'' idle_options) = Some ws \<and>
    total_done (total_counters (map w_counters ws)) = 3"
proof -
  have it: "unat (o_iterations idle_options) = 3" by (simp add: idle_options_def default_options_def)
  obtain ws where ws: "fuzz_run idle_engines idle_env (launch 8 ''C:/f.exe'' idle_options) = Some ws"
    "list_all (\<lambda>w. list_all (\<lambda>m. \<not> crashed m) (w_log w)) ws"
    using idle_run by blast
  from clean_run_completes [OF ws] have "total_done (total_counters (map w_counters ws)) = 3" unfolding it by blast
  with ws(1) show ?thesis by blast
qed

theorem one_thread_misses_other_workers_witness:
  "arg_seed (launch 8 ''C:/f.exe'' idle_options ! 1) \<notin>
     set (map arg_seed (launch 8 ''C:/f.exe'' (idle_options\<lparr>o_threads := 1\<rparr>)))"
proof -
  have t: "unat (choose_threads 8 (o_threads idle_options) (o_iterations idle_options)) = 2"
    by (simp add: idle_options_def default_options_def choose_threads_def)
  have ids: "map a_worker_id (launch 8 ''C:/f.exe'' idle_options) = map of_nat [0..<2]"
    unfolding launch_fields(1) t ..
  then have l: "length (launch 8 ''C:/f.exe'' idle_options) = 2" using map_eq_imp_length_eq [OF ids] by simp
  have "a_worker_id (launch 8 ''C:/f.exe'' idle_options ! 1) = map a_worker_id (launch 8 ''C:/f.exe'' idle_options) ! 1"
    using l by simp
  also have "\<dots> = 1" unfolding ids by simp
  finally have "a_worker_id (launch 8 ''C:/f.exe'' idle_options ! 1) = 1" .
  then show ?thesis
    using one_thread_misses_other_workers [of "launch 8 ''C:/f.exe'' idle_options ! 1" 8 "''C:/f.exe''" idle_options] l by simp
qed

end
