(* ===== verification/HwRun.thy ===== *)
theory HwRun
  imports Program
begin

section \<open>Runs with the hardware lane\<close>

text \<open>
  A worker of \<^verbatim>\<open>src/main.cpp\<close> whose hardware session answers every one of its test cases. \<open>serves\<close> follows the
  session of \<^verbatim>\<open>src/lanes/hardware_lane.cpp\<close> through the cases, respawns included; \<open>windows\<close> is the sequence of
  debug events that makes it answer. The lemmas carry the answers through the worker's loop to the counters.
\<close>

fun serves :: "(test_case \<Rightarrow> lane_outcome \<Rightarrow> bool) \<Rightarrow> test_case list \<Rightarrow> hw \<Rightarrow> bool" where
  "serves R [] s = True"
| "serves R (tc # tcs) s = (case run_one tc s of None \<Rightarrow> False | Some (h, s1) \<Rightarrow> R tc h \<and> serves R tcs s1)"

subsection \<open>A system that serves\<close>

text \<open>
  What the debug interface delivers to a session on account of one case: the birth of a new victim, if the case
  needs one; events that \<open>run_one\<close> passes over; the exception the step ends in, with what has happened to the
  victim by then; and, if the victim is replaced afterwards, what \<open>drain_to_exit\<close> is answered. Every victim
  has its own birth, with its own process, thread and handles.
\<close>

type_synonym answer = "debug_event option \<times> (victim \<Rightarrow> victim)"

record visit =
  v_birth :: "answer list"
  v_noise :: "answer list"
  v_event :: debug_event
  v_rec :: exception_record
  v_effect :: "victim \<Rightarrow> victim"
  v_drain :: "answer list"

definition replaces :: "exception_record \<Rightarrow> nat \<Rightarrow> bool" where
  "replaces rec steps \<longleftrightarrow> map_exception rec \<noteq> Stop_ok \<or> kRespawnEvery \<le> steps + 1"

fun windows :: "bool \<Rightarrow> nat \<Rightarrow> visit list \<Rightarrow> answer list" where
  "windows alive steps [] = []"
| "windows alive steps (x # xs) =
     (if alive then [] else v_birth x) @ v_noise x @ (Some (v_event x), v_effect x) #
     (let n = (if alive then steps else 0) in
      if replaces (v_rec x) n then v_drain x @ windows False 0 xs else windows True (n + 1) xs)"

text \<open>A birth: events to continue, the process's creation among them, up to the loader's breakpoint.\<close>

definition gives_process :: "answer \<Rightarrow> bool" where
  "gives_process x \<longleftrightarrow> (\<exists>de f t p. fst x = Some de \<and> event_info de = CREATE_PROCESS f t (Some p))"

definition quiet_event :: "answer \<Rightarrow> bool" where
  "quiet_event x \<longleftrightarrow> (\<exists>de. fst x = Some de \<and> \<not> is_exception de \<and> \<not> is_exit de)"

definition birth_ok :: "answer list \<Rightarrow> bool" where
  "birth_ok b \<longleftrightarrow> (\<exists>pre bp f. b = pre @ [(Some bp, f)] \<and> list_all quiet_event pre \<and> list_ex gives_process pre \<and>
     length pre \<le> kMaxUninterestingEvents \<and> is_breakpoint bp)"

text \<open>The answers while the old victim is drained. The event that stopped it has not been continued, so none
  may come and the wait times out; the loop also ends with the exit of the process or after 50 events.\<close>

definition drain_event :: "answer \<Rightarrow> bool" where
  "drain_event x \<longleftrightarrow> (\<exists>de. fst x = Some de \<and> \<not> is_exit de)"

definition drain_end :: "answer \<Rightarrow> bool" where
  "drain_end x \<longleftrightarrow> (case fst x of None \<Rightarrow> True | Some de \<Rightarrow> is_exit de)"

definition drain_ok :: "answer list \<Rightarrow> bool" where
  "drain_ok ds \<longleftrightarrow> length ds \<le> 50 \<and> ds \<noteq> [] \<and> list_all drain_event (butlast ds) \<and> (drain_end (last ds) \<or> length ds = 50)"

lemma adopt_fields [simp]: "waits (adopt de s) = waits s" "oks (adopt de s) = oks s"
  by (simp_all add: adopt_def close_opt_def CloseHandle_def log_def Let_def split: event_info.splits option.splits)

lemma call_fields [simp]:
  "waits (ContinueDebugEvent de s) = waits s" "oks (ContinueDebugEvent de s) = oks s" "process (ContinueDebugEvent de s) = process s"
  "oks (close_opt h s) = oks s" "waits (close_opt h s) = waits s" "waits (log c s) = waits s" "oks (log c s) = oks s"
  by (simp_all add: ContinueDebugEvent_def close_opt_def CloseHandle_def log_def split: option.splits)

lemma adopt_process: "process s \<noteq> None \<or> (\<exists>f t p. event_info de = CREATE_PROCESS f t (Some p)) \<Longrightarrow> process (adopt de s) \<noteq> None"
  by (auto simp: adopt_def close_opt_def CloseHandle_def log_def Let_def split: event_info.splits option.splits)

lemma breakpoint_exception: "is_breakpoint de \<Longrightarrow> is_exception de \<and> \<not> is_exit de"
  by (auto simp: is_breakpoint_def is_exception_def is_exit_def split: event_info.splits)

lemma spawn_pump_birth:
  assumes "waits s = pre @- (Some bp, f) ## w" "list_all quiet_event pre" "n + length pre \<le> kMaxUninterestingEvents"
    "is_breakpoint bp"
  shows "\<exists>t. spawn_pump n s = Some (Inr bp, t) \<and> waits t = w \<and> oks t = oks s \<and>
    (process s \<noteq> None \<or> list_ex gives_process pre \<longrightarrow> process t \<noteq> None)"
  using assms
proof (induction pre arbitrary: n s)
  case Nil
  then show ?case using breakpoint_exception [of bp]
    by (subst spawn_pump.simps) (simp add: WaitForDebugEvent_def log_def)
next
  case (Cons x pre)
  obtain de g where x: "x = (Some de, g)" "\<not> is_exception de" "\<not> is_exit de"
    using Cons.prems(2) by (cases x) (auto simp: quiet_event_def)
  obtain s0 where s0: "WaitForDebugEvent s = (Some de, s0)" "waits s0 = pre @- (Some bp, f) ## w" "oks s0 = oks s" "process s0 = process s"
    using Cons.prems(1) x by (simp add: WaitForDebugEvent_def log_def)
  define s1 where "s1 = ContinueDebugEvent de (adopt de s0)"
  have s1: "waits s1 = pre @- (Some bp, f) ## w" "oks s1 = oks s" by (simp_all add: s1_def s0)
  have "\<not> is_breakpoint de" using x(2) breakpoint_exception by blast
  then have "spawn_pump n s = spawn_pump (n + 1) s1"
    using x Cons.prems(3) by (subst spawn_pump.simps) (simp add: s0(1) s1_def)
  moreover obtain t where "spawn_pump (n + 1) s1 = Some (Inr bp, t)" "waits t = w" "oks t = oks s1"
    "process s1 \<noteq> None \<or> list_ex gives_process pre \<longrightarrow> process t \<noteq> None"
    using Cons.IH [OF s1(1) _ _ Cons.prems(4), of "n + 1"] Cons.prems(2,3) by auto
  moreover have "process s1 \<noteq> None" if "process s \<noteq> None \<or> gives_process x"
    using that adopt_process [of s0 de] s0(4) by (auto simp: s1_def gives_process_def x(1))
  ultimately show ?case using s1(2) by auto
qed

lemma ensure_ready_birth:
  assumes "\<not> ready s" "process s = None" "thread s = None" "job s = None" "oks s = sconst True" "waits s = b @- w" "birth_ok b"
  shows "\<exists>t. ensure_ready s = Some (None, t) \<and> ready t \<and> oks t = sconst True \<and> waits t = w \<and> process t \<noteq> None \<and>
    steps_since_respawn t = 0"
proof -
  obtain pre bp f where b: "b = pre @ [(Some bp, f)]" "list_all quiet_event pre" "list_ex gives_process pre"
    "length pre \<le> kMaxUninterestingEvents" "is_breakpoint bp"
    using assms(7) unfolding birth_ok_def by blast
  define s1 where "s1 = teardown s"
  have s1: "oks s1 = sconst True" "waits s1 = b @- w"
    using assms by (simp_all add: s1_def teardown_def drain_to_exit_def close_opt_def Let_def)
  obtain tok s2 where s2: "build_restricted_token s1 = (Inr tok, s2)" "oks s2 = sconst True" "waits s2 = b @- w"
    using s1 by (simp add: build_restricted_token_def api_ok_True new_handle_def CloseHandle_def log_def Let_def)
  obtain s3 where s3: "launch_victim tok s2 = (None, s3)" "oks s3 = sconst True" "waits s3 = b @- w"
    using s2 by (simp add: launch_victim_def api_ok_True new_handle_def CloseHandle_def close_opt_def log_def Let_def)
  have w3: "waits s3 = pre @- (Some bp, f) ## w" using s3(3) b(1) by simp
  obtain t where t: "spawn_pump 0 s3 = Some (Inr bp, t)" "waits t = w" "oks t = sconst True" "process t \<noteq> None"
    using spawn_pump_birth [OF w3 b(2) _ b(5), of 0] b(3,4) s3(2) by auto
  have "attach s3 = Some (None, t\<lparr>pending_event := Some bp, ready := True, steps_since_respawn := 0\<rparr>)"
    using t by (simp add: attach_def api_ok_True Let_def)
  then show ?thesis using assms(1) t
    by (simp add: ensure_ready_def spawn_fresh_def s1_def [symmetric] s2(1) s3(1))
qed

lemma drain_loop_answers:
  assumes "waits s = ds @- w" "list_all drain_event (butlast ds)" "ds \<noteq> [] \<or> n = 0" "length ds \<le> n"
    "ds \<noteq> [] \<Longrightarrow> drain_end (last ds) \<or> length ds = n"
  shows "waits (drain_loop n s) = w \<and> oks (drain_loop n s) = oks s"
  using assms
proof (induction n s arbitrary: ds rule: drain_loop.induct)
  case (2 n s)
  then obtain e g xs where ds: "ds = (e, g) # xs" by (cases ds) auto
  obtain s1 where s1: "WaitForDebugEvent s = (e, s1)" "waits s1 = xs @- w" "oks s1 = oks s"
    using 2(2) by (simp add: ds WaitForDebugEvent_def log_def)
  show ?case
  proof (cases "drain_end (e, g)")
    case True
    have "xs = []"
      using True 2(3) by (cases xs) (auto simp: ds drain_event_def drain_end_def)
    then show ?thesis using True s1 by (auto simp: drain_end_def split: option.splits)
  next
    case False
    then obtain de where de: "e = Some de" "\<not> is_exit de" by (auto simp: drain_end_def split: option.splits)
    have "waits (drain_loop n (ContinueDebugEvent de s1)) = w \<and>
        oks (drain_loop n (ContinueDebugEvent de s1)) = oks (ContinueDebugEvent de s1)"
    proof (rule "2.IH" [OF s1(1) [symmetric] de(1), where ds = xs])
      show "list_all drain_event (butlast xs)" using 2(3) by (cases xs) (auto simp: ds)
      show "xs \<noteq> [] \<or> n = 0" using 2(5,6) False by (cases xs) (auto simp: ds)
      show "xs \<noteq> [] \<Longrightarrow> drain_end (last xs) \<or> length xs = n" using 2(6) by (auto simp: ds split: if_splits)
    qed (use de s1 2(5) in \<open>simp_all add: ds\<close>)
    then show ?thesis using de s1 by simp
  qed
qed simp

lemma teardown_drain:
  assumes "process s \<noteq> None" "waits s = ds @- w" "drain_ok ds"
  shows "waits (teardown s) = w \<and> oks (teardown s) = oks s"
proof -
  obtain p where p: "process s = Some p" using assms(1) by blast
  have "waits (drain_loop 50 (log (CallTerminate p) s)) = w \<and>
      oks (drain_loop 50 (log (CallTerminate p) s)) = oks (log (CallTerminate p) s)"
    by (rule drain_loop_answers [where ds = ds]) (use assms(2,3) in \<open>auto simp: drain_ok_def log_def\<close>)
  then show ?thesis by (simp add: teardown_def drain_to_exit_def p Let_def)
qed

lemma run_one_ensured: "ensure_ready s = Some (None, t) \<Longrightarrow> ready t \<Longrightarrow> run_one tc s = run_one tc t"
  by (simp add: run_one_def ensure_ready_def)

text \<open>A session standing as \<open>windows\<close> says, ready or to be started afresh.\<close>

definition stands :: "bool \<Rightarrow> nat \<Rightarrow> hw \<Rightarrow> bool" where
  "stands alive n s \<longleftrightarrow> oks s = sconst True \<and>
     (if alive then ready s \<and> process s \<noteq> None \<and> steps_since_respawn s = n
      else \<not> ready s \<and> process s = None \<and> thread s = None \<and> job s = None)"

text \<open>What a case may bring: the exception is what the instruction set answers on the case, and by the time it
  comes the victim has done what the instruction does.\<close>

definition visit_ok :: "isa \<Rightarrow> test_case \<Rightarrow> visit \<Rightarrow> bool" where
  "visit_ok isa tc x \<longleftrightarrow> birth_ok (v_birth x) \<and> drain_ok (v_drain x) \<and>
     list_all (\<lambda>y. noise (fst y)) (v_noise x) \<and> length (v_noise x) \<le> kMaxUninterestingEvents \<and>
     exception_of (v_event x) = Some (v_rec x) \<and>
     (\<forall>v. victim_implements isa tc (v_rec x) (\<lambda>v. v_effect x (passed (v_noise x) v)) v)"

lemma windows_step:
  assumes "stands alive n s" "waits s = windows alive n (x # xs) @- w" "tc_ok tc" "visit_ok isa tc x"
  shows "\<exists>h t alive' n'. run_one tc s = Some (h, t) \<and> reports True (isa (start_machine tc)) h \<and>
    stands alive' n' t \<and> waits t = windows alive' n' xs @- w"
proof -
  define m where "m = (if alive then n else 0)"
  define rest where "rest = (if replaces (v_rec x) m then v_drain x @ windows False 0 xs else windows True (m + 1) xs)"
  have ok: "birth_ok (v_birth x)" "drain_ok (v_drain x)" "list_all (\<lambda>y. noise (fst y)) (v_noise x)"
    "length (v_noise x) \<le> kMaxUninterestingEvents" "exception_of (v_event x) = Some (v_rec x)"
    "\<And>v. victim_implements isa tc (v_rec x) (\<lambda>v. v_effect x (passed (v_noise x) v)) v"
    using assms(4) by (simp_all add: visit_ok_def)
  obtain s0 where s0: "ensure_ready s = Some (None, s0)" "ready s0" "oks s0 = sconst True"
    "waits s0 = (v_noise x @ (Some (v_event x), v_effect x) # rest) @- w" "process s0 \<noteq> None" "steps_since_respawn s0 = m"
  proof (cases alive)
    case True
    then show ?thesis using assms(1,2)
      by (intro that [of s]) (simp_all add: stands_def m_def rest_def ensure_ready_def Let_def)
  next
    case False
    have "waits s = v_birth x @- (v_noise x @ (Some (v_event x), v_effect x) # rest) @- w"
      using assms(2) False by (simp add: m_def rest_def Let_def)
    then show ?thesis
      using ensure_ready_birth [of s "v_birth x" "(v_noise x @ (Some (v_event x), v_effect x) # rest) @- w"] assms(1) ok(1) False that
      by (auto simp: stands_def m_def)
  qed
  have wt: "waits s0 = v_noise x @- (Some (v_event x), v_effect x) ## (rest @- w)" using s0(4) by simp
  define h where "h = step_outcome (v_rec x) (v_effect x (passed (v_noise x) (prepared tc (vic s0))))"
  obtain t where t: "run_one tc s0 = Some (h, finish_round h t)" "waits t = rest @- w" "oks t = sconst True" "ready t"
    "steps_since_respawn t = m" "process t \<noteq> None"
    using run_one_session_after [OF s0(2,3) wt ok(3-5), of tc] s0(5,6) unfolding h_def by auto
  have "reports True (isa (start_machine tc)) h"
    using run_one_reports_after [OF assms(3) s0(2,3) wt ok(3-6)] t(1) by simp
  moreover have "run_one tc s = Some (h, finish_round h t)"
    using run_one_ensured [OF s0(1,2)] t(1) by simp
  moreover have "\<exists>alive' n'. stands alive' n' (finish_round h t) \<and> waits (finish_round h t) = windows alive' n' xs @- w"
  proof (cases "replaces (v_rec x) m")
    case True
    define t1 where "t1 = t\<lparr>steps_since_respawn := m + 1\<rparr>"
    have f: "finish_round h t = teardown t1"
      using True t(5) by (simp add: finish_round_def h_def step_outcome_def replaces_def t1_def Let_def)
    have "waits (teardown t1) = windows False 0 xs @- w \<and> oks (teardown t1) = oks t1"
      using teardown_drain [of t1 "v_drain x" "windows False 0 xs @- w"] t(2,6) ok(2) True by (simp add: t1_def rest_def)
    moreover have "\<not> ready (teardown t1)" "process (teardown t1) = None" "thread (teardown t1) = None" "job (teardown t1) = None"
      using torn_teardown [of t1] by (simp_all add: torn_def)
    ultimately show ?thesis using t(3) unfolding f
      by (intro exI [of _ False] exI [of _ 0]) (simp add: stands_def t1_def)
  next
    case False
    then have "finish_round h t = t\<lparr>steps_since_respawn := m + 1\<rparr>"
      using t(5) by (auto simp: finish_round_def h_def step_outcome_def replaces_def Let_def)
    then show ?thesis using t False
      by (intro exI [of _ True] exI [of _ "m + 1"]) (simp add: stands_def rest_def)
  qed
  ultimately show ?thesis by blast
qed

text \<open>Such a system serves every sequence of cases on which the victim implements the instruction set, faults
  and replacements of the victim included.\<close>

lemma windows_serves:
  assumes "list_all2 (visit_ok isa) tcs xs" "stands alive n s" "waits s = windows alive n xs @- w" "\<And>tc. tc \<in> set tcs \<Longrightarrow> tc_ok tc"
  shows "serves (\<lambda>tc h. reports True (isa (start_machine tc)) h) tcs s"
  using assms
proof (induction tcs xs arbitrary: s alive n rule: list_all2_induct)
  case (Cons tc tcs x xs)
  then obtain h t alive' n' where r: "run_one tc s = Some (h, t)" "reports True (isa (start_machine tc)) h"
    and t: "stands alive' n' t" "waits t = windows alive' n' xs @- w"
    using windows_step [OF Cons.prems(1,2) Cons.prems(3) Cons.hyps(1)] by auto
  have "serves (\<lambda>tc h. reports True (isa (start_machine tc)) h) tcs t"
    by (rule Cons.IH [OF t Cons.prems(3)]) simp
  then show ?case using r by simp
qed simp

text \<open>A new session whose events are a birth and then what the cases bring.\<close>

definition well_behaved :: "isa \<Rightarrow> test_case list \<Rightarrow> hw \<Rightarrow> bool" where
  "well_behaved isa tcs s \<longleftrightarrow> (\<exists>birth xs w. stands False 0 s \<and> birth_ok birth \<and>
     waits s = birth @- windows True 0 xs @- w \<and> list_all2 (visit_ok isa) tcs xs)"

lemma well_behaved_serves:
  assumes "well_behaved isa tcs s" "\<And>tc. tc \<in> set tcs \<Longrightarrow> tc_ok tc"
  shows "\<exists>t. ensure_ready s = Some (None, t) \<and> serves (\<lambda>tc h. reports True (isa (start_machine tc)) h) tcs t"
proof -
  obtain birth xs w where e: "stands False 0 s" "birth_ok birth" "waits s = birth @- windows True 0 xs @- w"
    "list_all2 (visit_ok isa) tcs xs"
    using assms(1) unfolding well_behaved_def by blast
  obtain t where t: "ensure_ready s = Some (None, t)" "ready t" "oks t = sconst True"
    "waits t = windows True 0 xs @- w" "process t \<noteq> None" "steps_since_respawn t = 0"
    using ensure_ready_birth [OF _ _ _ _ _ e(3,2)] e(1) unfolding stands_def by auto
  have "stands True 0 t" using t by (simp add: stands_def)
  then show ?thesis using windows_serves [OF e(4) _ t(4) assms(2)] t(1) by blast
qed

subsection \<open>A worker with a session that serves\<close>

definition tally :: "counters \<Rightarrow> nat \<times> nat \<times> nat" where
  "tally c = (finding_count c, unicorn_outlier_count c, hw_harness_errors c)"

definition add_kind :: "report_kind \<Rightarrow> nat \<times> nat \<times> nat \<Rightarrow> nat \<times> nat \<times> nat" where
  "add_kind k = (\<lambda>(findings, outliers, errors). case k of
     KNone \<Rightarrow> (findings, outliers, errors)
   | KFinding \<Rightarrow> (findings + 1, outliers, errors)
   | KOutlier \<Rightarrow> (findings, outliers + 1, errors))"

text \<open>With the outcome \<open>h\<close> of the hardware, a round is of kind \<open>k\<close> whatever the state of the JIT.\<close>

definition round_kind :: "'j engines \<Rightarrow> worker_args \<Rightarrow> test_case \<Rightarrow> lane_outcome \<Rightarrow> report_kind \<Rightarrow> bool" where
  "round_kind eng a tc h k \<longleftrightarrow> setup_ok h \<and> (\<forall>j. \<exists>s u j'. compute eng a tc j = Inr (s, u, j') \<and>
     kind_of (triage (judge (seven_label a) tc s u (Some h))) = k)"

lemma report_round_tally:
  "tally (w_counters (report_round a tc s u hw w)) =
     add_kind (kind_of (triage (judge (seven_label a) tc s u hw))) (tally (w_counters w))"
  by (simp add: report_round_def tally_def add_kind_def kind_of_def Let_def print_def split: triage_result.split)

lemma round_fields [simp]:
  "w_hw (report_round a tc s u hw w) = w_hw w" "w_hw (count_done w) = w_hw w"
  "tally (w_counters (count_done w)) = tally (w_counters w)"
  by (simp_all add: report_round_def count_done_def tally_def Let_def print_def split: triage_result.split)

lemma begin_iteration_hw [simp]: "w_hw (snd (begin_iteration eng a i w)) = w_hw w"
  by (simp add: begin_iteration_def Let_def tick_def print_def split: prod.split)

lemma run_iteration_served:
  assumes "worker_inv eng seed i w" "w_use_hw w" "run_one (nth_case eng seed i) (w_hw w) = Some (h, t)"
    "round_kind eng a (nth_case eng seed i) h k"
  shows "\<exists>v. run_iteration eng a i w = Some (False, v) \<and> w_use_hw v \<and> w_hw v = t \<and>
    tally (w_counters v) = add_kind k (tally (w_counters w))"
proof -
  obtain v ms where v: "begin_iteration eng a i w = (nth_case eng seed i, v)" "w_counters v = w_counters w" "w_use_hw v = w_use_hw w"
    by (rule begin_iteration_inv [OF assms(1), of a]) (rule that)
  then have hw: "w_hw v = w_hw w" using begin_iteration_hw [of eng a i w] by simp
  obtain s u j where "compute eng a (nth_case eng seed i) (w_jit v) = Inr (s, u, j)"
    "kind_of (triage (judge (seven_label a) (nth_case eng seed i) s u (Some h))) = k"
    using assms(4) unfolding round_kind_def by blast
  moreover have "setup_ok h" using assms(4) by (simp add: round_kind_def)
  ultimately show ?thesis
    using v hw assms(2,3) by (simp add: run_iteration_def hardware_round_def report_round_tally)
qed

lemma worker_loop_served:
  assumes "\<And>k h. k < n \<Longrightarrow> R (nth_case eng seed k) h \<Longrightarrow> round_kind eng a (nth_case eng seed k) h (d k)"
    "worker_inv eng seed i w" "w_use_hw w" "serves R (map (nth_case eng seed) [i..<n]) (w_hw w)" "i \<le> n"
  shows "\<exists>v. worker_loop eng a [i..<n] w = Some v \<and>
    tally (w_counters v) = fold (\<lambda>k. add_kind (d k)) [i..<n] (tally (w_counters w))"
  using assms(2-5)
proof (induction "n - i" arbitrary: i w)
  case 0
  then show ?case by (simp add: Let_def tally_def)
next
  case (Suc m)
  then have l: "[i..<n] = i # [Suc i..<n]" "i < n" "Suc i \<le> n" by (simp_all add: upt_conv_Cons)
  obtain h t where h: "run_one (nth_case eng seed i) (w_hw w) = Some (h, t)" "R (nth_case eng seed i) h"
    "serves R (map (nth_case eng seed) [Suc i..<n]) t"
    using Suc.prems(3) unfolding l(1) by (auto split: option.splits)
  obtain v where v: "run_iteration eng a i w = Some (False, v)" "w_use_hw v" "w_hw v = t"
    "tally (w_counters v) = add_kind (d i) (tally (w_counters w))"
    using run_iteration_served [OF Suc.prems(1,2) h(1) assms(1) [OF l(2) h(2)]] by blast
  have "worker_inv eng seed (Suc i) v" using run_iteration_inv [OF Suc.prems(1) v(1)] by simp
  then show ?case using Suc.hyps(1) [of "Suc i" v] Suc.hyps(2) v h(3) l by simp
qed

lemma fold_add_kind:
  "fold (\<lambda>k. add_kind (d k)) ks (f, q, e) =
     (f + length (filter (\<lambda>k. d k = KFinding) ks), q + length (filter (\<lambda>k. d k = KOutlier) ks), e)"
proof (induction ks arbitrary: f q)
  case (Cons k ks)
  then show ?case by (cases "d k") (simp_all add: add_kind_def)
qed simp

lemma run_worker_served:
  assumes "\<And>k h. k < a_iterations a \<Longrightarrow> R (nth_case eng (mix_seed (a_seed a) (a_worker_id a)) k) h \<Longrightarrow>
      round_kind eng a (nth_case eng (mix_seed (a_seed a) (a_worker_id a)) k) h (d k)"
    and "a_use_hw a" "ensure_ready hw = Some (None, s)"
    and "serves R (map (nth_case eng (mix_seed (a_seed a) (a_worker_id a))) [0..<a_iterations a]) s"
  shows "\<exists>v. run_worker eng a hw j clock = Some v \<and>
    finding_count (w_counters v) = length (filter (\<lambda>k. d k = KFinding) [0..<a_iterations a]) \<and>
    unicorn_outlier_count (w_counters v) = length (filter (\<lambda>k. d k = KOutlier) [0..<a_iterations a]) \<and>
    hw_harness_errors (w_counters v) = 0"
proof -
  obtain w where w: "start_hardware a (tick (new_worker eng a hw j clock)) = Some w" "w_use_hw w" "w_hw w = s"
    "tally (w_counters w) = (0, 0, 0)"
    using assms(2,3) by (simp add: start_hardware_def tick_def new_worker_def no_counts_def print_def tally_def)
  obtain v where "worker_loop eng a [0..<a_iterations a] w = Some v"
    "tally (w_counters v) = fold (\<lambda>k. add_kind (d k)) [0..<a_iterations a] (0, 0, 0)"
    using worker_loop_served [OF assms(1) start_hardware_inv [OF w(1)] w(2), unfolded w(3,4), OF _ _ assms(4) le0] by blast
  then show ?thesis by (simp add: run_worker_def w(1) fold_add_kind tally_def)
qed

end
