(* ===== verification/Concurrent.thy ===== *)
theory Concurrent
  imports Program
begin

section \<open>All threads at once\<close>

text \<open>
  The workers of \<^verbatim>\<open>src/main.cpp\<close> and its watchdog as they really run: each worker is the list of the
  operations on \<^verbatim>\<open>SharedCounters\<close>, the dump directories and the console that \<^verbatim>\<open>run_worker\<close> is going to
  perform, and any thread may take its next step at any time that lets it. Both mutexes are there: taking
  \<^verbatim>\<open>io_mutex\<close> or \<^verbatim>\<open>compute_mutex\<close> is a step that is possible only while nobody holds it, releasing it is
  another, and what is done in between are steps of their own, the opening of a dump file and its completion
  included. What an operation does may depend on the counter it took, so it can put further operations in
  front of the worker's list. The counters have the widths of the source. A round of the hardware that never
  returns is the operation \<open>Hang\<close>. That the operations of a worker are those of \<open>run_worker\<close>,
  which sees its own counters only, is the subject of the lemmas; the rest relates every interleaving to
  the workers' sum, to the numbers of the files, and to the locks.
\<close>

subsection \<open>The lines that are printed\<close>

definition worker_tag :: "worker_args \<Rightarrow> string" where
  "worker_tag a = ''[worker '' @ fmt_d (sint (a_worker_id a)) @ '']''"

definition message_text :: "worker_args \<Rightarrow> message \<Rightarrow> string" where
  "message_text a m = worker_tag a @ (case m of
     HwUnavailable err \<Rightarrow> '' hardware lane unavailable, continuing without it: '' @ err
   | HwStarted \<Rightarrow> '' hardware session started''
   | RunningCase k t \<Rightarrow> ''['' @ fmt_u k @ ''] running ('' @ t @ '')''
   | HwHarnessError err \<Rightarrow> '' hw harness error: '' @ err
   | DivergenceAt t path \<Rightarrow> '' DIVERGENCE ('' @ t @ '') -> '' @ path
   | NoLongerWriting \<Rightarrow> '' '' @ fmt_u kMaxDumpFilesPerDir @ '' dumps written, still counting but no longer writing them''
   | Crash k ex t \<Rightarrow> ''[local '' @ fmt_u k @ ''] CRASH: '' @ ex @ '' while running ('' @ t @ '')''
   | Progress n \<Rightarrow> []) @ newline"

text \<open>What the watchdog says before it writes the dump.\<close>

definition hang_line :: "nat \<Rightarrow> u32 \<Rightarrow> heartbeat \<Rightarrow> string" where
  "hang_line w watchdog_seconds hb =
     ''[watchdog] worker '' @ fmt_u w @ '' appears hung: no progress for over '' @ fmt_u (unat watchdog_seconds) @
     '' seconds, stuck at local iteration '' @ fmt_u (unat (hb_local_i hb)) @
     ''. Writing a live minidump and terminating so an unattended run doesn'' @ [CHR 0x27] @
     ''t hang forever -- rerun with --threads 1 and the same seed to reach this worker'' @ [CHR 0x27] @
     ''s iteration range and reproduce.'' @ newline"

subsection \<open>Shared state and operations\<close>

datatype mutex = Io | Compute

datatype thread = Work nat | Watchdog

text \<open>Where the watchdog is: off, polling with its timeout, about to take \<^verbatim>\<open>io_mutex\<close> because of a worker, holding
  it, about to release it, writing the dump; and the process ended by it.\<close>

datatype wd_phase = WdOff | WdPolling u32 | WdLocking nat u32 | WdPrinting nat u32 | WdUnlocking | WdDumping | WdKilled

text \<open>A dump file: its number, path and text. At most one is open for writing.\<close>

record shared_memory =
  m_finding_count :: u32
  m_outlier_saved :: u32
  m_outlier_count :: u64
  m_harness_errors :: u64
  m_discards :: u64
  m_done :: u64
  m_written :: "dump_dir \<Rightarrow> (int \<times> string \<times> string) list"
  m_open :: "(dump_dir \<times> int \<times> string \<times> string) option"
  m_console :: "string list"
  m_lock :: "mutex \<Rightarrow> thread option"
  m_finished :: "nat set"
  m_watchdog :: wd_phase

definition fresh_memory :: "u32 \<Rightarrow> shared_memory" where
  "fresh_memory watchdog_seconds = \<lparr>m_finding_count = 0, m_outlier_saved = 0, m_outlier_count = 0, m_harness_errors = 0,
     m_discards = 0, m_done = 0, m_written = (\<lambda>d. []), m_open = None, m_console = [], m_lock = (\<lambda>l. None), m_finished = {},
     m_watchdog = (if watchdog_seconds = 0 then WdOff else WdPolling watchdog_seconds)\<rparr>"

text \<open>A report is the file it is written to, given the index.\<close>

type_synonym report = "int \<Rightarrow> string \<times> string"

datatype shared_op =
  Lock mutex | Unlock mutex | Say string | AddHarnessError | AddOutlier | TakeOutlier report
  | TakeFinding worker_args string report | Create dump_dir int report | Finish dump_dir int report
  | AddDone u64 | SayProgress u64 u64 | AddDiscards nat | SetFinished | Hang

definition say :: "string \<Rightarrow> shared_memory \<Rightarrow> shared_memory" where
  "say l m = m\<lparr>m_console := m_console m @ [l]\<rparr>"

definition store :: "dump_dir \<Rightarrow> int \<Rightarrow> string \<times> string \<Rightarrow> shared_memory \<Rightarrow> shared_memory" where
  "store d i f m = m\<lparr>m_written := (m_written m)(d := (i, f) # m_written m d)\<rparr>"

definition progress_line :: "u64 \<Rightarrow> u64 \<Rightarrow> shared_memory \<Rightarrow> string" where
  "progress_line done planned m = ''progress: '' @ fmt_u (unat done) @ ''/'' @ fmt_u (unat planned) @ '', findings='' @
     fmt_d (sint (m_finding_count m)) @ '', unicorn_only_outliers='' @ fmt_u (unat (m_outlier_count m)) @
     '', hw_harness_errors='' @ fmt_u (unat (m_harness_errors m)) @ newline"

text \<open>What is done under a mutex.\<close>

definition locked :: "mutex \<Rightarrow> shared_op list \<Rightarrow> shared_op list" where
  "locked l ops = Lock l # ops @ [Unlock l]"

definition outlier_ops :: "int \<Rightarrow> report \<Rightarrow> shared_op list" where
  "outlier_ops oidx f =
     (if oidx < int kMaxDumpFilesPerDir then locked Io [Create Outliers oidx f, Finish Outliers oidx f] else [])"

definition finding_ops :: "int \<Rightarrow> worker_args \<Rightarrow> string \<Rightarrow> report \<Rightarrow> shared_op list" where
  "finding_ops idx a t f = locked Io
     (if idx < int kMaxDumpFilesPerDir
      then [Create Findings idx f, Finish Findings idx f, Say (message_text a (DivergenceAt t (fst (f idx))))]
      else if idx = int kMaxDumpFilesPerDir then [Say (message_text a NoLongerWriting)]
      else [])"

text \<open>A mutex can be taken when no thread has it, not even the one that asks; a thread that hangs does nothing more.\<close>

fun can :: "shared_op \<Rightarrow> shared_memory \<Rightarrow> bool" where
  "can (Lock l) m = (m_lock m l = None)"
| "can Hang m = False"
| "can _ m = True"

text \<open>An operation of worker \<open>w\<close>: what it has to do next on account of it, and the memory after it.\<close>

fun act :: "nat \<Rightarrow> shared_op \<Rightarrow> shared_memory \<Rightarrow> shared_op list \<times> shared_memory" where
  "act w (Lock l) m = ([], m\<lparr>m_lock := (m_lock m)(l := Some (Work w))\<rparr>)"
| "act w (Unlock l) m = ([], m\<lparr>m_lock := (m_lock m)(l := None)\<rparr>)"
| "act w (Say l) m = ([], say l m)"
| "act w AddHarnessError m = ([], m\<lparr>m_harness_errors := m_harness_errors m + 1\<rparr>)"
| "act w AddOutlier m = ([], m\<lparr>m_outlier_count := m_outlier_count m + 1\<rparr>)"
| "act w (TakeOutlier f) m = (outlier_ops (sint (m_outlier_saved m)) f, m\<lparr>m_outlier_saved := m_outlier_saved m + 1\<rparr>)"
| "act w (TakeFinding a t f) m = (finding_ops (sint (m_finding_count m)) a t f, m\<lparr>m_finding_count := m_finding_count m + 1\<rparr>)"
| "act w (Create d i f) m = ([], m\<lparr>m_open := Some (d, i, f i)\<rparr>)"
| "act w (Finish d i f) m = ([], store d i (f i) (m\<lparr>m_open := None\<rparr>))"
| "act w (AddDone planned) m =
     (let done = m_done m + 1 in (if done mod 5000 = 0 then locked Io [SayProgress done planned] else [], m\<lparr>m_done := done\<rparr>))"
| "act w (SayProgress done planned) m = ([], say (progress_line done planned m) m)"
| "act w (AddDiscards n) m = ([], m\<lparr>m_discards := m_discards m + of_nat n\<rparr>)"
| "act w SetFinished m = ([], m\<lparr>m_finished := insert w (m_finished m)\<rparr>)"
| "act w Hang m = ([], m)"

text \<open>A step of the watchdog of \<open>n\<close> workers. When it fires is left open: a worker that is not marked as finished may
  be overdue at any poll, and \<open>watchdog_poll\<close> says when it is. What it reads of the heartbeat is open too.\<close>

inductive watch :: "nat \<Rightarrow> shared_memory \<Rightarrow> shared_memory \<Rightarrow> bool" where
  watch_fire: "m_watchdog m = WdPolling s \<Longrightarrow> w < n \<Longrightarrow> w \<notin> m_finished m \<Longrightarrow> watch n m (m\<lparr>m_watchdog := WdLocking w s\<rparr>)"
| watch_return: "m_watchdog m = WdPolling s \<Longrightarrow> {0..<n} \<subseteq> m_finished m \<Longrightarrow> watch n m (m\<lparr>m_watchdog := WdOff\<rparr>)"
| watch_lock: "m_watchdog m = WdLocking w s \<Longrightarrow> m_lock m Io = None \<Longrightarrow>
    watch n m (m\<lparr>m_watchdog := WdPrinting w s, m_lock := (m_lock m)(Io := Some Watchdog)\<rparr>)"
| watch_print: "m_watchdog m = WdPrinting w s \<Longrightarrow> watch n m (say (hang_line w s hb) (m\<lparr>m_watchdog := WdUnlocking\<rparr>))"
| watch_unlock: "m_watchdog m = WdUnlocking \<Longrightarrow> watch n m (m\<lparr>m_watchdog := WdDumping, m_lock := (m_lock m)(Io := None)\<rparr>)"
| watch_kill: "m_watchdog m = WdDumping \<Longrightarrow> watch n m (m\<lparr>m_watchdog := WdKilled\<rparr>)"

inductive_cases watchE: "watch n m m'"

type_synonym pool = "shared_op list list \<times> shared_memory"

text \<open>A step of a thread. Once the process is ended there is none.\<close>

inductive tstep :: "thread \<Rightarrow> pool \<Rightarrow> pool \<Rightarrow> bool" where
  tstep_worker: "m_watchdog m \<noteq> WdKilled \<Longrightarrow> w < length ps \<Longrightarrow> ps ! w = op # rest \<Longrightarrow> can op m \<Longrightarrow> act w op m = (new, m') \<Longrightarrow>
    tstep (Work w) (ps, m) (ps[w := new @ rest], m')"
| tstep_watchdog: "watch (length ps) m m' \<Longrightarrow> tstep Watchdog (ps, m) (ps, m')"

inductive_cases tstep_workE: "tstep (Work w) (ps, m) t"
inductive_cases tstep_watchE: "tstep Watchdog (ps, m) t"

definition pstep :: "pool \<Rightarrow> pool \<Rightarrow> bool" where
  "pstep p q \<longleftrightarrow> (\<exists>t. tstep t p q)"

lemma pstepE:
  assumes "pstep (ps, m) (qs, m')"
  obtains (worker) w op rest new where "m_watchdog m \<noteq> WdKilled" "w < length ps" "ps ! w = op # rest" "can op m"
      "act w op m = (new, m')" "qs = ps[w := new @ rest]"
  | (watchdog) "watch (length ps) m m'" "qs = ps"
  using assms by (auto simp: pstep_def elim!: tstep.cases)

definition pool_done :: "pool \<Rightarrow> bool" where
  "pool_done = (\<lambda>(ps, m). list_all (\<lambda>p. p = []) ps)"

text \<open>The shared memory when the last worker has returned, for some order of the steps.\<close>

definition ends_with :: "pool \<Rightarrow> shared_memory \<Rightarrow> bool" where
  "ends_with p m \<longleftrightarrow> (\<exists>ps. pstep\<^sup>*\<^sup>* p (ps, m) \<and> pool_done (ps, m))"

subsection \<open>The operations of a worker\<close>

definition start_ops :: "worker_args \<Rightarrow> 'j worker \<Rightarrow> shared_op list" where
  "start_ops a w =
     (if \<not> a_use_hw a then []
      else (case ensure_ready (w_hw w) of
        None \<Rightarrow> [Hang]
      | Some (Some err, s) \<Rightarrow> locked Io [Say (message_text a (HwUnavailable err))]
      | Some (None, s) \<Rightarrow> locked Io [Say (message_text a HwStarted)]))"

definition harness_ops :: "worker_args \<Rightarrow> lane_outcome option \<Rightarrow> shared_op list" where
  "harness_ops a hw = (case hw of
     None \<Rightarrow> []
   | Some h \<Rightarrow> if setup_ok h then [] else AddHarnessError # locked Io [Say (message_text a (HwHarnessError (setup_error h)))])"

definition report_ops :: "worker_args \<Rightarrow> test_case \<Rightarrow> lane_outcome \<Rightarrow> lane_outcome \<Rightarrow> lane_outcome option \<Rightarrow> shared_op list" where
  "report_ops a tc s u hw =
     (let h = (case hw of None \<Rightarrow> outcome_default | Some h \<Rightarrow> h); v = judge (seven_label a) tc s u hw in
      case triage v of
        Outlier ds \<Rightarrow> [AddOutlier, TakeOutlier (\<lambda>i. write_finding (a_outliers_dir a) i tc (seven_label a) s u h (v_hw_ok v) ds)]
      | Finding ds \<Rightarrow> [TakeFinding a (tc_text tc) (\<lambda>i. write_finding (a_findings_dir a) i tc (seven_label a) s u h (v_hw_ok v) ds)]
      | NoReport \<Rightarrow> [])"

definition announce_ops :: "worker_args \<Rightarrow> nat \<Rightarrow> test_case \<Rightarrow> shared_op list" where
  "announce_ops a i tc = (if a_verbose_from a \<le> i then locked Io [Say (message_text a (RunningCase i (tc_text tc)))] else [])"

text \<open>An iteration; \<open>planned\<close> is the \<^verbatim>\<open>total_iterations\<close> of the progress line. The engines run under
  \<^verbatim>\<open>compute_mutex\<close>, which an exception releases before it is caught; the worker is marked as finished
  before the handler releases \<^verbatim>\<open>io_mutex\<close>.\<close>

definition iteration_ops :: "'j engines \<Rightarrow> worker_args \<Rightarrow> u64 \<Rightarrow> nat \<Rightarrow> 'j worker \<Rightarrow> shared_op list" where
  "iteration_ops eng a planned i w =
     (let (tc, w) = begin_iteration eng a i w in
      announce_ops a i tc @ locked Compute [] @
      (case compute eng a tc (w_jit w) of
        Inl ex \<Rightarrow> locked Io [Say (message_text a (Crash i ex (tc_text tc))), SetFinished]
      | Inr (s, u, j) \<Rightarrow> (case hardware_round tc (w\<lparr>w_jit := j\<rparr>) of
            None \<Rightarrow> [Hang]
          | Some (hw, w) \<Rightarrow> harness_ops a hw @ report_ops a tc s u hw @ [AddDone planned])))"

fun loop_ops :: "'j engines \<Rightarrow> worker_args \<Rightarrow> u64 \<Rightarrow> nat list \<Rightarrow> 'j worker \<Rightarrow> shared_op list" where
  "loop_ops eng a planned [] w = [AddDiscards (gen_discarded (w_gen w)), SetFinished]"
| "loop_ops eng a planned (i # is) w = iteration_ops eng a planned i w @
     (case run_iteration eng a i w of Some (False, w) \<Rightarrow> loop_ops eng a planned is w | _ \<Rightarrow> [])"

definition worker_ops :: "'j engines \<Rightarrow> u64 \<Rightarrow> (u32 \<Rightarrow> hw \<times> 'j \<times> u64 stream) \<Rightarrow> worker_args \<Rightarrow> shared_op list" where
  "worker_ops eng planned env a =
     (case env (a_worker_id a) of (hw, j, clock) \<Rightarrow>
        let w = tick (new_worker eng a hw j clock) in
        start_ops a w @
        (case start_hardware a w of None \<Rightarrow> [] | Some w \<Rightarrow> loop_ops eng a planned [0..<a_iterations a] w))"

text \<open>\<^verbatim>\<open>main\<close>'s pool before any worker has started.\<close>

definition start_pool :: "'j engines \<Rightarrow> (u32 \<Rightarrow> hw \<times> 'j \<times> u64 stream) \<Rightarrow> u32 \<Rightarrow> string \<Rightarrow> options \<Rightarrow> pool" where
  "start_pool eng env hw_conc exe opts =
     (map (worker_ops eng (o_iterations opts) env) (launch hw_conc exe opts), fresh_memory (o_watchdog opts))"

subsection \<open>What an interleaving leaves in the counters\<close>

datatype counter = C_finding | C_saved | C_outlier | C_harness | C_discards | C_done

definition counter_bits :: "counter \<Rightarrow> nat" where
  "counter_bits c = (case c of C_finding \<Rightarrow> 32 | C_saved \<Rightarrow> 32 | _ \<Rightarrow> 64)"

definition reading :: "counter \<Rightarrow> shared_memory \<Rightarrow> nat" where
  "reading c m = (case c of C_finding \<Rightarrow> unat (m_finding_count m) | C_saved \<Rightarrow> unat (m_outlier_saved m)
     | C_outlier \<Rightarrow> unat (m_outlier_count m) | C_harness \<Rightarrow> unat (m_harness_errors m)
     | C_discards \<Rightarrow> unat (m_discards m) | C_done \<Rightarrow> unat (m_done m))"

definition count_of :: "counter \<Rightarrow> counters \<Rightarrow> nat" where
  "count_of c k = (case c of C_finding \<Rightarrow> finding_count k | C_saved \<Rightarrow> unicorn_outlier_saved k
     | C_outlier \<Rightarrow> unicorn_outlier_count k | C_harness \<Rightarrow> hw_harness_errors k
     | C_discards \<Rightarrow> generator_discards k | C_done \<Rightarrow> total_done k)"

definition adds :: "counter \<Rightarrow> shared_op \<Rightarrow> nat" where
  "adds c op = (case op of
     AddHarnessError \<Rightarrow> if c = C_harness then 1 else 0
   | AddOutlier \<Rightarrow> if c = C_outlier then 1 else 0
   | TakeOutlier f \<Rightarrow> if c = C_saved then 1 else 0
   | TakeFinding a t f \<Rightarrow> if c = C_finding then 1 else 0
   | AddDone n \<Rightarrow> if c = C_done then 1 else 0
   | AddDiscards n \<Rightarrow> if c = C_discards then n else 0
   | _ \<Rightarrow> 0)"

abbreviation adds_list :: "counter \<Rightarrow> shared_op list \<Rightarrow> nat" where
  "adds_list c p \<equiv> sum_list (map (adds c) p)"

definition pending :: "counter \<Rightarrow> shared_op list list \<Rightarrow> nat" where
  "pending c ps = sum_list (map (adds_list c) ps)"

lemma reading_bound: "reading c m < 2 ^ counter_bits c"
proof -
  have "unat (x :: u32) < 2 ^ 32" "unat (y :: u64) < 2 ^ 64" for x y
    using unsigned_less [of x] unsigned_less [of y] by simp_all
  then show ?thesis by (simp add: reading_def counter_bits_def split: counter.split)
qed

text \<open>What does not touch a counter.\<close>

lemma reading_frame [simp]:
  "reading c (say l m) = reading c m" "reading c (store d i f m) = reading c m" "reading c (m\<lparr>m_open := x\<rparr>) = reading c m"
  "reading c (m\<lparr>m_lock := k\<rparr>) = reading c m" "reading c (m\<lparr>m_finished := fs\<rparr>) = reading c m"
  "reading c (m\<lparr>m_watchdog := g\<rparr>) = reading c m"
  by (simp_all add: say_def store_def reading_def split: counter.split)

lemma adds_quiet [simp]:
  "adds c (Say l) = 0" "adds c (Lock k) = 0" "adds c (Unlock k) = 0" "adds c (Create d i f) = 0" "adds c (Finish d i f) = 0"
  "adds c SetFinished = 0" "adds c Hang = 0" "adds c (SayProgress x y) = 0"
  by (simp_all add: adds_def)

lemma locked_sum: "sum_list (map f (locked l p)) = f (Lock l) + sum_list (map f p) + f (Unlock l)" for f :: "shared_op \<Rightarrow> nat"
  by (simp add: locked_def)

lemma adds_later: "adds_list c (outlier_ops i f) = 0" "adds_list c (finding_ops i a t f) = 0"
  by (simp_all add: outlier_ops_def finding_ops_def locked_def del: sum_list_eq_0_iff)

lemma act_reading:
  assumes "act w op m = (new, m')"
  shows "adds_list c new = 0 \<and> reading c m' = (reading c m + adds c op) mod 2 ^ counter_bits c"
proof -
  have m: "reading c m mod 2 ^ counter_bits c = reading c m" using reading_bound by simp
  have u: "unat (x + y) = (unat x + unat y) mod 2 ^ 32" "unat (v + w) = (unat v + unat w) mod 2 ^ 64"
    for x y :: u32 and v w :: u64 by (simp_all add: unat_word_ariths)
  have n: "unat (of_nat n :: u64) = n mod 2 ^ 64" for n by (simp add: unat_of_nat)
  show ?thesis
  proof (cases op)
    case (AddDone n)
    have "adds_list c (locked Io [SayProgress x y]) = 0" for x y by (simp add: locked_def del: sum_list_eq_0_iff)
    then show ?thesis using assms m AddDone
      by (cases c) (auto simp del: sum_list_eq_0_iff simp: adds_def [of _ "AddDone n"] reading_def counter_bits_def u Let_def split: if_splits)
  next
    case (TakeOutlier f)
    then show ?thesis using assms m by (cases c) (auto simp del: sum_list_eq_0_iff simp: adds_later adds_def [of _ "TakeOutlier f"] reading_def counter_bits_def u)
  next
    case (TakeFinding a t f)
    then show ?thesis using assms m by (cases c) (auto simp del: sum_list_eq_0_iff simp: adds_later adds_def [of _ "TakeFinding a t f"] reading_def counter_bits_def u)
  next
    case AddHarnessError
    then show ?thesis using assms m by (cases c) (auto simp: adds_def reading_def counter_bits_def u)
  next
    case AddOutlier
    then show ?thesis using assms m by (cases c) (auto simp: adds_def reading_def counter_bits_def u)
  next
    case (AddDiscards k)
    then show ?thesis using assms m by (cases c) (auto simp: adds_def reading_def counter_bits_def u n mod_simps)
  qed (use assms m in auto)
qed

lemma watch_frame:
  assumes "watch n m m'"
  shows "reading c m' = reading c m" "m_written m' = m_written m" "m_open m' = m_open m" "m_finished m' = m_finished m"
    "m_lock m' Compute = m_lock m Compute" "m_watchdog m \<noteq> WdKilled" "m_watchdog m \<noteq> WdOff"
  using assms by (auto elim!: watchE) (simp_all add: say_def)

lemma sum_list_replace:
  fixes f :: "'a \<Rightarrow> 'b::comm_monoid_add"
  shows "w < length ps \<Longrightarrow> sum_list (map f (ps[w := q])) + f (ps ! w) = sum_list (map f ps) + f q"
proof (induction ps arbitrary: w)
  case (Cons p ps)
  then show ?case by (cases w) (simp_all add: ac_simps)
qed simp

lemma pstep_total:
  assumes "pstep (ps, m) (qs, m')"
  shows "(reading c m' + pending c qs) mod 2 ^ counter_bits c = (reading c m + pending c ps) mod 2 ^ counter_bits c"
  using assms
proof (cases rule: pstepE)
  case (worker w op rest new)
  note a = act_reading [OF worker(5), of c]
  have "pending c qs + adds c op = pending c ps"
    using sum_list_replace [OF worker(2), of "adds_list c" "new @ rest"] a worker(3,6) by (simp add: pending_def)
  then show ?thesis using a by (simp add: mod_simps algebra_simps flip: \<open>pending c qs + adds c op = pending c ps\<close>)
qed (simp add: watch_frame(1))

lemma pruns_total:
  assumes "pstep\<^sup>*\<^sup>* (ps, m) (qs, m')"
  shows "(reading c m' + pending c qs) mod 2 ^ counter_bits c = (reading c m + pending c ps) mod 2 ^ counter_bits c"
  using assms by (induction rule: rtranclp_induct2) (auto dest: pstep_total [of _ _ _ _ c])

lemma pending_done: "pool_done (ps, m) \<Longrightarrow> pending c ps = 0"
  by (auto simp: pool_done_def pending_def list_all_iff)

lemma pruns_done:
  assumes "pstep\<^sup>*\<^sup>* (ps, fresh_memory s) (qs, m)" "pool_done (qs, m)"
  shows "reading c m = pending c ps mod 2 ^ counter_bits c"
proof -
  have "reading c (fresh_memory s) = 0" by (simp add: reading_def fresh_memory_def split: counter.split)
  then show ?thesis using pruns_total [OF assms(1), of c] pending_done [OF assms(2)] reading_bound [of c m] by simp
qed

subsection \<open>The mutexes\<close>

text \<open>Where a worker is: outside, under a mutex, or writing a dump file under \<^verbatim>\<open>io_mutex\<close>.\<close>

datatype place = Outside | Inside mutex | Writing "dump_dir \<times> int \<times> string \<times> string"

text \<open>What may be done where: no mutex is taken under another, the console and the files belong to \<^verbatim>\<open>io_mutex\<close>, and
  the indices are taken, and rounds of the hardware waited for, under none.\<close>

definition moves :: "place \<Rightarrow> shared_op \<Rightarrow> place option" where
  "moves s op = (case op of
     Lock l \<Rightarrow> if s = Outside then Some (Inside l) else None
   | Unlock l \<Rightarrow> if s = Inside l then Some Outside else None
   | Say t \<Rightarrow> if s = Inside Io then Some s else None
   | SayProgress x y \<Rightarrow> if s = Inside Io then Some s else None
   | Create d i f \<Rightarrow> if s = Inside Io then Some (Writing (d, i, f i)) else None
   | Finish d i f \<Rightarrow> if s = Writing (d, i, f i) then Some (Inside Io) else None
   | SetFinished \<Rightarrow> if s = Outside \<or> s = Inside Io then Some s else None
   | _ \<Rightarrow> if s = Outside then Some s else None)"

fun disciplined :: "place \<Rightarrow> shared_op list \<Rightarrow> bool" where
  "disciplined s [] = (s = Outside)"
| "disciplined s (op # p) = (case moves s op of None \<Rightarrow> False | Some t \<Rightarrow> disciplined t p)"

lemma disciplined_append: "disciplined s p \<Longrightarrow> disciplined Outside q \<Longrightarrow> disciplined s (p @ q)"
  by (induction p arbitrary: s) (auto split: option.splits)

lemma disciplined_later:
  "disciplined Outside (outlier_ops i f)" "disciplined Outside (finding_ops i a t f)"
  "disciplined Outside (locked Io [SayProgress x y])" "disciplined Outside (locked Io [Say l])"
  "disciplined Outside (locked Compute [])" "disciplined Outside (locked Io [Say l, SetFinished])"
  by (simp_all add: outlier_ops_def finding_ops_def locked_def moves_def)

text \<open>The section a worker is in, read off the memory.\<close>

definition place_of :: "shared_memory \<Rightarrow> nat \<Rightarrow> place" where
  "place_of m w =
     (if m_lock m Compute = Some (Work w) then Inside Compute
      else if m_lock m Io = Some (Work w) then (case m_open m of None \<Rightarrow> Inside Io | Some x \<Rightarrow> Writing x)
      else Outside)"

definition orderly :: "pool \<Rightarrow> bool" where
  "orderly = (\<lambda>(ps, m). (\<forall>w < length ps. disciplined (place_of m w) (ps ! w)) \<and>
     (\<forall>l w. m_lock m l = Some (Work w) \<longrightarrow> w < length ps) \<and>
     (\<forall>w. m_lock m Compute = Some (Work w) \<longrightarrow> m_lock m Io \<noteq> Some (Work w)) \<and>
     m_lock m Compute \<noteq> Some Watchdog \<and>
     (m_lock m Io = Some Watchdog \<longleftrightarrow> (\<exists>w s. m_watchdog m = WdPrinting w s) \<or> m_watchdog m = WdUnlocking) \<and>
     (m_open m \<noteq> None \<longrightarrow> (\<exists>w. m_lock m Io = Some (Work w))))"

lemma orderlyD:
  assumes "orderly (ps, m)"
  shows "w < length ps \<Longrightarrow> disciplined (place_of m w) (ps ! w)"
    "m_lock m l = Some (Work w) \<Longrightarrow> w < length ps"
    "m_lock m Compute = Some (Work w) \<Longrightarrow> m_lock m Io \<noteq> Some (Work w)"
    "m_lock m Compute \<noteq> Some Watchdog"
    "m_lock m Io = Some Watchdog \<longleftrightarrow> (\<exists>w s. m_watchdog m = WdPrinting w s) \<or> m_watchdog m = WdUnlocking"
    "m_open m \<noteq> None \<Longrightarrow> \<exists>w. m_lock m Io = Some (Work w)"
  using assms by (auto simp: orderly_def)

text \<open>What an operation does to the mutexes and the open file.\<close>

lemma act_frame:
  assumes "act w op m = (new, m')"
  shows "m_lock m' = (case op of Lock l \<Rightarrow> (m_lock m)(l := Some (Work w)) | Unlock l \<Rightarrow> (m_lock m)(l := None) | _ \<Rightarrow> m_lock m)"
    "m_open m' = (case op of Create d i f \<Rightarrow> Some (d, i, f i) | Finish d i f \<Rightarrow> None | _ \<Rightarrow> m_open m)"
    "m_watchdog m' = m_watchdog m" "disciplined Outside new" "moves t op = Some s \<Longrightarrow> new = [] \<or> s = Outside"
  using assms disciplined_later
  by (cases op; auto simp: say_def store_def moves_def Let_def split: if_splits)+

lemma place_of_others:
  assumes "m_lock m' = m_lock m" "m_open m' = m_open m"
  shows "place_of m' = place_of m"
  using assms by (simp add: place_of_def fun_eq_iff)

text \<open>An operation moves its worker between the places and no other.\<close>

lemma act_place:
  assumes "moves (place_of m w) op = Some s" "can op m" "act w op m = (new, m')"
    "m_lock m Compute = Some (Work w) \<Longrightarrow> m_lock m Io \<noteq> Some (Work w)" "m_open m \<noteq> None \<Longrightarrow> \<exists>v. m_lock m Io = Some (Work v)"
  shows "place_of m' w = s" "v \<noteq> w \<Longrightarrow> place_of m' v = place_of m v"
    "m_lock m' l = m_lock m l \<or> m_lock m' l = Some (Work w) \<and> m_lock m l = None \<or> m_lock m' l = None \<and> m_lock m l = Some (Work w)"
    "m_lock m' Compute = Some (Work w) \<Longrightarrow> m_lock m' Io \<noteq> Some (Work w)"
    "m_open m' \<noteq> None \<Longrightarrow> \<exists>v. m_lock m' Io = Some (Work v)"
proof -
  note F = act_frame(1,2) [OF assms(3)]
  have out: "place_of m w = Outside \<longleftrightarrow> m_lock m Compute \<noteq> Some (Work w) \<and> m_lock m Io \<noteq> Some (Work w)"
    and io: "place_of m w = Inside Io \<longleftrightarrow> m_lock m Compute \<noteq> Some (Work w) \<and> m_lock m Io = Some (Work w) \<and> m_open m = None"
    and comp: "place_of m w = Inside Compute \<longleftrightarrow> m_lock m Compute = Some (Work w)"
    and wr: "place_of m w = Writing x \<longleftrightarrow> m_lock m Compute \<noteq> Some (Work w) \<and> m_lock m Io = Some (Work w) \<and> m_open m = Some x" for x
    by (auto simp: place_of_def split: option.splits)
  have "place_of m' w = s \<and> (v \<noteq> w \<longrightarrow> place_of m' v = place_of m v) \<and>
    (m_lock m' l = m_lock m l \<or> m_lock m' l = Some (Work w) \<and> m_lock m l = None \<or> m_lock m' l = None \<and> m_lock m l = Some (Work w)) \<and>
    (m_lock m' Compute = Some (Work w) \<longrightarrow> m_lock m' Io \<noteq> Some (Work w)) \<and>
    (m_open m' \<noteq> None \<longrightarrow> (\<exists>v. m_lock m' Io = Some (Work v)))"
  proof (cases op)
    case (Lock k)
    then have "place_of m w = Outside" "s = Inside k" "m_lock m k = None"
      using assms(1,2) by (auto simp: moves_def split: if_splits)
    then show ?thesis using F out assms(5) unfolding Lock by (cases k) (auto simp: place_of_def split: option.splits)
  next
    case (Unlock k)
    then have "place_of m w = Inside k" "s = Outside" using assms(1) by (auto simp: moves_def split: if_splits)
    then show ?thesis using F io comp assms(4,5) unfolding Unlock by (cases k) (auto simp: place_of_def split: option.splits)
  next
    case (Create d i f)
    then have "place_of m w = Inside Io" "s = Writing (d, i, f i)" using assms(1) by (auto simp: moves_def split: if_splits)
    then show ?thesis using F io unfolding Create by (auto simp: place_of_def)
  next
    case (Finish d i f)
    then have "place_of m w = Writing (d, i, f i)" and s: "s = Inside Io" using assms(1) by (auto simp: moves_def split: if_splits)
    then have "m_lock m Compute \<noteq> Some (Work w)" "m_lock m Io = Some (Work w)" "m_open m = Some (d, i, f i)"
      using wr by blast+
    then show ?thesis using F s unfolding Finish by (auto simp: place_of_def)
  qed (use assms(1,4,5) F place_of_others [of m' m] in \<open>auto simp: moves_def split: if_splits\<close>)
  then show "place_of m' w = s" "v \<noteq> w \<Longrightarrow> place_of m' v = place_of m v"
    "m_lock m' l = m_lock m l \<or> m_lock m' l = Some (Work w) \<and> m_lock m l = None \<or> m_lock m' l = None \<and> m_lock m l = Some (Work w)"
    "m_lock m' Compute = Some (Work w) \<Longrightarrow> m_lock m' Io \<noteq> Some (Work w)"
    "m_open m' \<noteq> None \<Longrightarrow> \<exists>v. m_lock m' Io = Some (Work v)"
    by blast+
qed

lemma pstep_orderly:
  assumes "pstep (ps, m) (qs, m')" "orderly (ps, m)"
  shows "orderly (qs, m')"
  using assms(1)
proof (cases rule: pstepE)
  case (worker w op rest new)
  note o = orderlyD [OF assms(2)]
  obtain s where s: "moves (place_of m w) op = Some s" "disciplined s rest"
    using o(1) [OF worker(2)] worker(3) by (auto split: option.splits)
  note P = act_place [OF s(1) worker(4,5) o(3) o(6)]
  have new: "disciplined (place_of m' w) (new @ rest)"
    using act_frame(5) [OF worker(5) s(1)]
  proof
    assume "s = Outside"
    then show ?thesis using disciplined_append [OF act_frame(4) [OF worker(5)]] s(2) P(1) by simp
  qed (use s(2) P(1) in simp)
  have "disciplined (place_of m' v) (qs ! v)" if "v < length qs" for v
    using that new P(2) [of v] o(1) [of v] worker(2,6) by (cases "v = w") auto
  moreover have "v < length qs" if "m_lock m' k = Some (Work v)" for k v
    using that P(3) [of k] o(2) [of k v] worker(2,6) by auto
  moreover have "m_lock m' Io \<noteq> Some (Work v)" if "m_lock m' Compute = Some (Work v)" for v
  proof (cases "v = w")
    case False
    then show ?thesis using that P(3) [of Compute] P(3) [of Io] o(3) [of v] by (metis option.inject option.distinct(1) thread.inject)
  qed (use that P(4) in blast)
  moreover have "m_lock m' Compute \<noteq> Some Watchdog" using P(3) [of Compute] o(4) by auto
  moreover have "m_lock m' Io = Some Watchdog \<longleftrightarrow> m_lock m Io = Some Watchdog" using P(3) [of Io] by auto
  ultimately show ?thesis using P(5) o(5) act_frame(3) [OF worker(5)] unfolding orderly_def by simp
next
  case watchdog
  note o = orderlyD [OF assms(2)] and f = watch_frame [OF watchdog(1)]
  have "(m_lock m' Io = Some (Work v)) = (m_lock m Io = Some (Work v))" for v
    using watchdog(1) o(5) by (auto elim!: watchE simp: say_def)
  then have "place_of m' v = place_of m v" for v using f(3,5) by (simp add: place_of_def)
  moreover have "m_lock m' Io = Some Watchdog \<longleftrightarrow> (\<exists>w s. m_watchdog m' = WdPrinting w s) \<or> m_watchdog m' = WdUnlocking"
    using watchdog(1) o(5) by (auto elim!: watchE simp: say_def)
  moreover have "w < length ps" if "m_lock m' l = Some (Work w)" for l w
    using that o(2) f(5) \<open>\<And>v. (m_lock m' Io = Some (Work v)) = (m_lock m Io = Some (Work v))\<close> by (cases l) auto
  ultimately show ?thesis
    using o f(3,5) \<open>\<And>v. (m_lock m' Io = Some (Work v)) = (m_lock m Io = Some (Work v))\<close> unfolding orderly_def watchdog(2) by auto
qed

lemma pruns_orderly: "pstep\<^sup>*\<^sup>* p q \<Longrightarrow> orderly p \<Longrightarrow> orderly q"
  by (induction rule: rtranclp_induct) (use pstep_orderly in \<open>metis surj_pair\<close>)+

text \<open>A worker under a mutex can go on.\<close>

lemma inside_can:
  assumes "orderly (ps, m)" "m_lock m l = Some (Work v)"
  obtains op rest where "v < length ps" "ps ! v = op # rest" "can op m"
proof -
  have v: "v < length ps" by (rule orderlyD(2) [OF assms])
  have "place_of m v \<noteq> Outside"
    using assms(2) orderlyD(3) [OF assms(1), of v] by (cases l) (auto simp: place_of_def split: option.splits)
  then obtain op rest where p: "ps ! v = op # rest" "moves (place_of m v) op \<noteq> None"
    using orderlyD(1) [OF assms(1) v] by (cases "ps ! v") (auto split: option.splits)
  then have "can op m" using \<open>place_of m v \<noteq> Outside\<close> by (cases op) (auto simp: moves_def split: if_splits)
  then show thesis using that v p by blast
qed

lemma worker_step:
  assumes "m_watchdog m \<noteq> WdKilled" "w < length ps" "ps ! w = op # rest" "can op m"
  shows "\<exists>u. tstep (Work w) (ps, m) u"
  using tstep_worker [OF assms] by (cases "act w op m") blast

lemma worker_steps: "tstep (Work w) p u \<Longrightarrow> pstep p u"
  unfolding pstep_def by blast

text \<open>So the threads never block one another: while a worker has work to do that is not to hang, some worker can take a
  step, or the watchdog has \<^verbatim>\<open>io_mutex\<close> and can.\<close>

definition no_hang :: "pool \<Rightarrow> bool" where
  "no_hang = (\<lambda>(ps, m). list_all (\<lambda>p. Hang \<notin> set p) ps)"

lemma not_blocked:
  assumes "orderly (ps, m)" "no_hang (ps, m)" "m_watchdog m \<noteq> WdKilled" "\<not> pool_done (ps, m)"
  shows "(\<exists>w u. tstep (Work w) (ps, m) u) \<or> m_lock m Io = Some Watchdog \<and> (\<exists>u. tstep Watchdog (ps, m) u)"
proof -
  obtain w where w: "w < length ps" "ps ! w \<noteq> []" using assms(4) by (auto simp: pool_done_def list_all_length)
  then obtain op rest where p: "ps ! w = op # rest" by (cases "ps ! w") auto
  have "op \<noteq> Hang" using assms(2) w(1) p by (force simp: no_hang_def list_all_length)
  show ?thesis
  proof (cases "can op m")
    case True
    then show ?thesis using worker_step [OF assms(3) w(1) p] by blast
  next
    case False
    then obtain l t where l: "m_lock m l = Some t" using \<open>op \<noteq> Hang\<close> by (cases op) auto
    show ?thesis
    proof (cases t)
      case (Work v)
      then obtain op' rest' where "v < length ps" "ps ! v = op' # rest'" "can op' m"
        using inside_can [OF assms(1)] l by blast
      then show ?thesis using worker_step [OF assms(3)] by blast
    next
      case Watchdog
      then have io: "m_lock m Io = Some Watchdog" using l orderlyD(4) [OF assms(1)] by (cases l) auto
      then have "(\<exists>w s. m_watchdog m = WdPrinting w s) \<or> m_watchdog m = WdUnlocking" using orderlyD(5) [OF assms(1)] by blast
      then have "\<exists>m'. watch (length ps) m m'" using watch_print watch_unlock by blast
      then show ?thesis using io tstep_watchdog by blast
    qed
  qed
qed

lemma act_no_hang: "act w op m = (new, m') \<Longrightarrow> Hang \<notin> set new"
  by (cases op) (auto simp: outlier_ops_def finding_ops_def locked_def Let_def split: if_splits)

lemma pstep_no_hang:
  assumes "pstep (ps, m) (qs, m')" "no_hang (ps, m)"
  shows "no_hang (qs, m')"
  using assms(1)
proof (cases rule: pstepE)
  case (worker w op rest new)
  have "Hang \<notin> set (op # rest)" using assms(2) worker(2,3) unfolding no_hang_def by (metis case_prodD list_all_length)
  then show ?thesis using assms(2) act_no_hang [OF worker(5)] worker(2)
    by (auto simp: no_hang_def worker(6) list_all_length nth_list_update)
qed (use assms(2) in \<open>simp add: no_hang_def\<close>)

subsection \<open>Every interleaving ends\<close>

definition op_weight :: "shared_op \<Rightarrow> nat" where
  "op_weight op = (case op of TakeOutlier f \<Rightarrow> 5 | TakeFinding a t f \<Rightarrow> 6 | AddDone n \<Rightarrow> 4 | _ \<Rightarrow> 1)"

definition phase_weight :: "wd_phase \<Rightarrow> nat" where
  "phase_weight g = (case g of WdOff \<Rightarrow> 0 | WdPolling s \<Rightarrow> 5 | WdLocking w s \<Rightarrow> 4 | WdPrinting w s \<Rightarrow> 3 | WdUnlocking \<Rightarrow> 2
     | WdDumping \<Rightarrow> 1 | WdKilled \<Rightarrow> 0)"

definition pool_weight :: "pool \<Rightarrow> nat" where
  "pool_weight = (\<lambda>(ps, m). sum_list (map (\<lambda>p. sum_list (map op_weight p)) ps) + phase_weight (m_watchdog m))"

lemma later_weight: "sum_list (map op_weight (outlier_ops i f)) < 5" "sum_list (map op_weight (finding_ops i a t f)) < 6"
  by (simp_all add: outlier_ops_def finding_ops_def locked_def op_weight_def)

lemma act_weight: "act w op m = (new, m') \<Longrightarrow> sum_list (map op_weight new) < op_weight op"
  using later_weight
  by (cases op) (auto simp: op_weight_def [of "TakeOutlier f" for f] op_weight_def [of "TakeFinding a t f" for a t f],
      auto simp: locked_def op_weight_def Let_def split: if_splits)

lemma pstep_weight:
  assumes "pstep (ps, m) (qs, m')"
  shows "pool_weight (qs, m') < pool_weight (ps, m)"
  using assms
proof (cases rule: pstepE)
  case (worker w op rest new)
  then show ?thesis
    using sum_list_replace [OF worker(2), of "\<lambda>p. sum_list (map op_weight p)" "new @ rest"] act_weight [OF worker(5)]
      act_frame(3) [OF worker(5)]
    by (simp add: pool_weight_def)
next
  case watchdog
  then show ?thesis by (auto simp: pool_weight_def phase_weight_def say_def elim!: watchE)
qed

lemma pruns_weight: "(pstep ^^ n) (ps, m) (qs, m') \<Longrightarrow> n + pool_weight (qs, m') \<le> pool_weight (ps, m)"
proof (induction n arbitrary: qs m')
  case (Suc n)
  then obtain rs m1 where r: "(pstep ^^ n) (ps, m) (rs, m1)" "pstep (rs, m1) (qs, m')" by auto
  show ?case using Suc.IH [OF r(1)] pstep_weight [OF r(2)] by simp
qed simp

text \<open>A process that has not been ended can be brought to the end of all its workers.\<close>

lemma pruns_complete:
  assumes "orderly (ps, m)" "no_hang (ps, m)" "m_watchdog m \<noteq> WdKilled"
  shows "\<exists>t. pstep\<^sup>*\<^sup>* (ps, m) t \<and> pool_done t"
  using assms
proof (induction "pool_weight (ps, m)" arbitrary: ps m rule: less_induct)
  case less
  show ?case
  proof (cases "pool_done (ps, m)")
    case False
    obtain qs m' where s: "pstep (ps, m) (qs, m')" "m_watchdog m' \<noteq> WdKilled"
      using not_blocked [OF less.prems False]
    proof (elim disjE exE conjE)
      fix w u
      assume "tstep (Work w) (ps, m) u"
      then obtain op rest new m' where "u = (ps[w := new @ rest], m')" "act w op m = (new, m')" by (auto elim: tstep_workE)
      then show thesis using that [of "ps[w := new @ rest]" m'] worker_steps \<open>tstep (Work w) (ps, m) u\<close> act_frame(3) less.prems(3) by metis
    next
      fix u
      assume io: "m_lock m Io = Some Watchdog" and t: "tstep Watchdog (ps, m) u"
      obtain m' where u: "u = (ps, m')" "watch (length ps) m m'" using t by (auto elim: tstep_watchE)
      have "m_watchdog m' \<noteq> WdKilled"
        using u(2) io orderlyD(5) [OF less.prems(1)] by (auto simp: say_def elim!: watchE)
      then show thesis using that [of ps m'] t unfolding u pstep_def by blast
    qed
    then obtain t where "pstep\<^sup>*\<^sup>* (qs, m') t" "pool_done t"
      using less.hyps [OF pstep_weight [OF s(1)]] pstep_orderly [OF s(1)] pstep_no_hang [OF s(1)] less.prems by blast
    then show ?thesis using s(1) by (meson converse_rtranclp_into_rtranclp)
  qed blast
qed

subsection \<open>A worker that hangs\<close>

text \<open>The threads without worker \<open>h\<close>, which takes no more steps.\<close>

definition without :: "nat \<Rightarrow> pool \<Rightarrow> pool \<Rightarrow> bool" where
  "without h p q \<longleftrightarrow> (\<exists>t. t \<noteq> Work h \<and> tstep t p q)"

definition wd_fired :: "wd_phase \<Rightarrow> bool" where
  "wd_fired g \<longleftrightarrow> g \<noteq> WdOff \<and> (\<forall>s. g \<noteq> WdPolling s)"

lemma without_pstep: "without h p q \<Longrightarrow> pstep p q"
  unfolding without_def pstep_def by blast

text \<open>Whether the hung worker has \<^verbatim>\<open>io_mutex\<close> never changes; if it has it, the watchdog does not get past it.\<close>

lemma without_step:
  assumes "without h (ps, m) (qs, m')" "orderly (ps, m)" "wd_fired (m_watchdog m)"
  shows "m_lock m' Io = Some (Work h) \<longleftrightarrow> m_lock m Io = Some (Work h)" "wd_fired (m_watchdog m')"
    "m_lock m Io = Some (Work h) \<Longrightarrow> m_watchdog m = WdLocking w s \<Longrightarrow> m_watchdog m' = WdLocking w s"
proof -
  note o = orderlyD [OF assms(2)]
  obtain t where t: "t \<noteq> Work h" "tstep t (ps, m) (qs, m')" using assms(1) unfolding without_def by blast
  have "(m_lock m' Io = Some (Work h) \<longleftrightarrow> m_lock m Io = Some (Work h)) \<and> wd_fired (m_watchdog m') \<and>
    (m_lock m Io = Some (Work h) \<longrightarrow> m_watchdog m = WdLocking w s \<longrightarrow> m_watchdog m' = WdLocking w s)"
    using t(2)
  proof (cases rule: tstep.cases)
    case (tstep_worker v op rest new)
    obtain s where s: "moves (place_of m v) op = Some s"
      using o(1) [OF tstep_worker(4)] tstep_worker(5) by (auto split: option.splits)
    have "v \<noteq> h" using t(1) tstep_worker(1) by blast
    then show ?thesis
      using act_place(3) [OF s tstep_worker(6,7) o(3) o(6), of Io] act_frame(3) [OF tstep_worker(7)] assms(3) by auto
  next
    case tstep_watchdog
    then show ?thesis using o(5) assms(3) by (auto simp: wd_fired_def say_def elim!: watchE)
  qed
  then show "m_lock m' Io = Some (Work h) \<longleftrightarrow> m_lock m Io = Some (Work h)" "wd_fired (m_watchdog m')"
    "m_lock m Io = Some (Work h) \<Longrightarrow> m_watchdog m = WdLocking w s \<Longrightarrow> m_watchdog m' = WdLocking w s" by blast+
qed

lemma without_runs:
  assumes "(without h)\<^sup>*\<^sup>* (ps, m) (qs, m')" "orderly (ps, m)" "m_watchdog m = WdLocking w s"
  shows "orderly (qs, m') \<and> wd_fired (m_watchdog m') \<and> (m_lock m' Io = Some (Work h) \<longleftrightarrow> m_lock m Io = Some (Work h)) \<and>
    (m_lock m Io = Some (Work h) \<longrightarrow> m_watchdog m' = WdLocking w s)"
  using assms(1)
proof (induction rule: rtranclp_induct2)
  case (step qs m' rs m'')
  then show ?case
    using without_step [OF step.hyps(2)] pstep_orderly [OF without_pstep [OF step.hyps(2)]] by blast
qed (use assms(2,3) in \<open>simp add: wd_fired_def\<close>)

lemma without_stuck:
  assumes "orderly (ps, m)" "wd_fired (m_watchdog m)" "m_lock m Io \<noteq> Some (Work h)" "\<nexists>u. without h (ps, m) u"
  shows "m_watchdog m = WdKilled"
proof (rule ccontr)
  assume alive: "m_watchdog m \<noteq> WdKilled"
  have w: False if "watch (length ps) m m'" for m'
    using assms(4) tstep_watchdog [OF that] unfolding without_def by blast
  show False
  proof (cases "m_watchdog m")
    case (WdLocking v s)
    show False
    proof (cases "m_lock m Io")
      case None
      then show False using w watch_lock [OF WdLocking] by blast
    next
      case (Some t)
      then obtain v where v: "t = Work v" using orderlyD(5) [OF assms(1)] WdLocking by (cases t) auto
      then obtain op rest where "v < length ps" "ps ! v = op # rest" "can op m" using inside_can [OF assms(1)] Some by blast
      then obtain u where "tstep (Work v) (ps, m) u" using worker_step [OF alive] by blast
      moreover have "Work v \<noteq> Work h" using assms(3) Some v by auto
      ultimately show False using assms(4) unfolding without_def by blast
    qed
  next
    case (WdPrinting v s)
    then show False using w watch_print by blast
  next
    case WdUnlocking
    then show False using w watch_unlock by blast
  next
    case WdDumping
    then show False using w watch_kill by blast
  qed (use assms(2) alive in \<open>simp_all add: wd_fired_def\<close>)
qed

subsection \<open>The operations of a worker and its counters\<close>

lemma report_ops_adds:
  "count_of c (w_counters (report_round a tc s u hw w)) = count_of c (w_counters w) + adds_list c (report_ops a tc s u hw)"
  by (cases c) (auto simp: report_round_def report_ops_def count_of_def adds_def Let_def print_def split: triage_result.split)

lemma harness_ops_adds:
  assumes "hardware_round tc w = Some (hw, v)"
  shows "count_of c (w_counters v) = count_of c (w_counters w) + adds_list c (harness_ops a hw)"
  using assms
  by (cases c) (auto simp: hardware_round_def harness_ops_def locked_def count_of_def adds_def Let_def print_def split: if_splits option.splits)

lemma count_done_adds: "count_of c (w_counters (count_done w)) = count_of c (w_counters w) + adds c (AddDone n)"
  by (cases c) (auto simp: count_done_def count_of_def adds_def Let_def print_def)

lemma begin_iteration_counters: "begin_iteration eng a i w = (tc, v) \<Longrightarrow> w_counters v = w_counters w"
  by (auto simp: begin_iteration_def Let_def tick_def print_def split: prod.splits if_splits)

lemma iteration_ops_adds:
  assumes "run_iteration eng a i w = Some (b, v)"
  shows "count_of c (w_counters v) = count_of c (w_counters w) + adds_list c (iteration_ops eng a planned i w)"
proof -
  obtain tc w1 where b: "begin_iteration eng a i w = (tc, w1)" by fastforce
  then have w1: "w_counters w1 = w_counters w" by (rule begin_iteration_counters)
  have an: "adds_list c (announce_ops a i tc @ locked Compute []) = 0"
    by (simp add: announce_ops_def locked_def del: sum_list_eq_0_iff)
  show ?thesis
  proof (cases "compute eng a tc (w_jit w1)")
    case (Inl ex)
    then show ?thesis using assms w1 an by (auto simp: run_iteration_def iteration_ops_def b print_def locked_def)
  next
    case (Inr p)
    then obtain s u j hw w2 where h: "p = (s, u, j)" "hardware_round tc (w1\<lparr>w_jit := j\<rparr>) = Some (hw, w2)"
      "v = count_done (report_round a tc s u hw w2)"
      using assms by (cases p) (auto simp: run_iteration_def b split: option.splits)
    then show ?thesis
      using harness_ops_adds [OF h(2), of c a] w1 an count_done_adds [of c "report_round a tc s u hw w2" planned]
      by (simp add: iteration_ops_def b Inr report_ops_adds)
  qed
qed

lemma loop_ops_adds:
  assumes "worker_loop eng a is w = Some v"
  shows "count_of c (w_counters w) + adds_list c (loop_ops eng a planned is w) = count_of c (w_counters v)"
  using assms
proof (induction "is" arbitrary: w)
  case Nil
  then show ?case by (cases c) (auto simp: count_of_def adds_def Let_def)
next
  case (Cons i "is")
  obtain b u where r: "run_iteration eng a i w = Some (b, u)" using Cons.prems by (auto split: option.splits)
  then show ?case
    using Cons.prems Cons.IH [of u] iteration_ops_adds [OF r, of c planned] by (cases b) auto
qed

lemma start_ops_adds:
  assumes "start_hardware a w = Some v"
  shows "adds_list c (start_ops a w) = 0 \<and> w_counters v = w_counters w"
  using assms by (auto simp: start_ops_def start_hardware_def print_def locked_def split: if_splits option.splits)

lemma worker_ops_adds:
  assumes "(case env (a_worker_id a) of (hw, j, clock) \<Rightarrow> run_worker eng a hw j clock) = Some v"
  shows "adds_list c (worker_ops eng planned env a) = count_of c (w_counters v)"
proof -
  obtain hw j clock where e: "env (a_worker_id a) = (hw, j, clock)" by (cases "env (a_worker_id a)")
  define w0 where "w0 = tick (new_worker eng a hw j clock)"
  obtain w where w: "start_hardware a w0 = Some w" "worker_loop eng a [0..<a_iterations a] w = Some v"
    using assms by (auto simp: e run_worker_def w0_def split: option.splits)
  have "count_of c (w_counters w0) = 0" by (simp add: w0_def tick_def new_worker_def no_counts_def count_of_def split: counter.split)
  then show ?thesis
    using start_ops_adds [OF w(1), of c] loop_ops_adds [OF w(2), of c planned] w(1)
    by (simp add: worker_ops_def e Let_def flip: w0_def del: sum_list_eq_0_iff)
qed

lemma pool_pending:
  assumes "fuzz_run eng env as = Some ws"
  shows "pending c (map (worker_ops eng planned env) as) = count_of c (total_counters (map w_counters ws))"
proof -
  have "list_all2 (\<lambda>a w. count_of c (w_counters w) = adds_list c (worker_ops eng planned env a)) as ws"
    using assms unfolding fuzz_run_workers by (rule list_all2_mono) (rule worker_ops_adds [symmetric])
  moreover have "count_of c (total_counters (map w_counters ws)) = sum_list (map (\<lambda>w. count_of c (w_counters w)) ws)"
    by (simp add: count_of_def total_counters_def comp_def split: counter.split)
  ultimately show ?thesis by (simp add: pending_def comp_def sum_list_map2)
qed

lemma pool_shows:
  assumes "fuzz_run eng env (launch hc exe opts) = Some ws" "ends_with (start_pool eng env hc exe opts) m"
  shows "reading c m = count_of c (total_counters (map w_counters ws)) mod 2 ^ counter_bits c"
  using pruns_done pool_pending [OF assms(1)] assms(2) unfolding ends_with_def start_pool_def by force

lemma pool_counters:
  assumes "fuzz_run eng env (launch hc exe opts) = Some ws" "ends_with (start_pool eng env hc exe opts) m"
  defines "t \<equiv> total_counters (map w_counters ws)"
  shows "m_finding_count m = of_nat (finding_count t)" "m_outlier_saved m = of_nat (unicorn_outlier_saved t)"
    "m_outlier_count m = of_nat (unicorn_outlier_count t)" "m_harness_errors m = of_nat (hw_harness_errors t)"
    "m_discards m = of_nat (generator_discards t)" "m_done m = of_nat (total_done t)"
proof -
  have w: "x = of_nat n" if "unat x = n mod 2 ^ LENGTH('b)" for x :: "'b::len word" and n
    using that by (simp add: word_unat_eq_iff unat_of_nat)
  note sh = pool_shows [OF assms(1,2), folded t_def]
  show "m_finding_count m = of_nat (finding_count t)" "m_outlier_saved m = of_nat (unicorn_outlier_saved t)"
    "m_outlier_count m = of_nat (unicorn_outlier_count t)" "m_harness_errors m = of_nat (hw_harness_errors t)"
    "m_discards m = of_nat (generator_discards t)" "m_done m = of_nat (total_done t)"
    using sh [of C_finding] sh [of C_saved] sh [of C_outlier] sh [of C_harness] sh [of C_discards] sh [of C_done]
    by (simp_all add: reading_def count_of_def counter_bits_def w)
qed

subsection \<open>The operations of a worker keep the rules\<close>

text \<open>They are disciplined whatever happens; and of a worker that returns none hangs and one marks it as finished.\<close>

lemma report_ops_disciplined: "disciplined Outside (report_ops a tc s u hw @ [AddDone n])"
  by (auto simp: report_ops_def moves_def Let_def split: triage_result.split)

lemma harness_ops_disciplined: "disciplined Outside (harness_ops a hw)"
  by (auto simp: harness_ops_def locked_def moves_def split: option.split)

lemma announce_ops_disciplined: "disciplined Outside (announce_ops a i tc @ locked Compute [])"
  by (auto simp: announce_ops_def locked_def moves_def)

lemma iteration_ops_disciplined: "disciplined Outside (iteration_ops eng a planned i w)"
proof -
  have "disciplined Outside (announce_ops a i tc @ locked Compute [] @ q)" if "disciplined Outside q" for tc q
    using disciplined_append [OF announce_ops_disciplined that] by simp
  moreover have "disciplined Outside (harness_ops a hw @ report_ops a tc s u hw @ [AddDone planned])" for hw tc s u
    by (rule disciplined_append [OF harness_ops_disciplined report_ops_disciplined])
  moreover have "disciplined Outside [Hang]" by (simp add: moves_def)
  ultimately show ?thesis
    using disciplined_later(6) by (auto simp: iteration_ops_def split: prod.split sum.split option.split)
qed

lemma loop_ops_disciplined: "disciplined Outside (loop_ops eng a planned xs w)"
proof (induction xs arbitrary: w)
  case (Cons i xs)
  then show ?case using iteration_ops_disciplined
    by (auto split: option.split bool.split intro!: disciplined_append)
qed (simp add: moves_def)

lemma worker_ops_disciplined: "disciplined Outside (worker_ops eng planned env a)"
proof -
  have "disciplined Outside (start_ops a w)" for w :: "'a worker"
    by (auto simp: start_ops_def locked_def moves_def split: option.split)
  then show ?thesis using loop_ops_disciplined
    by (auto simp: worker_ops_def Let_def split: prod.split option.split intro!: disciplined_append)
qed

lemma start_pool_orderly: "orderly (start_pool eng env hc exe opts)"
  using worker_ops_disciplined [of eng "o_iterations opts" env]
  by (auto simp: start_pool_def orderly_def fresh_memory_def place_of_def)

lemma iteration_ops_end:
  assumes "run_iteration eng a i w = Some (b, v)"
  shows "Hang \<notin> set (iteration_ops eng a planned i w) \<and> (b \<longrightarrow> SetFinished \<in> set (iteration_ops eng a planned i w))"
  using assms
  by (auto simp: run_iteration_def iteration_ops_def announce_ops_def harness_ops_def report_ops_def locked_def Let_def
      split: prod.splits sum.splits option.splits if_splits triage_result.splits)

lemma loop_ops_end:
  assumes "worker_loop eng a is w = Some v"
  shows "Hang \<notin> set (loop_ops eng a planned is w) \<and> SetFinished \<in> set (loop_ops eng a planned is w)"
  using assms
proof (induction "is" arbitrary: w)
  case (Cons i "is")
  obtain b u where r: "run_iteration eng a i w = Some (b, u)" using Cons.prems by (auto split: option.splits)
  then show ?case using Cons.prems Cons.IH [of u] iteration_ops_end [OF r, of planned] by (cases b) auto
qed simp

lemma worker_ops_end:
  assumes "(case env (a_worker_id a) of (hw, j, clock) \<Rightarrow> run_worker eng a hw j clock) = Some v"
  shows "Hang \<notin> set (worker_ops eng planned env a) \<and> SetFinished \<in> set (worker_ops eng planned env a)"
proof -
  obtain hw j clock where e: "env (a_worker_id a) = (hw, j, clock)" by (cases "env (a_worker_id a)")
  define w0 where "w0 = tick (new_worker eng a hw j clock)"
  obtain w where w: "start_hardware a w0 = Some w" "worker_loop eng a [0..<a_iterations a] w = Some v"
    using assms by (auto simp: e run_worker_def w0_def split: option.splits)
  have "Hang \<notin> set (start_ops a w0)"
    using w(1) by (auto simp: start_ops_def start_hardware_def locked_def split: if_splits option.splits)
  then show ?thesis
    using loop_ops_end [OF w(2), of planned] w(1) by (simp add: worker_ops_def e Let_def flip: w0_def)
qed

text \<open>Every worker is marked as finished or going to be.\<close>

definition marked :: "pool \<Rightarrow> bool" where
  "marked = (\<lambda>(ps, m). \<forall>w < length ps. w \<in> m_finished m \<or> SetFinished \<in> set (ps ! w))"

lemma act_finished: "act w op m = (new, m') \<Longrightarrow> m_finished m' = (if op = SetFinished then insert w (m_finished m) else m_finished m)"
  by (cases op) (auto simp: say_def store_def Let_def)

lemma pstep_marked:
  assumes "pstep (ps, m) (qs, m')" "marked (ps, m)"
  shows "marked (qs, m')"
  using assms(1)
proof (cases rule: pstepE)
  case (worker w op rest new)
  have "v \<in> m_finished m' \<or> SetFinished \<in> set (qs ! v)" if v: "v < length ps" for v
    using v assms(2) act_finished [OF worker(5)] worker(2,3,6) by (cases "v = w") (auto simp: marked_def)
  then show ?thesis by (simp add: marked_def worker(6))
next
  case watchdog
  then show ?thesis using assms(2) watch_frame(4) by (simp add: marked_def)
qed

lemma pruns_marked: "pstep\<^sup>*\<^sup>* p q \<Longrightarrow> marked p \<Longrightarrow> marked q"
  by (induction rule: rtranclp_induct) (use pstep_marked in \<open>metis surj_pair\<close>)+

lemma pruns_no_hang: "pstep\<^sup>*\<^sup>* p q \<Longrightarrow> no_hang p \<Longrightarrow> no_hang q"
  by (induction rule: rtranclp_induct) (use pstep_no_hang in \<open>metis surj_pair\<close>)+

lemma start_pool_ends:
  assumes "fuzz_run eng env (launch hc exe opts) = Some ws"
  shows "no_hang (start_pool eng env hc exe opts) \<and> marked (start_pool eng env hc exe opts)"
proof -
  have "list_all2 (\<lambda>a w. Hang \<notin> set (worker_ops eng (o_iterations opts) env a) \<and>
      SetFinished \<in> set (worker_ops eng (o_iterations opts) env a)) (launch hc exe opts) ws"
    using assms unfolding fuzz_run_workers by (rule list_all2_mono) (rule worker_ops_end)
  then show ?thesis
    by (auto simp: start_pool_def no_hang_def marked_def list_all_length list_all2_conv_all_nth)
qed

lemma pool_ends:
  assumes "fuzz_run eng env (launch hc exe opts) = Some ws"
  shows "\<exists>m. ends_with (start_pool eng env hc exe opts) m"
proof -
  have "m_watchdog (fresh_memory s) \<noteq> WdKilled" for s by (simp add: fresh_memory_def)
  then show ?thesis
    using pruns_complete start_pool_orderly [of eng env hc exe opts] start_pool_ends [OF assms]
    unfolding start_pool_def ends_with_def by (metis surj_pair)
qed

subsection \<open>Every interleaving keeps to the file numbers\<close>

text \<open>The steps on the file numbers alone are those of \<open>wstep\<close>: a worker holds the number of a file from when it
  takes it until the file is complete; a number beyond the limit it takes and passes over at once.\<close>

definition is_finish :: "shared_op \<Rightarrow> bool" where
  "is_finish op = (case op of Finish d i f \<Rightarrow> True | _ \<Rightarrow> False)"

fun abs_pc :: "shared_op list \<Rightarrow> worker_pc" where
  "abs_pc [] = Running"
| "abs_pc (op # p) = (case op of Finish d i f \<Rightarrow> Holding d (nat i) | _ \<Rightarrow> abs_pc p)"

definition dir_counter :: "dump_dir \<Rightarrow> counter" where
  "dir_counter d = (case d of Findings \<Rightarrow> C_finding | Outliers \<Rightarrow> C_saved)"

definition abs_pool :: "pool \<Rightarrow> shared" where
  "abs_pool = (\<lambda>(ps, m). \<lparr>pcs = (\<lambda>w. if w < length ps then abs_pc (ps ! w) else Running),
     counts = (\<lambda>d. reading (dir_counter d) m), files = (\<lambda>d. map (\<lambda>x. nat (fst x)) (m_written m d))\<rparr>)"

text \<open>A worker is about to complete at most one file, and takes no number before it has; the number is below the limit.\<close>

fun ops_ok :: "shared_op list \<Rightarrow> bool" where
  "ops_ok [] = True"
| "ops_ok (op # p) = (case op of
     Finish d i f \<Rightarrow> 0 \<le> i \<and> i < int kMaxDumpFilesPerDir \<and> list_all (\<lambda>op. \<not> is_finish op) p
   | TakeFinding a t f \<Rightarrow> list_all (\<lambda>op. \<not> is_finish op) p
   | TakeOutlier f \<Rightarrow> list_all (\<lambda>op. \<not> is_finish op) p
   | _ \<Rightarrow> ops_ok p)"

lemma abs_pc_no_finish: "list_all (\<lambda>op. \<not> is_finish op) p \<Longrightarrow> abs_pc p = Running \<and> ops_ok p"
  by (induction p) (auto simp: is_finish_def split: shared_op.splits)

lemma later_ok:
  assumes "list_all (\<lambda>op. \<not> is_finish op) rest" "0 \<le> i"
  shows "abs_pc (outlier_ops i f @ rest) = (if nat i < kMaxDumpFilesPerDir then Holding Outliers (nat i) else Running)"
    "abs_pc (finding_ops i a t f @ rest) = (if nat i < kMaxDumpFilesPerDir then Holding Findings (nat i) else Running)"
    "ops_ok (outlier_ops i f @ rest)" "ops_ok (finding_ops i a t f @ rest)"
  using abs_pc_no_finish [OF assms(1)] assms
  by (auto simp: outlier_ops_def finding_ops_def locked_def nat_less_iff is_finish_def)

lemma index_small:
  assumes "unat (x :: u32) < 2 ^ 31"
  shows "sint x = int (unat x)" "unat (x + 1) = unat x + 1"
proof -
  have "int (unat x) < int (2 ^ 31)" using assms by (simp only: of_nat_less_iff)
  then have "uint x < 2 ^ 31" by simp
  moreover have "- (2 ^ 31) \<le> uint x" by (rule order.trans [of _ 0]) simp_all
  ultimately have "sint x = uint x"
    using signed_take_bit_int_eq_self_iff [of 31 "uint x"] by (simp add: sint_uint)
  then show "sint x = int (unat x)" by simp
  show "unat (x + 1) = unat x + 1" using assms by (simp add: unat_word_ariths)
qed

lemma abs_pool_upd:
  assumes "w < length ps"
  shows "abs_pool (ps[w := p], m) = (abs_pool (ps, m))\<lparr>pcs := (pcs (abs_pool (ps, m)))(w := abs_pc p)\<rparr>"
  using assms by (auto simp: abs_pool_def fun_eq_iff)

lemma abs_pool_store:
  "abs_pool (ps, store d i f m) = (abs_pool (ps, m))\<lparr>files := (files (abs_pool (ps, m)))(d := nat i # files (abs_pool (ps, m)) d)\<rparr>"
  unfolding abs_pool_def by (auto simp: fun_eq_iff) (auto simp: store_def)

lemma abs_pool_counter:
  assumes "\<And>c. c \<noteq> dir_counter d \<Longrightarrow> c = C_finding \<or> c = C_saved \<Longrightarrow> reading c m' = reading c m"
    "reading (dir_counter d) m' = Suc (reading (dir_counter d) m)" "m_written m' = m_written m"
  shows "abs_pool (ps, m') = (abs_pool (ps, m))\<lparr>counts := (counts (abs_pool (ps, m)))(d := Suc (counts (abs_pool (ps, m)) d))\<rparr>"
proof -
  have "reading (dir_counter e) m' = reading (dir_counter e) m" if "e \<noteq> d" for e
    using that by (intro assms(1)) (auto simp: dir_counter_def split: dump_dir.splits)
  then show ?thesis using assms(2,3) by (auto simp: abs_pool_def fun_eq_iff)
qed

lemma abs_pool_same:
  assumes "reading C_finding m' = reading C_finding m" "reading C_saved m' = reading C_saved m" "m_written m' = m_written m"
  shows "abs_pool (ps, m') = abs_pool (ps, m)"
proof -
  have "reading (dir_counter d) m' = reading (dir_counter d) m" for d
    using assms(1,2) by (simp add: dir_counter_def split: dump_dir.split)
  then show ?thesis using assms(3) by (simp add: abs_pool_def)
qed

lemma shared_upd_comm:
  "s\<lparr>counts := c, pcs := p\<rparr> = s\<lparr>pcs := p, counts := c\<rparr>" "s\<lparr>files := f, pcs := p\<rparr> = s\<lparr>pcs := p, files := f\<rparr>"
  by (cases s; simp)+

lemma pcs_abs_pool: "w < length ps \<Longrightarrow> pcs (abs_pool (ps, m)) w = abs_pc (ps ! w)"
  by (simp add: abs_pool_def)

lemma counts_abs_pool: "counts (abs_pool (ps, m)) d = reading (dir_counter d) m"
  by (simp add: abs_pool_def)

lemma sim_step:
  assumes "pstep (ps, m) (qs, m')" "list_all ops_ok ps" "\<And>d. reading (dir_counter d) m < 2 ^ 31"
  shows "list_all ops_ok qs \<and> wstep\<^sup>*\<^sup>* (abs_pool (ps, m)) (abs_pool (qs, m'))"
  using assms(1)
proof (cases rule: pstepE)
  case (worker w op rest new)
  let ?s = "abs_pool (ps, m)"
  note w = worker(2)
  have ok: "ops_ok (op # rest)" using assms(2) w worker(3) by (metis list_all_length)
  have pc: "pcs ?s w = abs_pc (op # rest)" by (simp add: pcs_abs_pool [OF w] worker(3))
  have oks: "ops_ok (new @ rest) \<Longrightarrow> list_all ops_ok qs"
    using assms(2) w unfolding worker(6) by (auto simp: list_all_length nth_list_update)
  note upd = abs_pool_upd [OF w, of "new @ rest" m', folded worker(6)]
  have take: ?thesis
    if o: "abs_pc (op # rest) = Running" "ops_ok (new @ rest)"
        "abs_pc (new @ rest) = (if reading (dir_counter d) m < kMaxDumpFilesPerDir then Holding d (reading (dir_counter d) m) else Running)"
      and m': "abs_pool (ps, m') = ?s\<lparr>counts := (counts ?s)(d := counts ?s d + 1)\<rparr>" for d
  proof -
    define c where "c = reading (dir_counter d) m"
    define t where "t = ?s\<lparr>pcs := (pcs ?s)(w := Holding d c), counts := (counts ?s)(d := counts ?s d + 1)\<rparr>"
    have t: "wstep ?s t"
      using take_index [of ?s w d] pc o(1) by (simp add: t_def c_def counts_abs_pool)
    have "wstep\<^sup>*\<^sup>* ?s (abs_pool (qs, m'))"
    proof (cases "c < kMaxDumpFilesPerDir")
      case True
      then have "abs_pool (qs, m') = t" using o(3) by (simp add: upd m' t_def c_def shared_upd_comm)
      then show ?thesis using t by blast
    next
      case False
      then have "abs_pool (qs, m') = t\<lparr>pcs := (pcs t)(w := Running)\<rparr>"
        using o(3) by (simp add: upd m' t_def c_def shared_upd_comm)
      moreover have "wstep t (t\<lparr>pcs := (pcs t)(w := Running)\<rparr>)"
        using False by (intro pass_over [of t w d c]) (simp_all add: t_def)
      ultimately show ?thesis using t by (metis converse_rtranclp_into_rtranclp r_into_rtranclp)
    qed
    then show ?thesis using oks o(2) by blast
  qed
  have quiet: ?thesis
    if o: "abs_pc (new @ rest) = abs_pc (op # rest)" "ops_ok (new @ rest)" and m': "abs_pool (ps, m') = ?s"
  proof -
    have "abs_pool (qs, m') = ?s" using pc o by (simp add: upd m') (metis fun_upd_triv shared.surjective shared.update_convs(1))
    then show ?thesis using oks o by simp
  qed
  have lt: "unat (m_finding_count m) < 2 ^ 31" "unat (m_outlier_saved m) < 2 ^ 31"
    using assms(3) [of Findings] assms(3) [of Outliers] by (simp_all add: dir_counter_def reading_def)
  note small = index_small [OF lt(1)] index_small [OF lt(2)]
  show ?thesis
  proof (cases op)
    case (TakeFinding a t f)
    then have r: "list_all (\<lambda>op. \<not> is_finish op) rest" using ok by simp
    show ?thesis
      by (rule take [where d = Findings])
        (use TakeFinding worker(5) abs_pc_no_finish [OF r] later_ok [OF r, of "sint (m_finding_count m)"] small
          in \<open>auto simp: dir_counter_def reading_def intro!: abs_pool_counter\<close>)
  next
    case (TakeOutlier f)
    then have r: "list_all (\<lambda>op. \<not> is_finish op) rest" using ok by simp
    show ?thesis
      by (rule take [where d = Outliers])
        (use TakeOutlier worker(5) abs_pc_no_finish [OF r] later_ok [OF r, of "sint (m_outlier_saved m)"] small
          in \<open>auto simp: dir_counter_def reading_def intro!: abs_pool_counter\<close>)
  next
    case (Finish d i f)
    then have i: "0 \<le> i" "i < int kMaxDumpFilesPerDir" and r: "abs_pc rest = Running" "ops_ok rest"
      using ok abs_pc_no_finish by simp_all
    have "abs_pool (ps, m\<lparr>m_open := None\<rparr>) = ?s" by (rule abs_pool_same) simp_all
    then have m': "abs_pool (ps, m') = ?s\<lparr>files := (files ?s)(d := nat i # files ?s d)\<rparr>" "new = []"
      using worker(5) by (auto simp: Finish abs_pool_store)
    have "wstep ?s (abs_pool (qs, m'))"
      using write_file [of ?s w d "nat i"] pc i r by (simp add: Finish upd m' shared_upd_comm nat_less_iff)
    then show ?thesis using oks r(2) m'(2) by simp
  next
    case (AddDone n)
    then show ?thesis
      by (intro quiet) (use worker(5) ok in \<open>auto simp: locked_def Let_def reading_def split: if_splits intro!: abs_pool_same\<close>)
  qed (rule quiet; use worker(5) ok in \<open>auto simp: reading_def say_def intro!: abs_pool_same\<close>)+
next
  case watchdog
  have "abs_pool (ps, m') = abs_pool (ps, m)" by (rule abs_pool_same) (simp_all add: watch_frame [OF watchdog(1)])
  then show ?thesis using assms(2) watchdog(2) by simp
qed

lemma pstep_exact:
  assumes "pstep (ps, m) (qs, m')" "reading c m + pending c ps < 2 ^ counter_bits c"
  shows "reading c m' + pending c qs = reading c m + pending c ps"
  using assms(1)
proof (cases rule: pstepE)
  case (worker w op rest new)
  note a = act_reading [OF worker(5), of c]
  have "pending c qs + adds c op = pending c ps"
    using sum_list_replace [OF worker(2), of "adds_list c" "new @ rest"] a worker(3,6) by (simp add: pending_def)
  then show ?thesis using a assms(2) by simp
qed (simp add: watch_frame(1))

lemma dir_counter_bits [simp]: "counter_bits (dir_counter d) = 32"
  by (simp add: counter_bits_def dir_counter_def split: dump_dir.split)

subsection \<open>Which reports are filed\<close>

text \<open>The order in which the workers take numbers: some interleaving of what each has to report.\<close>

inductive taken_from :: "'a list list \<Rightarrow> 'a list \<Rightarrow> 'a list list \<Rightarrow> bool" where
  taken_none: "taken_from L [] L"
| taken_next: "taken_from L seq M \<Longrightarrow> w < length M \<Longrightarrow> M ! w = x # r \<Longrightarrow> taken_from L (seq @ [x]) (M[w := r])"

definition op_report :: "dump_dir \<Rightarrow> shared_op \<Rightarrow> report list" where
  "op_report d op = (case op of
     TakeFinding a t f \<Rightarrow> if d = Findings then [f] else [] | TakeOutlier f \<Rightarrow> if d = Outliers then [f] else [] | _ \<Rightarrow> [])"

definition reports_of :: "dump_dir \<Rightarrow> shared_op list \<Rightarrow> report list" where
  "reports_of d p = concat (map (op_report d) p)"

text \<open>A file is the report with its number in that order.\<close>

definition filed :: "report list \<Rightarrow> int \<times> string \<times> string \<Rightarrow> bool" where
  "filed seq = (\<lambda>(i, file). 0 \<le> i \<and> i < int (min kMaxDumpFilesPerDir (length seq)) \<and> file = (seq ! nat i) i)"

definition finishes :: "dump_dir \<Rightarrow> report list \<Rightarrow> shared_op \<Rightarrow> bool" where
  "finishes d seq op = (case op of Finish e i f \<Rightarrow> e = d \<longrightarrow> (0 \<le> i \<and> i < int (min kMaxDumpFilesPerDir (length seq)) \<and> f = seq ! nat i)
     | _ \<Rightarrow> True)"

lemma filed_append: "filed seq x \<Longrightarrow> filed (seq @ ys) x"
  by (auto simp: filed_def nth_append)

lemma finishes_append: "finishes d seq op \<Longrightarrow> finishes d (seq @ ys) op"
  by (auto simp: finishes_def nth_append split: shared_op.splits)

definition in_order :: "shared_op list list \<Rightarrow> dump_dir \<Rightarrow> report list \<Rightarrow> pool \<Rightarrow> bool" where
  "in_order ps0 d seq = (\<lambda>(ps, m). taken_from (map (reports_of d) ps0) seq (map (reports_of d) ps) \<and>
     length seq = reading (dir_counter d) m \<and> list_all (list_all (finishes d seq)) ps \<and> list_all (filed seq) (m_written m d))"

lemma reports_of_simps [simp]:
  "reports_of d [] = []" "reports_of d (op # p) = op_report d op @ reports_of d p" "reports_of d (p @ q) = reports_of d p @ reports_of d q"
  by (simp_all add: reports_of_def)

lemma act_later:
  assumes "act w op m = (new, m')"
  shows "reports_of d new = []" "m_written m' d = (case op of Finish e i f \<Rightarrow> if e = d then (i, f i) # m_written m d else m_written m d
      | _ \<Rightarrow> m_written m d)"
    "length (op_report d op) = adds (dir_counter d) op"
  using assms
  by (cases op; auto simp: outlier_ops_def finding_ops_def locked_def op_report_def say_def store_def Let_def adds_def dir_counter_def
      split: if_splits dump_dir.splits)+

lemma later_finishes:
  "list_all (finishes Findings (seq @ [f])) (finding_ops (int (length seq)) a t f)"
  "list_all (finishes Outliers (seq @ [f])) (outlier_ops (int (length seq)) f)"
  "list_all (finishes Outliers seq') (finding_ops i a t f)" "list_all (finishes Findings seq') (outlier_ops i f)"
  by (auto simp: finding_ops_def outlier_ops_def locked_def finishes_def nth_append)

lemma act_finishes:
  assumes "act w op m = (new, m')" "length seq = reading (dir_counter d) m" "reading (dir_counter d) m < 2 ^ 31"
    "\<And>e. reading (dir_counter e) m < 2 ^ 31"
  shows "list_all (finishes d (seq @ op_report d op)) new"
proof -
  have lt: "unat (m_finding_count m) < 2 ^ 31" "unat (m_outlier_saved m) < 2 ^ 31"
    using assms(4) [of Findings] assms(4) [of Outliers] by (simp_all add: dir_counter_def reading_def)
  note small = index_small [OF lt(1)] index_small [OF lt(2)]
  have n: "sint (m_finding_count m) = int (length seq)" if "d = Findings"
    using that assms(2) small(1) by (simp add: dir_counter_def reading_def)
  have k: "sint (m_outlier_saved m) = int (length seq)" if "d = Outliers"
    using that assms(2) small(3) by (simp add: dir_counter_def reading_def)
  show ?thesis
  proof (cases op)
    case (TakeFinding a t f)
    then show ?thesis using assms(1) n later_finishes
      by (cases d) (auto simp: op_report_def)
  next
    case (TakeOutlier f)
    then show ?thesis using assms(1) k later_finishes
      by (cases d) (auto simp: op_report_def)
  qed (use assms(1) in \<open>auto simp: locked_def finishes_def Let_def split: if_splits\<close>)
qed

lemma pstep_in_order:
  assumes "pstep (ps, m) (qs, m')" "in_order ps0 d seq (ps, m)" "\<And>e. reading (dir_counter e) m < 2 ^ 31"
  shows "\<exists>ys. in_order ps0 d (seq @ ys) (qs, m')"
  using assms(1)
proof (cases rule: pstepE)
  case (worker w op rest new)
  note A = act_later [OF worker(5)]
  have I: "taken_from (map (reports_of d) ps0) seq (map (reports_of d) ps)" "length seq = reading (dir_counter d) m"
    "list_all (list_all (finishes d seq)) ps" "list_all (filed seq) (m_written m d)"
    using assms(2) by (simp_all add: in_order_def)
  let ?seq = "seq @ op_report d op"
  have hd: "finishes d seq op" "list_all (finishes d seq) rest"
    using I(3) worker(2,3) by (auto simp: list_all_length [of _ ps] dest: spec [of _ w])
  have qs: "map (reports_of d) qs = (map (reports_of d) ps)[w := reports_of d rest]"
    using A(1) by (simp add: worker(6) map_update)
  have "taken_from (map (reports_of d) ps0) ?seq (map (reports_of d) qs)"
  proof (cases "op_report d op = []")
    case True
    then have "reports_of d (ps ! w) = reports_of d rest" by (simp add: worker(3))
    then have "map (reports_of d) qs = map (reports_of d) ps" unfolding qs using worker(2) by (metis list_update_id nth_map)
    then show ?thesis using I(1) True by simp
  next
    case False
    then obtain f where f: "op_report d op = [f]" by (auto simp: op_report_def split: shared_op.splits if_splits)
    then show ?thesis unfolding qs f
      by (intro taken_next [OF I(1)]) (simp_all add: worker(2,3) f)
  qed
  moreover have "length ?seq = reading (dir_counter d) m'"
  proof -
    have "adds (dir_counter d) op \<le> 1" by (cases d) (simp_all add: adds_def dir_counter_def split: shared_op.split)
    then have "reading (dir_counter d) m + adds (dir_counter d) op < 2 ^ 32" using assms(3) [of d] by simp
    then show ?thesis using act_reading [OF worker(5), of "dir_counter d"] I(2) A(3) [of d] by simp
  qed
  moreover have "list_all (list_all (finishes d ?seq)) qs"
  proof -
    have "list_all (finishes d ?seq) (new @ rest)"
      using act_finishes [OF worker(5) I(2) assms(3) assms(3)] hd(2) finishes_append by (auto simp: list_all_iff)
    moreover have "list_all (finishes d ?seq) p" if "p \<in> set ps" for p
      using that I(3) finishes_append by (auto simp: list_all_iff)
    ultimately show ?thesis
      using set_update_subset_insert [of ps w "new @ rest"] unfolding worker(6) list_all_iff [of _ "ps[_ := _]"] by blast
  qed
  moreover have "list_all (filed ?seq) (m_written m' d)"
    using A(2) [of d] I(4) hd(1) filed_append
    by (cases op) (auto simp: list_all_iff finishes_def filed_def nth_append split: if_splits)
  ultimately show ?thesis by (auto simp: in_order_def)
next
  case watchdog
  then show ?thesis using assms(2) watch_frame [OF watchdog(1)]
    by (intro exI [of _ "[]"]) (simp add: in_order_def)
qed

lemma fresh_abs:
  assumes "list_all (list_all (\<lambda>op. \<not> is_finish op)) ps"
  shows "abs_pool (ps, fresh_memory s) = shared_init \<and> list_all ops_ok ps \<and> in_order ps d [] (ps, fresh_memory s)"
proof -
  have "abs_pc (ps ! w) = Running" if "w < length ps" for w
    using that assms abs_pc_no_finish by (simp add: list_all_length)
  moreover have "reading (dir_counter d) (fresh_memory s) = 0" for d
    by (simp add: dir_counter_def reading_def fresh_memory_def split: dump_dir.split)
  moreover have "list_all (list_all (finishes d [])) ps"
  proof -
    have "finishes d [] op" if "\<not> is_finish op" for op using that by (cases op) (simp_all add: finishes_def is_finish_def)
    then show ?thesis using assms by (auto simp: list_all_iff)
  qed
  ultimately show ?thesis
    using assms abs_pc_no_finish
    by (auto simp: abs_pool_def shared_init_def fresh_memory_def list_all_iff fun_eq_iff in_order_def intro: taken_none)
qed

lemma pruns_sim:
  assumes "pstep\<^sup>*\<^sup>* (ps0, fresh_memory s) (ps, m)" "list_all (list_all (\<lambda>op. \<not> is_finish op)) ps0"
    "\<And>d. pending (dir_counter d) ps0 < 2 ^ 31"
  shows "list_all ops_ok ps \<and> wreach (abs_pool (ps, m)) \<and>
    (\<forall>d. reading (dir_counter d) m + pending (dir_counter d) ps = pending (dir_counter d) ps0 \<and> (\<exists>seq. in_order ps0 d seq (ps, m)))"
  using assms(1)
proof (induction rule: rtranclp_induct2)
  case refl
  have "reading (dir_counter d) (fresh_memory s) = 0" for d
    by (simp add: dir_counter_def reading_def fresh_memory_def split: dump_dir.split)
  then show ?case using fresh_abs [OF assms(2)] wreach_init by auto
next
  case (step ps m qs m')
  have lt: "reading (dir_counter d) m + pending (dir_counter d) ps < 2 ^ 31" for d
    using step.IH assms(3) [of d] by simp
  then have r: "reading (dir_counter d) m < 2 ^ 31" for d using le_less_trans le_add1 by blast
  from sim_step [OF step.hyps(2) _ r] have s: "list_all ops_ok qs" "wstep\<^sup>*\<^sup>* (abs_pool (ps, m)) (abs_pool (qs, m'))"
    using step.IH by blast+
  have "wreach t" if "wstep\<^sup>*\<^sup>* u t" "wreach u" for u t
    using that by (induction rule: rtranclp_induct) (auto intro: wreach_step)
  then have "wreach (abs_pool (qs, m'))" using step.IH s(2) by blast
  moreover have "reading (dir_counter d) m' + pending (dir_counter d) qs = pending (dir_counter d) ps0" for d
  proof -
    have "reading (dir_counter d) m + pending (dir_counter d) ps < 2 ^ counter_bits (dir_counter d)"
      using lt [of d] by simp
    from pstep_exact [OF step.hyps(2) this] show ?thesis using step.IH by simp
  qed
  moreover have "\<exists>seq. in_order ps0 d seq (qs, m')" for d
    using step.IH pstep_in_order [OF step.hyps(2) _ r] by blast
  ultimately show ?case using s(1) by blast
qed

text \<open>A file that is open is what its writer, who has \<^verbatim>\<open>io_mutex\<close>, completes next.\<close>

lemma open_file:
  assumes "orderly (ps, m)" "m_open m = Some (d, i, x)"
  obtains w f rest where "w < length ps" "m_lock m Io = Some (Work w)" "ps ! w = Finish d i f # rest" "f i = x"
proof -
  obtain w where w: "m_lock m Io = Some (Work w)" using orderlyD(6) [OF assms(1)] assms(2) by auto
  have l: "w < length ps" by (rule orderlyD(2) [OF assms(1) w])
  have "m_lock m Compute \<noteq> Some (Work w)" using orderlyD(3) [OF assms(1)] w by blast
  then have p: "place_of m w = Writing (d, i, x)" using w assms(2) by (simp add: place_of_def)
  then obtain op rest where op: "ps ! w = op # rest" "moves (Writing (d, i, x)) op \<noteq> None"
    using orderlyD(1) [OF assms(1) l] by (cases "ps ! w") (auto split: option.splits)
  then obtain f where "op = Finish d i f" "f i = x" by (cases op) (auto simp: moves_def split: if_splits)
  then show thesis using that l w op(1) by blast
qed

text \<open>What is written is a report of some worker about one of its cases.\<close>

definition dump_path :: "string \<Rightarrow> dump_dir \<Rightarrow> string" where
  "dump_path exe d = exe_dir_of exe @ (case d of Findings \<Rightarrow> ''/findings'' | Outliers \<Rightarrow> ''/unicorn_outliers'')"

definition good_report :: "'j engines \<Rightarrow> string \<Rightarrow> worker_args list \<Rightarrow> dump_dir \<Rightarrow> report \<Rightarrow> bool" where
  "good_report eng exe as d f \<longleftrightarrow> (\<exists>a \<in> set as. \<forall>i. fst (f i) = finding_path (dump_path exe d) i \<and>
     file_ok eng (arg_seed a) (a_iterations a) (f i))"

definition good_op :: "'j engines \<Rightarrow> string \<Rightarrow> worker_args list \<Rightarrow> shared_op \<Rightarrow> bool" where
  "good_op eng exe as op = (case op of TakeFinding a t f \<Rightarrow> good_report eng exe as Findings f
     | TakeOutlier f \<Rightarrow> good_report eng exe as Outliers f
     | Finish d i f \<Rightarrow> good_report eng exe as d f | _ \<Rightarrow> True)"

definition good_file :: "'j engines \<Rightarrow> string \<Rightarrow> worker_args list \<Rightarrow> dump_dir \<Rightarrow> int \<times> string \<times> string \<Rightarrow> bool" where
  "good_file eng exe as d x \<longleftrightarrow> fst (snd x) = finding_path (dump_path exe d) (fst x) \<and>
     (\<exists>a \<in> set as. file_ok eng (arg_seed a) (a_iterations a) (snd x))"

definition good_pool :: "'j engines \<Rightarrow> string \<Rightarrow> worker_args list \<Rightarrow> pool \<Rightarrow> bool" where
  "good_pool eng exe as = (\<lambda>(ps, m). list_all (list_all (good_op eng exe as)) ps \<and>
     (\<forall>d. list_all (good_file eng exe as d) (m_written m d)))"

lemma good_report_file: "good_report eng exe as d f \<Longrightarrow> good_file eng exe as d (i, f i)"
  by (fastforce simp: good_report_def good_file_def)

lemma act_good:
  assumes "act w op m = (new, m')" "good_op eng exe as op" "\<forall>d. list_all (good_file eng exe as d) (m_written m d)"
  shows "list_all (good_op eng exe as) new \<and> (\<forall>d. list_all (good_file eng exe as d) (m_written m' d))"
  using assms
  by (cases op) (auto simp: good_op_def good_report_file say_def store_def outlier_ops_def finding_ops_def locked_def Let_def split: if_splits)

lemma pstep_good:
  assumes "pstep (ps, m) (qs, m')" "good_pool eng exe as (ps, m)"
  shows "good_pool eng exe as (qs, m')"
  using assms(1)
proof (cases rule: pstepE)
  case (worker w op rest new)
  have "good_op eng exe as op" "list_all (good_op eng exe as) rest"
    using assms(2) worker(2,3) by (auto simp: good_pool_def list_all_length [of _ ps] dest: spec [of _ w])
  then show ?thesis
    using act_good [OF worker(5)] assms(2) worker(2,6)
    by (auto simp: good_pool_def list_all_length [of _ ps] list_all_length [of _ "ps[_ := _]"] nth_list_update)
next
  case watchdog
  then show ?thesis using assms(2) watch_frame(2) [OF watchdog(1)] by (simp add: good_pool_def)
qed

lemma pruns_good: "pstep\<^sup>*\<^sup>* (ps0, m0) (ps, m) \<Longrightarrow> good_pool eng exe as (ps0, m0) \<Longrightarrow> good_pool eng exe as (ps, m)"
  by (induction rule: rtranclp_induct2) (auto dest: pstep_good)

lemma launch_dirs:
  "a \<in> set (launch hc exe opts) \<Longrightarrow> a_findings_dir a = dump_path exe Findings \<and> a_outliers_dir a = dump_path exe Outliers"
  by (auto simp: launch_def Let_def dump_path_def)

definition plain_good :: "'j engines \<Rightarrow> string \<Rightarrow> worker_args list \<Rightarrow> shared_op \<Rightarrow> bool" where
  "plain_good eng exe as op \<longleftrightarrow> good_op eng exe as op \<and> \<not> is_finish op"

lemma report_ops_good:
  assumes "a \<in> set as" "a_findings_dir a = dump_path exe Findings" "a_outliers_dir a = dump_path exe Outliers"
    "tc = nth_case eng (arg_seed a) k" "k < a_iterations a"
  shows "list_all (plain_good eng exe as) (report_ops a tc s u hw)"
proof -
  have "fst (write_finding d i tc l s u h ok ds) = finding_path d i" for d i l h ok ds by (simp add: write_finding_def)
  then show ?thesis
    using write_finding_file [OF assms(4,5)] assms(1-3)
    by (auto simp: report_ops_def plain_good_def good_op_def good_report_def is_finish_def Let_def split: triage_result.split intro!: bexI [of _ a])
qed

lemma say_good [simp]: "plain_good eng exe as (Say l)" "plain_good eng exe as AddHarnessError"
  "plain_good eng exe as (AddDone n)" "plain_good eng exe as (AddDiscards k)" "plain_good eng exe as (Lock l')"
  "plain_good eng exe as (Unlock l')" "plain_good eng exe as SetFinished" "plain_good eng exe as Hang"
  by (simp_all add: plain_good_def good_op_def is_finish_def)

lemma iteration_ops_good:
  assumes "worker_inv eng (arg_seed a) i w" "i < a_iterations a"
    and "a \<in> set as" "a_findings_dir a = dump_path exe Findings" "a_outliers_dir a = dump_path exe Outliers"
  shows "list_all (plain_good eng exe as) (iteration_ops eng a planned i w)"
proof -
  obtain v where b: "begin_iteration eng a i w = (nth_case eng (arg_seed a) i, v)"
    by (rule begin_iteration_inv [OF assms(1), of a]) (rule that)
  show ?thesis
    using report_ops_good [OF assms(3-5) refl assms(2)]
    by (auto simp: iteration_ops_def b announce_ops_def harness_ops_def locked_def split: sum.split prod.split option.split)
qed

lemma loop_ops_good:
  assumes "worker_inv eng (arg_seed a) i w" "i \<le> a_iterations a"
    and "a \<in> set as" "a_findings_dir a = dump_path exe Findings" "a_outliers_dir a = dump_path exe Outliers"
  shows "list_all (plain_good eng exe as) (loop_ops eng a planned [i..<a_iterations a] w)"
  using assms(1,2)
proof (induction "a_iterations a - i" arbitrary: i w)
  case (Suc k)
  then have l: "[i..<a_iterations a] = i # [Suc i..<a_iterations a]" "i < a_iterations a" by (simp_all add: upt_conv_Cons)
  have "list_all (plain_good eng exe as) (loop_ops eng a planned [Suc i..<a_iterations a] v)"
    if "run_iteration eng a i w = Some (False, v)" for v
    using Suc.hyps(1) [of "Suc i" v] Suc.hyps(2) run_iteration_inv [OF Suc.prems(1) that] l(2) by simp
  then show ?case
    using iteration_ops_good [OF Suc.prems(1) l(2) assms(3-5)] unfolding l(1) by (auto split: option.split bool.split)
qed simp

lemma worker_ops_good:
  assumes "a \<in> set (launch hc exe opts)"
  shows "list_all (plain_good eng exe (launch hc exe opts)) (worker_ops eng planned env a)"
proof -
  obtain hw j clock where e: "env (a_worker_id a) = (hw, j, clock)" by (cases "env (a_worker_id a)")
  have "list_all (plain_good eng exe (launch hc exe opts)) (loop_ops eng a planned [0..<a_iterations a] w)"
    if "start_hardware a (tick (new_worker eng a hw j clock)) = Some w" for w
    using start_hardware_inv [OF that] launch_dirs [OF assms] assms by (intro loop_ops_good) (simp_all add: arg_seed_def)
  then show ?thesis by (auto simp: worker_ops_def e Let_def start_ops_def locked_def split: option.split)
qed

lemma start_pool_good:
  "list_all (list_all (plain_good eng exe (launch hc exe opts))) (fst (start_pool eng env hc exe opts))"
  by (auto simp: start_pool_def list_all_iff [of "list_all _"] intro: worker_ops_good)

subsection \<open>How much an iteration does\<close>

lemma iteration_ops_weight: "sum_list (map op_weight (iteration_ops eng a planned i w)) \<le> 19"
  by (auto simp: iteration_ops_def announce_ops_def harness_ops_def report_ops_def locked_def op_weight_def Let_def
      split: prod.split sum.split option.split triage_result.split)

lemma loop_ops_bound:
  fixes f :: "shared_op \<Rightarrow> nat"
  assumes "\<And>i w. sum_list (map f (iteration_ops eng a planned i w)) \<le> b" "\<And>n. f (AddDiscards n) + f SetFinished = e"
  shows "sum_list (map f (loop_ops eng a planned xs w)) \<le> e + b * length xs"
proof (induction xs arbitrary: w)
  case (Cons i xs)
  have "sum_list (map f (iteration_ops eng a planned i w)) + n \<le> e + (b + b * length xs)" if "n \<le> e + b * length xs" for n
    using assms(1) [of i w] that by linarith
  from this [of 0] this [OF Cons.IH] show ?case by (auto split: option.split bool.split simp del: sum_list_eq_0_iff)
qed (simp add: assms(2))

lemma worker_ops_bound:
  fixes f :: "shared_op \<Rightarrow> nat" and eng :: "'j engines"
  assumes "\<And>w :: 'j worker. sum_list (map f (start_ops a w)) \<le> s"
    "\<And>w. sum_list (map f (loop_ops eng a planned [0..<a_iterations a] w)) \<le> b"
  shows "sum_list (map f (worker_ops eng planned env a)) \<le> s + b"
proof -
  have "sum_list (map f (start_ops a w)) + n \<le> s + b" if "n \<le> b" for n and w :: "'j worker"
    using assms(1) [of w] that by linarith
  from this [of 0] this [OF assms(2)] show ?thesis
    by (auto simp: worker_ops_def Let_def split: prod.split option.split simp del: sum_list_eq_0_iff)
qed

lemma worker_ops_weight: "sum_list (map op_weight (worker_ops eng planned env a)) \<le> 3 + (2 + 19 * a_iterations a)"
proof (rule worker_ops_bound)
  show "sum_list (map op_weight (start_ops a w)) \<le> 3" for w
    by (auto simp: start_ops_def locked_def op_weight_def split: option.split)
  show "sum_list (map op_weight (loop_ops eng a planned [0..<a_iterations a] w)) \<le> 2 + 19 * a_iterations a" for w
    using loop_ops_bound [where f = op_weight and e = 2 and xs = "[0..<a_iterations a]", OF iteration_ops_weight]
    by (simp add: op_weight_def)
qed

lemma start_pool_weight:
  "pool_weight (start_pool eng env hc exe opts) \<le> 5 * length (launch hc exe opts) + 19 * unat (o_iterations opts) + 5"
proof -
  have "sum_list (map (\<lambda>a. sum_list (map op_weight (worker_ops eng (o_iterations opts) env a))) as) \<le>
      5 * length as + 19 * sum_list (map a_iterations as)" for as
  proof (induction as)
    case (Cons a as)
    then show ?case using worker_ops_weight [of eng "o_iterations opts" env a] by simp
  qed simp
  from this [of "launch hc exe opts"] show ?thesis
    by (simp add: start_pool_def pool_weight_def comp_def launch_total fresh_memory_def phase_weight_def)
qed

lemma iteration_ops_reports: "adds_list (dir_counter d) (iteration_ops eng a planned i w) \<le> 1"
  by (cases d; auto simp: dir_counter_def iteration_ops_def announce_ops_def harness_ops_def report_ops_def locked_def adds_def Let_def
      split: prod.split sum.split option.split triage_result.split)

lemma worker_ops_reports: "adds_list (dir_counter d) (worker_ops eng planned env a) \<le> 0 + a_iterations a"
proof (rule worker_ops_bound)
  show "adds_list (dir_counter d) (start_ops a w) \<le> 0" for w
    by (auto simp: start_ops_def locked_def split: option.split)
  have "adds (dir_counter d) (AddDiscards n) + adds (dir_counter d) SetFinished = 0" for n by (simp add: adds_def dir_counter_def split: dump_dir.split)
  then show "adds_list (dir_counter d) (loop_ops eng a planned [0..<a_iterations a] w) \<le> a_iterations a" for w
    using loop_ops_bound [where f = "adds (dir_counter d)" and e = 0 and xs = "[0..<a_iterations a]", OF iteration_ops_reports]
    by simp
qed

lemma pool_reports:
  "pending (dir_counter d) (map (worker_ops eng planned env) (launch hc exe opts)) \<le> unat (o_iterations opts)"
proof -
  have "sum_list (map (\<lambda>a. adds_list (dir_counter d) (worker_ops eng planned env a)) as) \<le> sum_list (map a_iterations as)" for as
    by (rule sum_list_mono) (use worker_ops_reports in simp)
  from this [of "launch hc exe opts"] show ?thesis unfolding pending_def launch_total by (simp add: comp_def)
qed

subsection \<open>Properties of the whole pool\<close>

text \<open>
  C5: The counters do not depend on the interleaving. However the operating system schedules the threads'
  steps, the waits for the mutexes among them, once the workers have performed all of theirs the shared counters hold what the workers would have
  counted one at a time, summed, each reduced to its width: 32 bits for the findings and the saved
  outliers, 64 for the others. No update is lost. So what is proved of a run's sums holds of the last line.
\<close>
theorem interleaving_is_sum:
  assumes "fuzz_run eng env (launch hc exe opts) = Some ws" "ends_with (start_pool eng env hc exe opts) m"
  shows "let t = total_counters (map w_counters ws) in
    m_finding_count m = of_nat (finding_count t) \<and> m_outlier_saved m = of_nat (unicorn_outlier_saved t) \<and>
    m_outlier_count m = of_nat (unicorn_outlier_count t) \<and> m_harness_errors m = of_nat (hw_harness_errors t) \<and>
    m_discards m = of_nat (generator_discards t) \<and> m_done m = of_nat (total_done t)"
  using pool_counters [OF assms] by (simp add: Let_def)

text \<open>What is on disk when the process ends at a given moment: the complete files, and of the one that is open as much
  as has reached the disk: nothing, not even its name, or its first \<open>k\<close> characters.\<close>

definition cut :: "nat option \<Rightarrow> int \<times> string \<times> string \<Rightarrow> (int \<times> string \<times> string) list" where
  "cut k x = (case k of None \<Rightarrow> [] | Some n \<Rightarrow> [(fst x, fst (snd x), take n (snd (snd x)))])"

definition half_written :: "nat option \<Rightarrow> shared_memory \<Rightarrow> dump_dir \<Rightarrow> (int \<times> string \<times> string) list" where
  "half_written k m d = (case m_open m of None \<Rightarrow> [] | Some (e, x) \<Rightarrow> if e = d then cut k x else [])"

definition disk_at :: "nat option \<Rightarrow> shared_memory \<Rightarrow> dump_dir \<Rightarrow> (int \<times> string \<times> string) list" where
  "disk_at k m d = half_written k m d @ m_written m d"

lemma cut_fields: "x \<in> set (cut k y) \<Longrightarrow> fst x = fst y \<and> fst (snd x) = fst (snd y)" "length (cut k y) \<le> 1"
  by (cases k; simp add: cut_def)+

lemma half_written_cases:
  assumes "x \<in> set (half_written k m d)"
  obtains y where "m_open m = Some (d, y)" "fst x = fst y" "fst (snd x) = fst (snd y)"
proof (cases "m_open m")
  case None
  then show thesis using assms by (simp add: half_written_def)
next
  case (Some z)
  obtain e y where z: "z = (e, y)" by (cases z)
  then have "e = d" "x \<in> set (cut k y)" using assms Some by (simp_all add: half_written_def split: if_splits)
  then show thesis using that Some z cut_fields(1) by blast
qed

lemma half_written_one: "length (half_written k m d) \<le> 1"
  using cut_fields(2) by (simp add: half_written_def split: option.split prod.split)

text \<open>The number of a file and its path, the open one included, are nobody else's.\<close>

lemma disk_distinct:
  assumes "orderly (ps, m)" "list_all ops_ok ps" "wreach (abs_pool (ps, m))"
    and "\<And>d. list_all (good_file eng exe as d) (m_written m d)" "list_all (list_all (good_op eng exe as)) ps"
    and "\<And>d x. x \<in> set (m_written m d) \<Longrightarrow> 0 \<le> fst x"
  shows "distinct (map (\<lambda>(i, path, t). path) (disk_at k m Findings @ disk_at k m Outliers))"
proof -
  have inv: "winv (abs_pool (ps, m)) d" for d by (rule wreach_winv [OF assms(3)])
  define fp where "fp = (\<lambda>d i. finding_path (dump_path exe d) (int i))"
  have inj: "fp d i = fp d' j \<longleftrightarrow> d = d' \<and> i = j" if "i < kMaxDumpFilesPerDir" "j < kMaxDumpFilesPerDir" for d d' i j
    using that finding_path_inj [of i j "dump_path exe d" "dump_path exe d'"]
    by (auto simp: fp_def kMaxDumpFilesPerDir_def dump_path_def split: dump_dir.splits)
  have half: "0 \<le> fst x \<and> nat (fst x) < kMaxDumpFilesPerDir \<and> fst (snd x) = fp d (nat (fst x)) \<and> nat (fst x) \<notin> (\<lambda>x. nat (fst x)) ` set (m_written m d)"
    if half: "x \<in> set (half_written k m d)" for d x
  proof -
    obtain y where y: "m_open m = Some (d, y)" "fst x = fst y" "fst (snd x) = fst (snd y)" using half_written_cases [OF half] .
    obtain i z where z: "y = (i, z)" by (cases y)
    obtain w f rest where w: "w < length ps" "m_lock m Io = Some (Work w)" "ps ! w = Finish d i f # rest" "f i = z"
      using open_file [OF assms(1) y(1) [unfolded z]] .
    have "ops_ok (ps ! w)" "list_all (good_op eng exe as) (ps ! w)" using assms(2,5) w(1) by (metis list_all_length)+
    then have "ops_ok (Finish d i f # rest)" "good_op eng exe as (Finish d i f)" by (simp_all add: w(3))
    then have i: "0 \<le> i" "nat i < kMaxDumpFilesPerDir" "fst (f i) = finding_path (dump_path exe d) i"
      by (auto simp: nat_less_iff good_op_def good_report_def)
    have "holds (abs_pool (ps, m)) w d (nat i)" by (simp add: holds_def pcs_abs_pool [OF w(1)] w(3))
    then have "nat i \<notin> set (files (abs_pool (ps, m)) d)" using winvD(3) [OF inv [of d]] by blast
    then show ?thesis using y(2,3) z i w(4) by (auto simp: abs_pool_def fp_def)
  qed
  have written: "0 \<le> fst x \<and> nat (fst x) < kMaxDumpFilesPerDir \<and> fst (snd x) = fp d (nat (fst x))" if "x \<in> set (m_written m d)" for d x
    using that winvD(2) [OF inv [of d]] assms(4) [of d] assms(6) [OF that] by (auto simp: abs_pool_def good_file_def fp_def list_all_iff)
  have all: "nat (fst x) < kMaxDumpFilesPerDir \<and> fst (snd x) = fp d (nat (fst x))" if "x \<in> set (disk_at k m d)" for d x
    using that half [where x = x and d = d] written [where x = x and d = d] unfolding disk_at_def set_append by blast
  have idx: "distinct (map (\<lambda>x. nat (fst x)) (disk_at k m d))" for d
  proof -
    have "half_written k m d = [] \<or> (\<exists>x. half_written k m d = [x])" using half_written_one [of k m d] by (cases "half_written k m d") auto
    moreover have "distinct (map (\<lambda>x. nat (fst x)) (m_written m d))"
      using winvD(1) [OF inv [of d]] by (simp add: abs_pool_def)
    ultimately show ?thesis using half [where d = d] by (auto simp: disk_at_def)
  qed
  have path: "map (\<lambda>(i, path, t). path) (disk_at k m d) = map (fp d) (map (\<lambda>x. nat (fst x)) (disk_at k m d))" for d
    using all [of _ d] by auto
  have "distinct (map (fp d) (map (\<lambda>x. nat (fst x)) (disk_at k m d)))" for d
    unfolding distinct_map [of "fp d"] using idx [of d] all [of _ d] inj by (auto simp: inj_on_def)
  moreover have "fp Findings (nat (fst x)) \<noteq> fp Outliers (nat (fst y))"
    if "x \<in> set (disk_at k m Findings)" "y \<in> set (disk_at k m Outliers)" for x y
    using inj all [OF that(1)] all [OF that(2)] by blast
  then have "set (map (fp Findings) (map (\<lambda>x. nat (fst x)) (disk_at k m Findings))) \<inter>
      set (map (fp Outliers) (map (\<lambda>x. nat (fst x)) (disk_at k m Outliers))) = {}"
    unfolding disjoint_iff set_map image_image by (auto simp del: split_paired_All)
  ultimately show ?thesis unfolding map_append distinct_append path by blast
qed

text \<open>Once all workers are done, no file is open and no number below the limit is left out.\<close>

lemma done_files:
  assumes "orderly (ps, m)" "pool_done (ps, m)" "wreach (abs_pool (ps, m))" "\<And>d x. x \<in> set (m_written m d) \<Longrightarrow> 0 \<le> fst x"
  shows "m_open m = None" "fst ` set (m_written m d) = {0..<int (min kMaxDumpFilesPerDir (reading (dir_counter d) m))}"
proof -
  have e: "ps ! w = []" if "w < length ps" for w using that assms(2) by (simp add: pool_done_def list_all_length)
  show "m_open m = None"
  proof (rule ccontr)
    assume "m_open m \<noteq> None"
    then obtain d i x where "m_open m = Some (d, i, x)" by (cases "m_open m") auto
    from open_file [OF assms(1) this] e show False by (metis list.distinct(1))
  qed
  have inv: "winv (abs_pool (ps, m)) d" by (rule wreach_winv [OF assms(3)])
  have free: "\<not> holds (abs_pool (ps, m)) w d i" for w i
    using e by (auto simp: holds_def abs_pool_def)
  have "nat ` fst ` set (m_written m d) = {0..<min kMaxDumpFilesPerDir (reading (dir_counter d) m)}"
    using winvD(2,5) [OF inv] free by (auto simp: abs_pool_def image_image) force+
  then have "int ` nat ` fst ` set (m_written m d) = {0..<int (min kMaxDumpFilesPerDir (reading (dir_counter d) m))}"
    by (simp add: image_int_atLeastLessThan)
  then show "fst ` set (m_written m d) = {0..<int (min kMaxDumpFilesPerDir (reading (dir_counter d) m))}"
    using assms(4) by (simp add: image_image)
qed

lemma pool_files:
  assumes "fuzz_run eng env (launch hc exe opts) = Some ws"
    and "unat (o_iterations opts) < 2 ^ 31"
    and "pstep\<^sup>*\<^sup>* (start_pool eng env hc exe opts) (ps, m)"
  shows "(\<forall>k. distinct (map (\<lambda>(i, path, t). path) (disk_at k m Findings @ disk_at k m Outliers))) \<and>
    (\<forall>d. \<exists>seq rest. taken_from (map (reports_of d) (fst (start_pool eng env hc exe opts))) seq rest \<and>
       list_all (\<lambda>x. filed seq x \<and> good_file eng exe (launch hc exe opts) d x) (m_written m d) \<and>
       (\<forall>x. m_open m = Some (d, x) \<longrightarrow> filed seq x \<and> good_file eng exe (launch hc exe opts) d x \<and> (\<exists>w. m_lock m Io = Some (Work w))) \<and>
       (pool_done (ps, m) \<longrightarrow> m_open m = None \<and> concat rest = [] \<and>
          length seq = count_of (dir_counter d) (total_counters (map w_counters ws)) \<and>
          fst ` set (m_written m d) = {0..<int (min kMaxDumpFilesPerDir (length seq))}))"
proof -
  let ?as = "launch hc exe opts" let ?ps = "map (worker_ops eng (o_iterations opts) env) (launch hc exe opts)"
  let ?n = "\<lambda>d. count_of (dir_counter d) (total_counters (map w_counters ws))"
  have n: "?n d < 2 ^ 31" for d
    using pool_reports [of d eng "o_iterations opts" env hc exe opts] assms(2) by (simp add: pool_pending [OF assms(1)])
  have sim: "list_all ops_ok ps" "wreach (abs_pool (ps, m))" "reading (dir_counter d) m + pending (dir_counter d) ps = ?n d"
    "\<exists>seq. in_order ?ps d seq (ps, m)" for d
    using pruns_sim [OF assms(3) [unfolded start_pool_def]] start_pool_good [of eng exe hc opts env] n
    by (auto simp: start_pool_def pool_pending [OF assms(1)] plain_good_def list_all_iff)
  have good: "good_pool eng exe ?as (ps, m)"
    using pruns_good [OF assms(3) [unfolded start_pool_def], of eng exe ?as] start_pool_good [of eng exe hc opts env]
    by (auto simp: start_pool_def good_pool_def fresh_memory_def plain_good_def list_all_iff)
  then have g: "list_all (good_file eng exe ?as d) (m_written m d)" "list_all (list_all (good_op eng exe ?as)) ps" for d
    by (simp_all add: good_pool_def)
  have ord: "orderly (ps, m)" by (rule pruns_orderly [OF assms(3) start_pool_orderly])
  have nonneg: "0 \<le> fst x" if "x \<in> set (m_written m d)" for x d
    using sim(4) [of d] that by (auto simp: in_order_def list_all_iff filed_def)
  have "\<exists>seq rest. taken_from (map (reports_of d) (fst (start_pool eng env hc exe opts))) seq rest \<and>
       list_all (\<lambda>x. filed seq x \<and> good_file eng exe ?as d x) (m_written m d) \<and>
       (\<forall>x. m_open m = Some (d, x) \<longrightarrow> filed seq x \<and> good_file eng exe ?as d x \<and> (\<exists>w. m_lock m Io = Some (Work w))) \<and>
       (pool_done (ps, m) \<longrightarrow> m_open m = None \<and> concat rest = [] \<and> length seq = ?n d \<and>
          fst ` set (m_written m d) = {0..<int (min kMaxDumpFilesPerDir (length seq))})" for d
  proof -
    obtain seq where seq: "taken_from (map (reports_of d) ?ps) seq (map (reports_of d) ps)" "length seq = reading (dir_counter d) m"
      "list_all (list_all (finishes d seq)) ps" "list_all (filed seq) (m_written m d)"
      using sim(4) [of d] by (auto simp: in_order_def)
    have op: "filed seq x \<and> good_file eng exe ?as d x \<and> (\<exists>w. m_lock m Io = Some (Work w))" if o: "m_open m = Some (d, x)" for x
    proof -
      obtain i y where x: "x = (i, y)" by (cases x)
      obtain w f rest where w: "w < length ps" "m_lock m Io = Some (Work w)" "ps ! w = Finish d i f # rest" "f i = y"
        using open_file [OF ord o [unfolded x]] .
      have "list_all (finishes d seq) (ps ! w)" "list_all (good_op eng exe ?as) (ps ! w)"
        using seq(3) g(2) w(1) by (metis list_all_length)+
      then have "finishes d seq (Finish d i f)" "good_op eng exe ?as (Finish d i f)" by (simp_all add: w(3))
      then show ?thesis using good_report_file [of eng exe ?as d f i] w(2,4)
        by (auto simp: finishes_def filed_def good_op_def x)
    qed
    have dn: "m_open m = None \<and> concat (map (reports_of d) ps) = [] \<and> length seq = ?n d \<and>
        fst ` set (m_written m d) = {0..<int (min kMaxDumpFilesPerDir (length seq))}" if p: "pool_done (ps, m)"
    proof -
      have "length seq = ?n d" using seq(2) sim(3) [of d] pending_done [OF p] by simp
      moreover have "concat (map (reports_of d) ps) = []" using p by (auto simp: pool_done_def list_all_iff)
      ultimately show ?thesis using done_files [OF ord p sim(2) nonneg] seq(2) by simp
    qed
    show ?thesis
      using seq(1,4) g(1) [of d] op dn
      by (intro exI [of _ seq] exI [of _ "map (reports_of d) ps"]) (simp add: start_pool_def list_all_iff)
  qed
  moreover have "distinct (map (\<lambda>(i, path, t). path) (disk_at k m Findings @ disk_at k m Outliers))" for k
    by (rule disk_distinct [OF ord sim(1,2) g]) (rule nonneg)
  ultimately show ?thesis by blast
qed

text \<open>
  C6: The dump files are right under every interleaving, up to the moment the process ends, be it by the watchdog's
  TerminateProcess. There is an order in which the workers' reports took their numbers, an interleaving of each worker's own,
  such that every complete file is one of the first 250 reports in it, under its number in its directory, and
  describes a case that a worker drew. At most one file is cut short, at any character: one of these too, whose writer
  has \<^verbatim>\<open>io_mutex\<close>; and no path occurs twice. Once every worker is done no file is cut, and each directory
  holds exactly the first 250 reports, or all. This is so below 2^31 iterations, the numbers being ints.
\<close>
theorem dump_files_exact:
  assumes "fuzz_run eng env (launch hc exe opts) = Some ws"
    and "unat (o_iterations opts) < 2 ^ 31"
    and "pstep\<^sup>*\<^sup>* (start_pool eng env hc exe opts) (ps, m)"
  shows "(\<forall>k. distinct (map (\<lambda>(i, path, t). path) (disk_at k m Findings @ disk_at k m Outliers))) \<and>
    (\<forall>d. \<exists>seq rest. taken_from (map (reports_of d) (fst (start_pool eng env hc exe opts))) seq rest \<and>
       list_all (\<lambda>x. filed seq x \<and> good_file eng exe (launch hc exe opts) d x) (m_written m d) \<and>
       (\<forall>x. m_open m = Some (d, x) \<longrightarrow> filed seq x \<and> good_file eng exe (launch hc exe opts) d x \<and> (\<exists>w. m_lock m Io = Some (Work w))) \<and>
       (pool_done (ps, m) \<longrightarrow> m_open m = None \<and> concat rest = [] \<and>
          length seq = count_of (dir_counter d) (total_counters (map w_counters ws)) \<and>
          fst ` set (m_written m d) = {0..<int (min kMaxDumpFilesPerDir (length seq))}))"
  by (rule pool_files [OF assms])

lemma pruns_bound:
  assumes "(pstep ^^ n) (start_pool eng env hc exe opts) t"
  shows "n \<le> 5 * length (launch hc exe opts) + 19 * unat (o_iterations opts) + 5"
  using assms pruns_weight [of n "fst (start_pool eng env hc exe opts)" "snd (start_pool eng env hc exe opts)" "fst t" "snd t"]
    start_pool_weight [of eng env hc exe opts] by simp

text \<open>
  C28: The threads never lock each other out, given that every round of the hardware returns. At any moment before the watchdog
  has ended the process, if a worker has something left to do, then some worker can take a step, or the
  watchdog has \<^verbatim>\<open>io_mutex\<close> and can; so every schedule can be brought to the end of all workers, and then all
  are marked as finished, for which the watchdog's next poll returns. No schedule is longer than 19 steps for each
  iteration, 5 for each worker and 5 of the watchdog.
\<close>
theorem interleaving_terminates:
  assumes "fuzz_run eng env (launch hc exe opts) = Some ws" "(pstep ^^ n) (start_pool eng env hc exe opts) t"
  shows "n \<le> 5 * length (launch hc exe opts) + 19 * unat (o_iterations opts) + 5 \<and>
    (m_watchdog (snd t) \<noteq> WdKilled \<longrightarrow>
       (pool_done t \<or> (\<exists>w u. tstep (Work w) t u) \<or> m_lock (snd t) Io = Some Watchdog \<and> (\<exists>u. tstep Watchdog t u)) \<and>
       (\<exists>u. pstep\<^sup>*\<^sup>* t u \<and> pool_done u)) \<and>
    (pool_done t \<longrightarrow> {0..<length (fst t)} \<subseteq> m_finished (snd t))"
proof -
  obtain ps m where t: "t = (ps, m)" by fastforce
  have r: "pstep\<^sup>*\<^sup>* (start_pool eng env hc exe opts) (ps, m)" using assms(2) t by (simp add: relpowp_imp_rtranclp)
  have o: "orderly (ps, m)" by (rule pruns_orderly [OF r start_pool_orderly])
  have h: "no_hang (ps, m)" "marked (ps, m)"
    using pruns_no_hang [OF r] pruns_marked [OF r] start_pool_ends [OF assms(1)] by blast+
  have "{0..<length ps} \<subseteq> m_finished m" if "pool_done (ps, m)"
    using h(2) that by (auto simp: marked_def pool_done_def list_all_length)
  then show ?thesis
    using not_blocked [OF o h(1)] pruns_complete [OF o h(1)] pruns_bound [OF assms(2)] unfolding t by auto
qed

text \<open>
  C16: Whether the watchdog can end a process with a hung worker is decided by a lock. When it has made up its mind to
  and some worker takes no more steps, the schedules of the other threads are bounded, and when none of them can
  go on, the watchdog has ended the process exactly if the hung worker does not hold \<^verbatim>\<open>io_mutex\<close>: one that
  hangs in an engine, in the hardware round or while it waits is dealt with, but one that hangs while it prints or
  writes a dump file keeps the watchdog waiting for ever.
\<close>
theorem hung_worker_is_killed_iff:
  assumes "pstep\<^sup>*\<^sup>* (start_pool eng env hc exe opts) (ps, m)" "m_watchdog m = WdLocking w s"
  shows "(\<forall>n u. (without h ^^ n) (ps, m) u \<longrightarrow> n \<le> 5 * length (launch hc exe opts) + 19 * unat (o_iterations opts) + 5) \<and>
    (\<forall>u. (without h)\<^sup>*\<^sup>* (ps, m) u \<and> (\<nexists>v. without h u v) \<longrightarrow>
       (m_watchdog (snd u) = WdKilled \<longleftrightarrow> m_lock m Io \<noteq> Some (Work h)))"
proof (intro conjI allI impI)
  fix n u
  assume "(without h ^^ n) (ps, m) u"
  then have n: "(pstep ^^ n) (ps, m) u" using without_pstep by (metis relpowp_mono)
  obtain k where "(pstep ^^ k) (start_pool eng env hc exe opts) (ps, m)" using assms(1) rtranclp_imp_relpowp by metis
  then have "(pstep ^^ (k + n)) (start_pool eng env hc exe opts) u" using n by (auto simp: relpowp_add)
  then show "n \<le> 5 * length (launch hc exe opts) + 19 * unat (o_iterations opts) + 5" using pruns_bound by fastforce
next
  fix u
  assume u: "(without h)\<^sup>*\<^sup>* (ps, m) u \<and> (\<nexists>v. without h u v)"
  obtain qs m' where t: "u = (qs, m')" by fastforce
  have o: "orderly (ps, m)" by (rule pruns_orderly [OF assms(1) start_pool_orderly])
  have r: "orderly (qs, m')" "wd_fired (m_watchdog m')" "m_lock m' Io = Some (Work h) \<longleftrightarrow> m_lock m Io = Some (Work h)"
    "m_lock m Io = Some (Work h) \<longrightarrow> m_watchdog m' = WdLocking w s"
    using without_runs [OF _ o assms(2), of h qs m'] u t by simp_all
  have "m_watchdog m' = WdKilled" if "m_lock m Io \<noteq> Some (Work h)"
    using without_stuck [OF r(1,2)] r(3) that u t by blast
  then show "m_watchdog (snd u) = WdKilled \<longleftrightarrow> m_lock m Io \<noteq> Some (Work h)" using r(4) by (auto simp: t)
qed

text \<open>The numbers of the files come from an \<^verbatim>\<open>int\<close> that wraps: after 2^31 findings the limit is passed again.\<close>

lemma limit_lost_after_wrap:
  assumes "m_finding_count m = 2 ^ 31"
  shows "Finish Findings (- (2 ^ 31)) f \<in> set (fst (act w (TakeFinding a t f) m))"
  using assms by (simp add: finding_ops_def locked_def kMaxDumpFilesPerDir_def)

subsection \<open>Witnesses\<close>

text \<open>A Unicorn that stops one byte too far, and no engine under test: every case is a finding.\<close>

definition loud_engines :: "unit engines" where
  "loud_engines = idle_engines\<lparr>unicorn_lane := (\<lambda>tc. Inr (outcome_default\<lparr>after := reg_default\<lparr>rip := 1\<rparr>\<rparr>))\<rparr>"

abbreviation loud_pool :: pool where
  "loud_pool \<equiv> start_pool loud_engines idle_env 8 ''C:/f.exe'' idle_options"

lemma loud_decides: "a_no_seven a \<Longrightarrow> \<not> a_no_unicorn a \<Longrightarrow> engines_decide loud_engines a tc True"
  by (auto simp: engines_decide_def compute_def loud_engines_def judge_def triage_def Let_def diff_pair_disagree_Nil
      disagree_def lane_agree_def state_agree_def outcome_default_def reg_default_def)

lemma always_found:
  assumes "\<not> o_use_hw opts" "\<And>a tc. a \<in> set (launch hc exe opts) \<Longrightarrow> engines_decide eng a tc True"
  obtains ws where "fuzz_run eng env (launch hc exe opts) = Some ws"
    "finding_count (total_counters (map w_counters ws)) = unat (o_iterations opts)"
proof -
  have "\<exists>w. (case env (a_worker_id a) of (hw, j, clock) \<Rightarrow> run_worker eng a hw j clock) = Some w \<and>
      finding_count (w_counters w) = a_iterations a" if a: "a \<in> set (launch hc exe opts)" for a
    using run_worker_counts [where d = "\<lambda>k. True", OF assms(2) [OF a]] launch_fields(3) [OF a] assms(1) by (simp split: prod.split)
  then obtain ws where ws: "fuzz_run eng env (launch hc exe opts) = Some ws"
    "list_all2 (\<lambda>a w. finding_count (w_counters w) = a_iterations a) (launch hc exe opts) ws"
    by (rule fuzz_run_all)
  then show thesis
    using that sum_list_map2 [OF ws(2)] launch_total [of hc exe opts] by (simp add: total_counters_def comp_def)
qed

lemma loud_run:
  obtains ws m where "fuzz_run loud_engines idle_env (launch 8 ''C:/f.exe'' idle_options) = Some ws"
    "ends_with loud_pool m" "finding_count (total_counters (map w_counters ws)) = 3"
proof -
  have it: "unat (o_iterations idle_options) = 3" "\<not> o_use_hw idle_options" by (simp_all add: idle_options_def default_options_def)
  have "engines_decide loud_engines a tc True" if "a \<in> set (launch 8 ''C:/f.exe'' idle_options)" for a tc
    using launch_flags [OF that] by (intro loud_decides) (simp_all add: idle_options_def default_options_def)
  from always_found [OF it(2) this, where env = idle_env] show thesis using that pool_ends unfolding it(1) by metis
qed

theorem interleaving_is_sum_witness: "\<exists>m. ends_with loud_pool m \<and> m_finding_count m = 3"
proof (rule loud_run)
  fix ws m
  assume h: "fuzz_run loud_engines idle_env (launch 8 ''C:/f.exe'' idle_options) = Some ws" "ends_with loud_pool m"
    "finding_count (total_counters (map w_counters ws)) = 3"
  then have "m_finding_count m = 3" using interleaving_is_sum [OF h(1,2)] by (simp add: Let_def)
  then show ?thesis using h(2) by blast
qed

theorem dump_files_exact_witness: "\<exists>m. ends_with loud_pool m \<and> fst ` set (m_written m Findings) = {0, 1, 2}"
proof (rule loud_run)
  fix ws m
  assume h: "fuzz_run loud_engines idle_env (launch 8 ''C:/f.exe'' idle_options) = Some ws" "ends_with loud_pool m"
    "finding_count (total_counters (map w_counters ws)) = 3"
  have i: "unat (o_iterations idle_options) < 2 ^ 31" by (simp add: idle_options_def default_options_def)
  obtain ps where p: "pstep\<^sup>*\<^sup>* loud_pool (ps, m)" "pool_done (ps, m)" using h(2) unfolding ends_with_def by blast
  have "fst ` set (m_written m Findings) =
      {0..<int (min kMaxDumpFilesPerDir (count_of (dir_counter Findings) (total_counters (map w_counters ws))))}"
    using dump_files_exact [OF h(1) i p(1)] p(2) by metis
  also have "\<dots> = {0, 1, 2}" by (auto simp: dir_counter_def count_of_def h(3) kMaxDumpFilesPerDir_def)
  finally show ?thesis using h(2) by blast
qed

theorem interleaving_terminates_witness:
  "\<exists>u. pstep\<^sup>*\<^sup>* loud_pool u \<and> pool_done u \<and> {0..<length (fst u)} \<subseteq> m_finished (snd u)"
proof (rule loud_run)
  fix ws m
  assume h: "fuzz_run loud_engines idle_env (launch 8 ''C:/f.exe'' idle_options) = Some ws"
  have "m_watchdog (snd loud_pool) \<noteq> WdKilled" by (simp add: start_pool_def fresh_memory_def)
  then obtain u where u: "pstep\<^sup>*\<^sup>* loud_pool u" "pool_done u"
    using interleaving_terminates [OF h, of 0 loud_pool] by auto
  then obtain n where "(pstep ^^ n) loud_pool u" using rtranclp_imp_relpowp by metis
  then show ?thesis using interleaving_terminates [OF h] u by blast
qed

text \<open>The watchdog makes up its mind about worker 0, which then hangs, without a mutex or with \<^verbatim>\<open>io_mutex\<close>.\<close>

theorem hung_worker_is_killed_iff_witness:
  "\<exists>m w. pstep\<^sup>*\<^sup>* loud_pool (fst loud_pool, m) \<and> m_watchdog m = WdLocking w 60 \<and>
    (\<forall>u. (without 0)\<^sup>*\<^sup>* (fst loud_pool, m) u \<and> (\<nexists>v. without 0 u v) \<longrightarrow> m_watchdog (snd u) = WdKilled)"
proof -
  let ?m = "(fresh_memory 60)\<lparr>m_watchdog := WdLocking 0 60\<rparr>"
  have o: "o_watchdog idle_options = 60" by (simp add: idle_options_def default_options_def)
  have l: "0 < length (fst loud_pool)"
  proof -
    have "unat (choose_threads 8 (o_threads idle_options) (o_iterations idle_options)) = 2"
      by (simp add: idle_options_def default_options_def choose_threads_def)
    then have "map a_worker_id (launch 8 ''C:/f.exe'' idle_options) = map of_nat [0..<2]" by (simp only: launch_fields(1))
    then have "length (launch 8 ''C:/f.exe'' idle_options) = 2" using map_eq_imp_length_eq by fastforce
    then show ?thesis by (simp add: start_pool_def)
  qed
  have "watch (length (fst loud_pool)) (fresh_memory 60) ?m"
    using l by (intro watch_fire [where s = 60]) (simp_all add: fresh_memory_def)
  then have "pstep loud_pool (fst loud_pool, ?m)"
    using tstep_watchdog [of "fst loud_pool" "fresh_memory 60" ?m] unfolding pstep_def by (auto simp: start_pool_def o)
  then have p: "pstep\<^sup>*\<^sup>* loud_pool (fst loud_pool, ?m)" by blast
  have f: "m_lock ?m Io \<noteq> Some (Work 0)" "m_watchdog ?m = WdLocking 0 60" by (simp_all add: fresh_memory_def)
  show ?thesis
    using hung_worker_is_killed_iff [OF p f(2), of 0] p f by blast
qed

end
