(* ===== verification/Ending.thy ===== *)
theory Ending
  imports Concurrent HwContext
begin

section \<open>How a process ends, and what it leaves and prints\<close>

text \<open>
  The ends of \<^verbatim>\<open>src/main.cpp\<close>: the minidump writers with the handler that calls them, the translation of
  structured exceptions, the exit code of each way of running, the lines printed on the way, and what a
  sweep makes of it. Of the operating system the writers see whether the file can be created and
  what \<^verbatim>\<open>MiniDumpWriteDump\<close> answers; both are fields of \<open>dump_system\<close>.
\<close>

subsection \<open>Minidumps\<close>

record dump_system =
  can_create :: bool
  dump_result :: "u32 \<times> string + string"

datatype dump_call = CreateFileW string | MiniDumpWriteDump | CloseDumpFile

record dump_outcome =
  d_calls :: "dump_call list"
  d_file :: "string option"
  d_lines :: "string list"

text \<open>The directory as the dump writers take it from the executable's path; \<^verbatim>\<open>exe_dir\<close> differs without a separator.\<close>

definition dump_dir_of :: "string \<Rightarrow> string" where
  "dump_dir_of p = (if \<not> list_ex is_separator p then p else rev (tl (dropWhile (\<lambda>c. \<not> is_separator c) (rev p))))"

definition dump_file :: "string \<Rightarrow> string \<Rightarrow> string" where
  "dump_file exe name = dump_dir_of exe @ [CHR 0x5C] @ name"

text \<open>Both writers: create the file, dump into it, close it. Either half of the result decides on the line that is printed.\<close>

definition write_dump :: "dump_system \<Rightarrow> string \<Rightarrow> string \<Rightarrow> (u32 \<Rightarrow> string) \<Rightarrow> dump_outcome" where
  "write_dump sys path ok_line failed_line =
     (if \<not> can_create sys then \<lparr>d_calls = [CreateFileW path], d_file = None, d_lines = []\<rparr>
      else (case dump_result sys of
        Inr contents \<Rightarrow> \<lparr>d_calls = [CreateFileW path, MiniDumpWriteDump, CloseDumpFile], d_file = Some contents, d_lines = [ok_line]\<rparr>
      | Inl (err, contents) \<Rightarrow>
          \<lparr>d_calls = [CreateFileW path, MiniDumpWriteDump, CloseDumpFile], d_file = Some contents, d_lines = [failed_line err]\<rparr>))"

text \<open>The numbers of the exception codes, from the Windows headers.\<close>

definition code_number :: "exception_code \<Rightarrow> u32" where
  "code_number c = (case c of
     EXCEPTION_SINGLE_STEP \<Rightarrow> 0x80000004 | EXCEPTION_ACCESS_VIOLATION \<Rightarrow> 0xC0000005
   | EXCEPTION_ARRAY_BOUNDS_EXCEEDED \<Rightarrow> 0xC000008C | EXCEPTION_IN_PAGE_ERROR \<Rightarrow> 0xC0000006
   | EXCEPTION_ILLEGAL_INSTRUCTION \<Rightarrow> 0xC000001D | EXCEPTION_PRIV_INSTRUCTION \<Rightarrow> 0xC0000096
   | EXCEPTION_INT_DIVIDE_BY_ZERO \<Rightarrow> 0xC0000094 | EXCEPTION_INT_OVERFLOW \<Rightarrow> 0xC0000095
   | EXCEPTION_BREAKPOINT \<Rightarrow> 0x80000003 | Exception_other n \<Rightarrow> n)"

definition write_crash_dump :: "dump_system \<Rightarrow> string \<Rightarrow> exception_record \<Rightarrow> dump_outcome" where
  "write_crash_dump sys exe rec =
     (let path = dump_file exe ''crash.dmp'';
          what = ''[fatal] unhandled exception 0x'' @ fmt_X 8 (code_number (ExceptionCode rec)) @ '' at '' @
            fmt_X 16 (ExceptionAddress rec) @ '' -- ''
      in write_dump sys path (what @ ''wrote '' @ path @ newline)
        (\<lambda>err. what @ ''MiniDumpWriteDump FAILED (err='' @ fmt_u (unat err) @ ''), '' @ path @
           '' is empty/unusable -- process state was likely too corrupted to dump'' @ newline))"

definition write_hang_dump :: "dump_system \<Rightarrow> string \<Rightarrow> dump_outcome" where
  "write_hang_dump sys exe =
     (let path = dump_file exe ''watchdog_hang.dmp''
      in write_dump sys path (''[watchdog] wrote '' @ path @ newline)
        (\<lambda>err. ''[watchdog] MiniDumpWriteDump FAILED (err='' @ fmt_u (unat err) @ ''), '' @ path @
           '' is empty/unusable'' @ newline))"

text \<open>Every file that is created is closed, and nothing is printed about one that could not be.\<close>

lemma write_dump_closes:
  "MiniDumpWriteDump \<in> set (d_calls (write_dump sys path ok failed)) \<longleftrightarrow> CloseDumpFile \<in> set (d_calls (write_dump sys path ok failed))"
  "d_file (write_dump sys path ok failed) = None \<longleftrightarrow> d_lines (write_dump sys path ok failed) = []"
  by (simp_all add: write_dump_def split: sum.split)

lemma dump_dir_same: "list_ex is_separator p \<Longrightarrow> dump_dir_of p = exe_dir_of p"
  by (simp add: dump_dir_of_def exe_dir_of_def)

subsection \<open>Exceptions\<close>

text \<open>What the worker catches; a null record gives a null address.\<close>

datatype engine_exception = Seh u32 u64 | Cpp string | UnknownException

definition seh_translator :: "u32 \<Rightarrow> exception_record option \<Rightarrow> engine_exception" where
  "seh_translator code ep = Seh code (case ep of None \<Rightarrow> 0 | Some rec \<Rightarrow> ExceptionAddress rec)"

definition exception_text :: "engine_exception \<Rightarrow> string" where
  "exception_text e = (case e of
     Seh code address \<Rightarrow> ''structured exception 0x'' @ fmt_X 8 code @ '' at '' @ fmt_X 16 address
   | Cpp msg \<Rightarrow> ''C++ exception ('' @ msg @ '')''
   | UnknownException \<Rightarrow> ''unknown exception'')"

lemma exception_text_inj: "exception_text (Seh c a) = exception_text (Seh c' a') \<longleftrightarrow> c = c' \<and> a = a'"
proof
  have l: "length (fmt_X 8 (x :: u32)) = 8" for x by (rule length_fmt_X_exact) simp_all
  assume "exception_text (Seh c a) = exception_text (Seh c' a')"
  then show "c = c' \<and> a = a'" using l [of c] l [of c'] by (simp add: exception_text_def fmt_X_inj)
qed simp

subsection \<open>The lines of a run and of a sweep\<close>

definition main_lines :: "bool \<Rightarrow> u32 \<Rightarrow> host_caps \<Rightarrow> options \<Rightarrow> string list" where
  "main_lines guarded hw_conc caps opts =
     (let threads = choose_threads hw_conc (o_threads opts) (o_iterations opts) in
      (if guarded then [''seven-fuzzer: guard pages ON -- an access past the end of a guest page is a finding'' @ newline] else []) @
      [''seven-fuzzer: iterations='' @ fmt_u (unat (o_iterations opts)) @ '' seed=0x'' @ fmt_X 1 (o_seed opts) @
         '' hw='' @ (if o_use_hw opts then ''on'' else ''off'') @
         '' engine='' @ (if o_use_jit opts then ''seven-jit'' else ''seven'') @ '' threads='' @ fmt_u (unat threads) @ newline,
       ''seven-fuzzer: host simd = '' @ summary caps @ newline] @
      (if o_watchdog opts \<noteq> 0
       then [''seven-fuzzer: watchdog armed, '' @ fmt_u (unat (o_watchdog opts)) @
          '' second timeout (--watchdog-seconds 0 to disable)'' @ newline]
       else []))"

text \<open>The last line, from the shared counters.\<close>

definition last_line :: "shared_memory \<Rightarrow> string" where
  "last_line m = ''done. findings='' @ fmt_d (sint (m_finding_count m)) @ '' unicorn_only_outliers='' @
     fmt_u (unat (m_outlier_count m)) @ '' hw_harness_errors='' @ fmt_u (unat (m_harness_errors m)) @
     '' generator_discards='' @ fmt_u (unat (m_discards m)) @ newline"

definition sweep_head_line :: "u32 \<Rightarrow> u64 \<Rightarrow> u64 \<Rightarrow> bool \<Rightarrow> bool \<Rightarrow> u32 \<Rightarrow> string \<Rightarrow> string" where
  "sweep_head_line sweep_seeds iterations_per_seed base_seed use_jit use_hw watchdog_seconds dir =
     ''seven-fuzzer: sweeping '' @ fmt_u (unat sweep_seeds) @ '' seeds x '' @ fmt_u (unat iterations_per_seed) @
     '' iterations each (derived from base seed 0x'' @ fmt_X 1 base_seed @ ''), engine='' @
     (if use_jit then ''seven-jit'' else ''seven'') @ '' hw='' @ (if use_hw then ''on'' else ''off'') @
     '' watchdog='' @ fmt_u (unat watchdog_seconds) @ ''s -- results under '' @ dir @ newline"

text \<open>The error code is printed only of a child that could not be launched.\<close>

definition child_status :: "u32 \<Rightarrow> child_end \<Rightarrow> string" where
  "child_status err e = (case e of
     LaunchFailed \<Rightarrow> ''FAILED TO LAUNCH (err='' @ fmt_u (unat err) @ '')''
   | WaitTimeout \<Rightarrow> ''SUPERVISOR TIMEOUT (child'' @ [CHR 0x27] @ ''s own watchdog never fired)''
   | Exited code \<Rightarrow> if code = 2 then ''watchdog-killed'' else if code \<noteq> 0 then ''crashed'' else ''clean'')"

definition sweep_child_line :: "nat \<Rightarrow> u32 \<Rightarrow> u64 \<Rightarrow> u32 \<Rightarrow> child_end \<Rightarrow> string" where
  "sweep_child_line i sweep_seeds child_seed err e =
     ''[sweep '' @ fmt_u (i + 1) @ ''/'' @ fmt_u (unat sweep_seeds) @ ''] seed=0x'' @ fmt_X 1 child_seed @ '' '' @
     child_status err e @ newline"

definition sweep_last_line :: "u32 \<Rightarrow> sweep_counts \<Rightarrow> string \<Rightarrow> string" where
  "sweep_last_line sweep_seeds c dir =
     ''sweep done: '' @ fmt_u (unat sweep_seeds) @ '' seeds -- clean='' @ fmt_u (s_clean c) @ '' crashed='' @ fmt_u (s_crashed c) @
     '' watchdog_killed='' @ fmt_u (s_watchdog_killed c) @ '' supervisor_killed='' @ fmt_u (s_supervisor_killed c) @
     '' -- results under '' @ dir @ newline"

subsection \<open>The exit code\<close>

text \<open>What \<^verbatim>\<open>main\<close> depends on beside its arguments.\<close>

record 'j world =
  exe_path :: string
  concurrency :: u32
  guarded_build :: bool
  probe_page :: bool
  store_fault :: "exception_record option"
  past_payload :: "u64 \<Rightarrow> nat option"
  crash_code :: u32
  lanes :: "'j engines"
  sessions :: "u32 \<Rightarrow> hw \<times> 'j \<times> u64 stream"
  polls :: "(u64 \<times> heartbeat list) stream"
  io_free :: "bool stream"
  probe_seven :: "test_case \<Rightarrow> lane_outcome"
  probe_unicorn :: "test_case \<Rightarrow> lane_outcome"
  probe_session :: hw

text \<open>\<^verbatim>\<open>main\<close> joins the workers and then the watchdog, which may end the process before, or wait for ever.\<close>

definition fuzz_exit :: "u32 \<Rightarrow> (u64 \<times> heartbeat list) stream \<Rightarrow> bool stream \<Rightarrow> 'j worker list option \<Rightarrow> u32 option" where
  "fuzz_exit seconds samples io_mutex workers = (case run_watchdog seconds samples io_mutex of
     None \<Rightarrow> None
   | Some (WdKill w) \<Rightarrow> Some 2
   | Some _ \<Rightarrow> map_option (\<lambda>ws. 0) workers)"

definition main_exit :: "'j world \<Rightarrow> string list \<Rightarrow> u32 option" where
  "main_exit w args =
     (let opts = parse_args 1 args default_options in
      case main_mode args opts of
        SelfTest \<Rightarrow> Some (self_test_escape (guarded_build w) (probe_page w) (store_fault w) (past_payload w) (crash_code w))
      | SeedSweep \<Rightarrow> Some 0
      | ProbeBsrZero \<Rightarrow> map_option fst (probe_bsr_zero (probe_seven w) (probe_unicorn w) (probe_session w))
      | FuzzRun \<Rightarrow> fuzz_exit (o_watchdog opts) (polls w) (io_free w)
          (fuzz_run (lanes w) (sessions w) (launch (concurrency w) (exe_path w) opts)))"

lemma launch_work:
  assumes "a \<in> set (launch hc exe opts)" "0 < unat (o_iterations opts)"
  shows "0 < a_iterations a"
proof -
  let ?t = "choose_threads hc (o_threads opts) (o_iterations opts)"
  have t: "0 < unat ?t" "unat ?t \<le> unat (o_iterations opts)"
    and s: "list_all (\<lambda>s. unat (o_iterations opts) div unat ?t \<le> unat s) (shares ?t (o_iterations opts))"
    using shares_exact [of hc "o_threads opts" "o_iterations opts"] assms(2) by (auto simp: list_all_iff)
  then have "1 \<le> unat (o_iterations opts) div unat ?t" by (simp add: div_greater_zero_iff Suc_le_eq)
  then have "list_all (\<lambda>n. 0 < n) (map unat (shares ?t (o_iterations opts)))"
    using s by (fastforce simp: list_all_iff)
  then have "list_all (\<lambda>n. 0 < n) (map a_iterations (launch hc exe opts))" by (simp only: launch_fields(2))
  then show ?thesis using assms(1) by (simp add: list_all_iff)
qed

lemma fuzz_run_returns:
  assumes "\<not> o_use_hw opts"
  obtains ws where "fuzz_run eng env (launch hc exe opts) = Some ws"
proof -
  have "\<exists>w. (case env (a_worker_id a) of (hw, j, clock) \<Rightarrow> run_worker eng a hw j clock) = Some w \<and> True"
    if "a \<in> set (launch hc exe opts)" for a
    using run_worker_returns launch_fields(3) [OF that] assms by (auto split: prod.splits)
  then obtain ws where "fuzz_run eng env (launch hc exe opts) = Some ws"
    using fuzz_run_all [of "launch hc exe opts" eng env "\<lambda>a w. True"] by auto
  then show thesis by (rule that)
qed

text \<open>A worker whose engines raise an exception on its first case.\<close>

lemma crashing_worker:
  assumes "\<not> a_use_hw a" "0 < a_iterations a" "\<And>tc j. \<exists>ex. compute eng a tc j = Inl ex"
  shows "\<exists>w. run_worker eng a hw j clock = Some w \<and> total_done (w_counters w) = 0 \<and> finding_count (w_counters w) = 0 \<and>
    list_ex crashed (w_log w)"
proof -
  have l: "[0..<a_iterations a] = 0 # [1..<a_iterations a]" using assms(2) by (simp add: upt_conv_Cons)
  obtain w where w: "start_hardware a (tick (new_worker eng a hw j clock)) = Some w" "w_counters w = no_counts"
    using assms(1) by (simp add: start_hardware_def tick_def new_worker_def)
  obtain tc v where b: "begin_iteration eng a 0 w = (tc, v)" by fastforce
  obtain ex where ex: "compute eng a tc (w_jit v) = Inl ex" using assms(3) by blast
  show ?thesis
    using begin_iteration_counters [OF b] w(2)
    by (simp add: run_worker_def w(1) l run_iteration_def b ex print_def no_counts_def crashed_def)
qed

text \<open>
  C29: A crash that a worker catches goes unnoticed by a sweep. If the engines raise an exception on every test case,
  every worker ends on its first one and no iteration is completed, but nothing is counted, the program returns
  0 as after a clean run, and the sweep that started it as a child tallies it as clean.
\<close>
theorem caught_crash_is_clean:
  assumes "opts = parse_args 1 args default_options" "main_mode args opts = FuzzRun" "\<not> o_use_hw opts"
    and "0 < unat (o_iterations opts)" "run_watchdog (o_watchdog opts) (polls w) (io_free w) = Some WdReturn"
    and "\<And>a tc j. a \<in> set (launch (concurrency w) (exe_path w) opts) \<Longrightarrow> \<exists>ex. compute (lanes w) a tc j = Inl ex"
  shows "\<exists>ws. fuzz_run (lanes w) (sessions w) (launch (concurrency w) (exe_path w) opts) = Some ws \<and>
    list_all (\<lambda>v. list_ex crashed (w_log v) \<and> total_done (w_counters v) = 0 \<and> finding_count (w_counters v) = 0) ws \<and>
    main_exit w args = Some 0 \<and> count_child (Exited 0) c = c\<lparr>s_clean := s_clean c + 1\<rparr>"
proof -
  let ?as = "launch (concurrency w) (exe_path w) opts"
  have "\<exists>v. (case sessions w (a_worker_id a) of (hw, j, clock) \<Rightarrow> run_worker (lanes w) a hw j clock) = Some v \<and>
      (total_done (w_counters v) = 0 \<and> finding_count (w_counters v) = 0 \<and> list_ex crashed (w_log v))" if a: "a \<in> set ?as" for a
    using crashing_worker [OF _ launch_work [OF a assms(4)] assms(6) [OF a]] launch_fields(3) [OF a] assms(3)
    by (simp split: prod.split)
  then obtain ws where ws: "fuzz_run (lanes w) (sessions w) ?as = Some ws"
    "list_all2 (\<lambda>a v. total_done (w_counters v) = 0 \<and> finding_count (w_counters v) = 0 \<and> list_ex crashed (w_log v)) ?as ws"
    by (rule fuzz_run_all)
  have "main_exit w args = Some 0"
    using assms(2,5) ws(1) unfolding main_exit_def assms(1) [symmetric] by (simp add: fuzz_exit_def)
  then show ?thesis using ws by (auto simp: count_child_def list_all2_conv_all_nth list_all_length)
qed

definition crashing_world :: "unit world" where
  "crashing_world = \<lparr>exe_path = ''C:/f.exe'', concurrency = 8, guarded_build = False, probe_page = False, store_fault = None,
     past_payload = (\<lambda>a. None), crash_code = 0, lanes = idle_engines, sessions = idle_env, polls = sconst (5, []), io_free = sconst True,
     probe_seven = (\<lambda>tc. outcome_default), probe_unicorn = (\<lambda>tc. outcome_default),
     probe_session = demo_hw (sconst (None, \<lambda>v. v))\<rparr>"

theorem caught_crash_is_clean_witness: "main_exit crashing_world [''--no-hw''] = Some 0"
proof -
  define opts where "opts = default_options\<lparr>o_use_hw := False\<rparr>"
  have o: "opts = parse_args 1 [''--no-hw''] default_options" by (simp add: opts_def plain_option_def)
  have f: "main_mode [''--no-hw''] opts = FuzzRun" "\<not> o_use_hw opts" "0 < unat (o_iterations opts)"
    by (simp_all add: main_mode_def opts_def default_options_def)
  have wd: "run_watchdog (o_watchdog opts) (polls crashing_world) (io_free crashing_world) = Some WdReturn"
    by (subst run_watchdog.simps) (simp add: watchdog_poll_def opts_def default_options_def crashing_world_def)
  have "\<exists>ex. compute (lanes crashing_world) a tc j = Inl ex"
    if "a \<in> set (launch (concurrency crashing_world) (exe_path crashing_world) opts)" for a tc j
    using launch_flags [OF that] by (simp add: compute_def crashing_world_def idle_engines_def opts_def default_options_def)
  from caught_crash_is_clean [OF o f(1,2,3) wd this] show ?thesis by blast
qed

subsection \<open>The dump of a hang in a sweep\<close>

definition leave_dump :: "string \<Rightarrow> dump_outcome \<Rightarrow> directory \<Rightarrow> directory" where
  "leave_dump name out d = (case d_file out of None \<Rightarrow> d | Some contents \<Rightarrow> d(name \<mapsto> File contents))"

text \<open>A child that its watchdog ended is counted as such, and its dump is filed even when writing it failed half way.\<close>

lemma hang_is_filed:
  assumes "renames st = sconst True" "clean_dir (exe_dir st)" "can_create sys"
    and "\<And>d. child (mix_seed base 0) d = (Exited 2, leave_dump ''watchdog_hang.dmp'' (write_hang_dump sys exe) d)"
  shows "s_watchdog_killed (snd (run_seed_sweep child base 1 st)) = 1 \<and>
    sweep_dir (fst (run_seed_sweep child base 1 st)) (archived_as (mix_seed base 0) ''watchdog_hang.dmp'') =
      Some (File (case dump_result sys of Inl (err, contents) \<Rightarrow> contents | Inr contents \<Rightarrow> contents))"
proof -
  obtain ds where ds: "length ds = 1"
    "snd (run_seed_sweep child base 1 st) = sweep_tally (map2 (\<lambda>s d. fst (child s d)) (sweep_seeds_of base 1) ds)"
    "\<forall>i \<in> {0..<1}. \<forall>name \<in> set outputs.
       sweep_dir (fst (run_seed_sweep child base 1 st)) (archived_as (sweep_seeds_of base 1 ! i) name) =
       result_of (child (sweep_seeds_of base 1 ! i) (ds ! i)) name (sweep_dir st (archived_as (sweep_seeds_of base 1 ! i) name))"
    using sweep_archives [OF assms(1,2), of 1 child base] by auto
  have s: "sweep_seeds_of base 1 = [mix_seed base 0]" by (simp add: sweep_seeds_of_def)
  obtain d where d: "ds = [d]" using ds(1) by (cases ds) auto
  have f: "d_file (write_hang_dump sys exe) = Some (case dump_result sys of Inl (err, contents) \<Rightarrow> contents | Inr contents \<Rightarrow> contents)"
    using assms(3) by (simp add: write_hang_dump_def write_dump_def Let_def split: sum.split)
  show ?thesis
    using ds(2,3) assms(4) f unfolding s d
    by (simp add: outputs_def result_of_def kept_def leave_dump_def sweep_tally_def count_child_def)
qed

subsection \<open>The victim\<close>

text \<open>\<^verbatim>\<open>src/victim/victim_stub.cpp\<close>: a thread that is let run raises one breakpoint after the other, at the loop's address.\<close>

definition victim_main :: "u64 \<Rightarrow> exception_record stream" where
  "victim_main loop = sconst \<lparr>ExceptionCode = EXCEPTION_BREAKPOINT, NumberParameters = 0, ExceptionInformation = [], ExceptionAddress = loop\<rparr>"

text \<open>So a victim that was resumed without a new context gives itself away: no case it answers counts as retired.\<close>

lemma stray_victim_is_seen: "rec \<in> sset (victim_main loop) \<Longrightarrow> map_exception rec = Stop_bp"
  by (simp add: victim_main_def map_exception_def)

subsection \<open>A sweep of runs\<close>

text \<open>What a run leaves beside the executable: the files of both dump directories.\<close>

definition file_in :: "string \<Rightarrow> int \<times> string \<times> string \<Rightarrow> string \<times> string" where
  "file_in dir = (\<lambda>(i, path, t). (drop (length dir + 1) path, t))"

definition add_files :: "string \<Rightarrow> (string \<times> string) list \<Rightarrow> directory \<Rightarrow> directory" where
  "add_files name fs d =
     (if fs = [] then d
      else d(name \<mapsto> Dir ((case d name of Some (Dir es) \<Rightarrow> filter (\<lambda>e. fst e \<notin> fst ` set fs) es | _ \<Rightarrow> []) @ fs)))"

definition left_by :: "string \<Rightarrow> shared_memory \<Rightarrow> directory \<Rightarrow> directory" where
  "left_by exe m d =
     add_files ''unicorn_outliers'' (rev (map (file_in (dump_path exe Outliers)) (m_written m Outliers)))
       (add_files ''findings'' (rev (map (file_in (dump_path exe Findings)) (m_written m Findings))) d)"

text \<open>The options a sweep's child reads, and a child that is a run with them, in some order of its workers' steps.\<close>

definition child_options :: "options \<Rightarrow> u64 \<Rightarrow> options" where
  "child_options opts child_seed = parse_args 1 (sweep_args (o_iterations opts) child_seed (o_use_hw opts) (o_use_jit opts)
     (o_watchdog opts) (o_threads opts) (o_threads_explicit opts)) default_options"

definition runs_to_the_end :: "'j engines \<Rightarrow> (u64 \<Rightarrow> u32 \<Rightarrow> hw \<times> 'j \<times> u64 stream) \<Rightarrow> u32 \<Rightarrow> string \<Rightarrow> options \<Rightarrow> child \<Rightarrow> bool" where
  "runs_to_the_end eng env hc exe opts child \<longleftrightarrow> (\<forall>s d. \<exists>ws m.
     fuzz_run eng (env s) (launch hc exe (child_options opts s)) = Some ws \<and>
     ends_with (start_pool eng (env s) hc exe (child_options opts s)) m \<and> child s d = (Exited 0, left_by exe m d))"

text \<open>The reports of a run in the order in which they took their numbers, and the findings directory with the
  first 250 of them, each under its number, and nothing else.\<close>

definition finding_order :: "'j engines \<Rightarrow> (u32 \<Rightarrow> hw \<times> 'j \<times> u64 stream) \<Rightarrow> u32 \<Rightarrow> string \<Rightarrow> options \<Rightarrow> report list \<Rightarrow> bool" where
  "finding_order eng env hc exe opts seq \<longleftrightarrow>
     (\<exists>rest. taken_from (map (reports_of Findings) (fst (start_pool eng env hc exe opts))) seq rest \<and> concat rest = [])"

definition own_findings :: "'j engines \<Rightarrow> (u32 \<Rightarrow> hw \<times> 'j \<times> u64 stream) \<Rightarrow> u32 \<Rightarrow> string \<Rightarrow> options \<Rightarrow> nat \<Rightarrow> entry option \<Rightarrow> bool" where
  "own_findings eng env hc exe opts n e \<longleftrightarrow> (\<exists>seq fs. finding_order eng env hc exe opts seq \<and> length seq = n \<and>
     e = Some (Dir fs) \<and> length fs = min kMaxDumpFilesPerDir n \<and>
     set fs = (\<lambda>i. file_in (dump_path exe Findings) (int i, (seq ! i) (int i))) ` {0..<min kMaxDumpFilesPerDir n} \<and>
     list_all (\<lambda>f. \<exists>a \<in> set (launch hc exe opts). file_ok eng (arg_seed a) (a_iterations a) f) fs)"

lemma child_options_fields:
  "o_iterations (child_options opts s) = o_iterations opts" "o_use_hw (child_options opts s) = o_use_hw opts"
  "o_seed (child_options opts s) = s"
  unfolding child_options_def sweep_child_options by simp_all

lemma run_leaves:
  assumes "fuzz_run eng env (launch hc exe opts) = Some ws" "unat (o_iterations opts) < 2 ^ 31"
    and "ends_with (start_pool eng env hc exe opts) m" "d ''findings'' = None"
  defines "n \<equiv> finding_count (total_counters (map w_counters ws))"
  shows "if n = 0 then left_by exe m d ''findings'' = None
    else own_findings eng env hc exe opts n (left_by exe m d ''findings'') \<and> kept (left_by exe m d) ''findings''"
proof -
  obtain ps where ps: "pstep\<^sup>*\<^sup>* (start_pool eng env hc exe opts) (ps, m)" "pool_done (ps, m)"
    using assms(3) unfolding ends_with_def by blast
  let ?w = "m_written m Findings" and ?k = "min kMaxDumpFilesPerDir n"
  note F = pool_files [OF assms(1,2) ps(1)]
  obtain seq rest where q: "taken_from (map (reports_of Findings) (fst (start_pool eng env hc exe opts))) seq rest"
    "list_all (\<lambda>x. filed seq x \<and> good_file eng exe (launch hc exe opts) Findings x) ?w"
    "m_open m = None \<and> concat rest = [] \<and> length seq = count_of (dir_counter Findings) (total_counters (map w_counters ws)) \<and>
      fst ` set ?w = {0..<int (min kMaxDumpFilesPerDir (length seq))}"
    using conjunct2 [OF F, THEN spec, of Findings] ps(2) by blast
  have l: "length seq = n" using q(3) by (simp add: n_def dir_counter_def count_of_def)
  have seq: "finding_order eng env hc exe opts seq" "length seq = n" "m_open m = None"
    "list_all (\<lambda>x. filed seq x \<and> good_file eng exe (launch hc exe opts) Findings x) ?w" "fst ` set ?w = {0..<int ?k}"
    using q l unfolding finding_order_def by blast+
  have good: "list_all (good_file eng exe (launch hc exe opts) Findings) ?w" using seq(4) by (simp add: list_all_iff)
  have "distinct (map (\<lambda>(i, path, t). path) (disk_at None m Findings @ disk_at None m Outliers))" using F by blast
  then have paths: "distinct (map (\<lambda>(i, path, t). path) ?w)" by (simp add: disk_at_def half_written_def seq(3))
  have "map (\<lambda>(i, path, t). path) ?w = map (finding_path (dump_path exe Findings)) (map fst ?w)"
    using good by (auto simp: good_file_def list_all_iff)
  then have "distinct (map fst ?w)" using paths distinct_map [of "finding_path (dump_path exe Findings)" "map fst ?w"] by metis
  then have len: "length ?w = ?k" using distinct_card [of "map fst ?w"] seq(5) by simp
  have "set ?w = (\<lambda>i. (int i, (seq ! i) (int i))) ` {0..<?k}"
  proof
    show "set ?w \<subseteq> (\<lambda>i. (int i, (seq ! i) (int i))) ` {0..<?k}"
    proof
      fix x assume "x \<in> set ?w"
      then have "filed seq x" using seq(4) by (simp add: list_all_iff)
      moreover obtain i y where x: "x = (i, y)" by (cases x)
      ultimately have i: "0 \<le> i" "i < int ?k" "y = (seq ! nat i) i" by (simp_all add: filed_def seq(2))
      then have "nat i < ?k" by (simp only: nat_less_iff)
      then show "x \<in> (\<lambda>i. (int i, (seq ! i) (int i))) ` {0..<?k}"
        using i by (intro image_eqI [of _ _ "nat i"]) (simp_all add: x)
    qed
    show "(\<lambda>i. (int i, (seq ! i) (int i))) ` {0..<?k} \<subseteq> set ?w"
    proof
      fix x assume "x \<in> (\<lambda>i. (int i, (seq ! i) (int i))) ` {0..<?k}"
      then obtain i where i: "i < ?k" "x = (int i, (seq ! i) (int i))" by auto
      then have "int i \<in> fst ` set ?w" unfolding seq(5) by simp
      then obtain y where y: "y \<in> set ?w" "fst y = int i" by force
      then have "filed seq y" using seq(4) by (simp add: list_all_iff)
      moreover obtain f where "y = (int i, f)" using y(2) by (cases y) simp
      ultimately have "y = x" using i(2) by (simp add: filed_def)
      then show "x \<in> set ?w" using y(1) by simp
    qed
  qed
  then have files: "set (rev (map (file_in (dump_path exe Findings)) ?w)) =
      (\<lambda>i. file_in (dump_path exe Findings) (int i, (seq ! i) (int i))) ` {0..<?k}"
    by (simp add: image_image)
  have ok: "file_ok eng s k (file_in dir x) = file_ok eng s k (snd x)" for s k dir x
    by (cases x) (simp add: file_ok_def file_in_def)
  have left: "left_by exe m d ''findings'' =
      (if ?w = [] then None else Some (Dir (rev (map (file_in (dump_path exe Findings)) ?w))))"
    using assms(4) by (simp add: left_by_def add_files_def)
  show ?thesis
  proof (cases "n = 0")
    case True
    then have "?w = []" using len by simp
    then show ?thesis using left True by simp
  next
    case False
    then have ne: "?w \<noteq> []" using len by (auto simp: kMaxDumpFilesPerDir_def)
    have "list_all (\<lambda>f. \<exists>a \<in> set (launch hc exe opts). file_ok eng (arg_seed a) (a_iterations a) f)
        (rev (map (file_in (dump_path exe Findings)) ?w))"
      using good by (auto simp: list_all_iff good_file_def ok)
    then have "own_findings eng env hc exe opts n (left_by exe m d ''findings'')"
      using left ne len files seq(1,2) unfolding own_findings_def
      by (intro exI [of _ seq] exI [of _ "rev (map (file_in (dump_path exe Findings)) ?w)"]) simp
    moreover have "kept (left_by exe m d) ''findings''" using left ne by (simp add: kept_def is_empty_entry_def)
    ultimately show ?thesis using False by simp
  qed
qed

text \<open>
  C7: A sweep files under every seed the findings of that seed's run, with hardware or without. Suppose every child is a run
  of the program with the options it reads, under 2^31 iterations, that returns and exits with 0, whatever the order of
  its threads' steps. Then from a clean directory and with renames that succeed the archive of each derived seed
  holds exactly the first 250 findings of that seed's run, or all, in an order in which the workers' reports
  took their numbers: each under its number, each about a case that one of the workers drew. Where the run
  found nothing, what an earlier sweep archived is left in place.
\<close>
theorem sweep_of_runs:
  assumes "renames st = sconst True" "clean_dir (exe_dir st)" "n \<le> 2 ^ 32"
    and "unat (o_iterations opts) < 2 ^ 31" "runs_to_the_end eng env hc exe opts child"
  shows "\<forall>i \<in> {0..<n}.
    let s = sweep_seeds_of base n ! i; opts' = child_options opts s;
        filed = sweep_dir (fst (run_seed_sweep child base n st)) (archived_as s ''findings'')
    in \<exists>ws. fuzz_run eng (env s) (launch hc exe opts') = Some ws \<and>
      (let k = finding_count (total_counters (map w_counters ws)) in
       if k = 0 then filed = sweep_dir st (archived_as s ''findings'') else own_findings eng (env s) hc exe opts' k filed)"
proof
  fix i assume i: "i \<in> {0..<n}"
  obtain ds where ds: "length ds = n" "list_all clean_dir ds"
    "\<forall>i \<in> {0..<n}. \<forall>name \<in> set outputs.
       sweep_dir (fst (run_seed_sweep child base n st)) (archived_as (sweep_seeds_of base n ! i) name) =
       result_of (child (sweep_seeds_of base n ! i) (ds ! i)) name (sweep_dir st (archived_as (sweep_seeds_of base n ! i) name))"
    using sweep_archives [OF assms(1-3)] by blast
  define s where "s = sweep_seeds_of base n ! i"
  obtain ws m where ws: "fuzz_run eng (env s) (launch hc exe (child_options opts s)) = Some ws"
    and m: "ends_with (start_pool eng (env s) hc exe (child_options opts s)) m" "child s (ds ! i) = (Exited 0, left_by exe m (ds ! i))"
    using assms(5) unfolding runs_to_the_end_def by blast
  have "clean_dir (ds ! i)" using ds(1,2) i by (simp add: list_all_length)
  then have "(ds ! i) ''findings'' = None" by (simp add: clean_dir_names)
  moreover have "unat (o_iterations (child_options opts s)) < 2 ^ 31" using assms(4) by (simp add: child_options_fields)
  ultimately have left: "if finding_count (total_counters (map w_counters ws)) = 0 then left_by exe m (ds ! i) ''findings'' = None
    else own_findings eng (env s) hc exe (child_options opts s) (finding_count (total_counters (map w_counters ws)))
        (left_by exe m (ds ! i) ''findings'') \<and> kept (left_by exe m (ds ! i)) ''findings''"
    using run_leaves [OF ws _ m(1)] by blast
  have filed: "sweep_dir (fst (run_seed_sweep child base n st)) (archived_as s ''findings'') =
      (if kept (left_by exe m (ds ! i)) ''findings'' then left_by exe m (ds ! i) ''findings''
       else sweep_dir st (archived_as s ''findings''))"
    using ds(3) i m(2) by (simp add: outputs_def result_of_def s_def)
  have "let k = finding_count (total_counters (map w_counters ws)) in
     if k = 0 then sweep_dir (fst (run_seed_sweep child base n st)) (archived_as s ''findings'') = sweep_dir st (archived_as s ''findings'')
     else own_findings eng (env s) hc exe (child_options opts s) k
       (sweep_dir (fst (run_seed_sweep child base n st)) (archived_as s ''findings''))"
    using left by (auto simp: filed kept_def Let_def split: if_splits)
  then show "let s = sweep_seeds_of base n ! i; opts' = child_options opts s;
      filed = sweep_dir (fst (run_seed_sweep child base n st)) (archived_as s ''findings'')
    in \<exists>ws. fuzz_run eng (env s) (launch hc exe opts') = Some ws \<and>
      (let k = finding_count (total_counters (map w_counters ws)) in
       if k = 0 then filed = sweep_dir st (archived_as s ''findings'') else own_findings eng (env s) hc exe opts' k filed)"
    using ws unfolding Let_def s_def by blast
qed

text \<open>Engines that disagree on every case, and a sweep of two runs of three cases.\<close>

definition odd_engines :: "unit engines" where
  "odd_engines = loud_engines\<lparr>interpreter_lane := (\<lambda>tc. Inr outcome_default)\<rparr>"

definition odd_options :: options where
  "odd_options = default_options\<lparr>o_iterations := 3, o_use_hw := False\<rparr>"

theorem sweep_of_runs_witness:
  "\<exists>child. runs_to_the_end odd_engines (\<lambda>s. idle_env) 8 ''C:/f.exe'' odd_options child \<and>
    own_findings odd_engines idle_env 8 ''C:/f.exe'' (child_options odd_options (mix_seed 9 0)) 3
      (sweep_dir (fst (run_seed_sweep child 9 2 demo_fs)) (archived_as (mix_seed 9 0) ''findings''))"
proof -
  have hw: "\<not> o_use_hw (child_options odd_options s)" for s
    by (simp add: child_options_fields) (simp add: odd_options_def)
  have "\<exists>ws m. fuzz_run odd_engines idle_env (launch 8 ''C:/f.exe'' (child_options odd_options s)) = Some ws \<and>
      ends_with (start_pool odd_engines idle_env 8 ''C:/f.exe'' (child_options odd_options s)) m" for s
    using fuzz_run_returns [OF hw [of s], of odd_engines idle_env 8 "''C:/f.exe''"] pool_ends by metis
  then obtain f where f: "\<And>s. \<exists>ws. fuzz_run odd_engines idle_env (launch 8 ''C:/f.exe'' (child_options odd_options s)) = Some ws \<and>
      ends_with (start_pool odd_engines idle_env 8 ''C:/f.exe'' (child_options odd_options s)) (f s)"
    by metis
  then have c: "runs_to_the_end odd_engines (\<lambda>s. idle_env) 8 ''C:/f.exe'' odd_options (\<lambda>s d. (Exited 0, left_by ''C:/f.exe'' (f s) d))"
    unfolding runs_to_the_end_def by blast
  define s where "s = mix_seed 9 0"
  have o: "unat (o_iterations odd_options) < 2 ^ 31" "unat (o_iterations (child_options odd_options s)) = 3"
    by (simp_all add: child_options_fields) (simp_all add: odd_options_def default_options_def)
  have fs: "renames demo_fs = sconst True" "clean_dir (exe_dir demo_fs)" "(2 :: nat) \<le> 2 ^ 32"
    by (simp_all add: demo_fs_def clean_dir_def)
  have fl: "\<not> a_use_jit a" "\<not> a_no_unicorn a" "\<not> a_no_seven a" if "a \<in> set (launch 8 ''C:/f.exe'' (child_options odd_options s))" for a
    using launch_flags [OF that] unfolding child_options_def sweep_child_options by (simp_all add: odd_options_def default_options_def)
  have "engines_decide odd_engines a tc True" if "a \<in> set (launch 8 ''C:/f.exe'' (child_options odd_options s))" for a tc
    using fl [OF that]
    by (auto simp: engines_decide_def compute_def odd_engines_def loud_engines_def judge_def triage_def Let_def diff_pair_disagree_Nil
        disagree_def lane_agree_def state_agree_def outcome_default_def reg_default_def)
  then obtain ws where ws: "fuzz_run odd_engines idle_env (launch 8 ''C:/f.exe'' (child_options odd_options s)) = Some ws"
    "finding_count (total_counters (map w_counters ws)) = 3"
    using always_found [OF hw [of s], where env = idle_env and eng = odd_engines and hc = 8 and exe = "''C:/f.exe''"] unfolding o(2) by metis
  have seed: "sweep_seeds_of 9 2 ! 0 = s" by (simp add: sweep_seeds_of_def s_def)
  have "0 \<in> {0..<(2 :: nat)}" by simp
  note r = bspec [OF sweep_of_runs [OF fs o(1) c, of 9] this, unfolded Let_def seed]
  let ?filed = "sweep_dir (fst (run_seed_sweep (\<lambda>s d. (Exited 0, left_by ''C:/f.exe'' (f s) d)) 9 2 demo_fs)) (archived_as s ''findings'')"
  obtain vs where vs: "fuzz_run odd_engines idle_env (launch 8 ''C:/f.exe'' (child_options odd_options s)) = Some vs"
    "if finding_count (total_counters (map w_counters vs)) = 0 then ?filed = sweep_dir demo_fs (archived_as s ''findings'')
     else own_findings odd_engines idle_env 8 ''C:/f.exe'' (child_options odd_options s)
       (finding_count (total_counters (map w_counters vs))) ?filed"
    using r by blast
  have "vs = ws" using vs(1) ws(1) by (rule option.inject [THEN iffD1, OF trans [OF sym]])
  then have n: "finding_count (total_counters (map w_counters vs)) = 3" using ws(2) by blast
  have "own_findings odd_engines idle_env 8 ''C:/f.exe'' (child_options odd_options s) 3 ?filed"
    using vs(2) unfolding n by (simp only: zero_neq_numeral [symmetric] if_False)
  then show ?thesis using c unfolding s_def by blast
qed

end
