(* ===== verification/Spec2Isabelle.thy ===== *)
theory Spec2Isabelle
  imports GenSpec HwContext SevenLane UnicornLane Demo HwRun Ending
begin

text \<open>
  A verification library for seven-fuzzer, a differential fuzzer for x86-64 engines. The program
  generates single instructions with an initial machine state, runs each on several lanes (the engine
  under test \<^verbatim>\<open>seven\<close> or \<^verbatim>\<open>seven-jit\<close>, Unicorn, and the processor itself through a debugged victim
  process), compares the outcomes pairwise, and writes a report for each disagreement. \<^verbatim>\<open>main\<close> starts a
  worker per thread, with a seed mixed from the base seed and the worker's number, and a watchdog; a
  sweep starts the program again for each of many seeds and files what each child leaves behind.

  Theories and sources, in the order in which they build on each other:

    \<^item> \<open>Prelude\<close>: machine types, little-endian bytes, bit fields; \<open>Format\<close>: printf conversions and buffers.
    \<^item> \<open>Contract\<close>: \<^verbatim>\<open>src/common/types.hpp\<close>, the records that go between the parts, with the x87 tag rule.
    \<^item> \<open>HostCaps\<close>: \<^verbatim>\<open>src/common/host_caps.cpp\<close>, probing the processor for the families it can judge.
    \<^item> \<open>Draw\<close>, \<open>Instr\<close>, \<open>GenInt\<close>, \<open>GenFlow\<close>, \<open>GenArith\<close>, \<open>GenSimd\<close>, \<open>GenX87\<close>, \<open>GenNext\<close>, \<open>GenSpec\<close>:
      \<^verbatim>\<open>src/gen/instruction_gen.cpp\<close>, one definition per family and table, \<open>gen_next\<close> for
      \<^verbatim>\<open>InstructionGenerator::next\<close>; a generator is a state computation over the draws left.
    \<^item> \<open>Compare\<close>: \<^verbatim>\<open>diff_pair\<close> of \<^verbatim>\<open>src/main.cpp\<close>; \<open>Report\<close>: \<^verbatim>\<open>src/report/report.cpp\<close>.
    \<^item> \<open>Driver\<close>: seeds, command line, shares, one poll of the watchdog; \<open>Rounds\<close>: triage of a round and
      the interleaving of the workers on the file numbers; \<open>Sweep\<close>: \<^verbatim>\<open>run_seed_sweep\<close>; \<open>Worker\<close>:
      \<^verbatim>\<open>run_worker\<close>; \<open>Program\<close>: the rest of \<^verbatim>\<open>main\<close> and the watchdog's loop; \<open>Concurrent\<close>: all workers and the watchdog on
      the shared counters, files, console and the two mutexes, one step per atomic operation; \<open>Ending\<close>: minidumps, exceptions,
      the lines printed, the exit code, and a sweep whose children are runs; all \<^verbatim>\<open>src/main.cpp\<close>.
      \<open>HwRun\<close>: the events a system delivers to a session, and the workers it serves.
    \<^item> \<open>Machine\<close>: an abstract machine that every lane is to start and report (not in the source);
      \<open>Pages\<close>: partial memories.
    \<^item> \<open>HwContext\<close>, \<open>HwSession\<close>: \<^verbatim>\<open>src/lanes/hardware_lane.cpp\<close>, the conversion to and from \<^verbatim>\<open>CONTEXT\<close> and
      the session (\<open>spawn_fresh\<close>, \<open>run_one\<close>, \<open>teardown\<close>) over an operating system that is a stream of
      call results and debug events.
    \<^item> \<open>SevenLane\<close>, \<open>UnicornLane\<close>: the three emulator lanes over records of the engines' functions;
      \<open>Demo\<close>: engines for the witnesses.
    \<^item> this theory: the properties that span components.

  What the groups of lemmas show. Generator: every family keeps the pinned registers, the data page, the
  comparison masks and the operand kinds, each as its code's name demands (\<open>imm_kind\<close>; \<open>family_table\<close>, a locale interpreted on the program's table of
  families), so every test case is well formed for every seed and host. Lanes: the locale \<open>lane\<close> of
  \<open>Machine\<close> states the contract of a lane (prepare, one step, read back, against an instruction set);
  it is interpreted four times, as \<open>seven\<close>, \<open>seven_jit\<close>, \<open>unicorn\<close> and \<open>hardware\<close>, and the facts of
  these interpretations carry the properties about rounds. Comparison and report: \<open>diff_pair\<close> says
  exactly where two outcomes differ, no line is cut by its buffer, and a finding can be read back to
  the test case. Runs: the output of a worker depends on its seed and number alone, a run without hardware
  counts exactly the disagreements of the engines, a sweep files each child's output under its own seed.
  Concurrency: taking and releasing a mutex are steps, and so are opening and completing a dump file; the
  operations a worker performs do not depend on what the others do, and they are \<open>disciplined\<close> (no mutex under
  another, console and files only under \<^verbatim>\<open>io_mutex\<close>). From this follow, for every interleaving: the counters are
  those the workers would have alone, summed; the files are the first reports in the order in which numbers
  were taken (a simulation of the small machine \<open>wstep\<close>, whose invariant gives distinct and bounded files),
  but for at most one cut short when the process is killed; no two threads lock each other out; and the
  watchdog ends a hung process exactly if the hung worker does not have \<^verbatim>\<open>io_mutex\<close>, which it needs itself.
  \<open>run_with_hardware_is_exact\<close> puts the parts together: what a run counts is what the three instruction sets
  disagree on over the generated cases.

  Bounds: \<open>next\<close> tries 200 times and then hands out a NOP, so \<open>next_loop\<close> has that number as its fuel and
  never runs out; \<open>pump\<close> stops by itself after 10000 events and \<open>drain_to_exit\<close> after 50, and both recurse
  on what is left of these; a victim is replaced after 2000 cases; 250 files are written per directory.
  \<open>spawn_pump\<close>, \<open>lock_mutex\<close> and \<open>run_watchdog\<close> have no bound in the source: they are partial functions with an
  option as their result, and when they return is stated and proved.

  Parameters stand for what is not under \<^verbatim>\<open>src/\<close>: the random engine (a stream of numbers, reduced into the
  range as the distributions do), the encoder of iced-x86 (bytes, an error or an exception), seven and
  seven-jit (\<open>cpu_laws\<close>, \<open>memory_laws\<close>: a new state has the sizes its fields have, mapped pages are
  zero and read back what was written), Unicorn (\<open>uc_laws\<close>: the same for its calls), the processor, the
  operating system and the file system. That an engine implements some instruction set on a test case is a
  hypothesis of the properties about rounds and runs; which one is left open, and nothing is assumed of it.
  For a run with hardware the property's hypothesis is \<open>well_behaved\<close>: every call succeeds and the debug events
  are, for each case (\<open>visit\<close>), events that are passed over and the exception; wherever the session gives
  up its victim, whatever \<open>drain_to_exit\<close> accepts (no event at all, since the victim's last one has not been
  continued, or its exit); and before the next case the birth of another victim, different from the last.
  The two lanes of \<^verbatim>\<open>seven\<close> have the same helper functions in two files; the model has both and proves them equal.

  Widths: words have the source's width wherever the source computes with them. \<open>run_worker\<close> counts in natural
  numbers; the counters of \<open>Concurrent\<close> are 32 and 64 bits wide, and what is proved of them says so.

  Not modelled: exceptions other than those of the engines (a file system that refuses a directory or a file), the
  order in which the console receives lines of different streams, and the values that the three counters of
  a progress line may take between their loads (the line is one step). What a third-party engine does to its
  process (heap corruption) is not modelled either. An engine that never returns is a worker that takes no more
  steps; \<open>run_worker\<close> alone, in which the engines are functions, says nothing about it.
\<close>

section \<open>The fuzzer as a whole\<close>

lemma tc_ok_state_ok: "state_ok tc \<Longrightarrow> length (tc_bytes tc) \<le> kPageSize \<Longrightarrow> tc_ok tc"
  by (simp add: state_ok_def tc_ok_def)

lemma mask_inside: "fm AND NOT kCompareFlagsMask = 0 \<Longrightarrow> fm AND kCompareFlagsMask = fm"
  by (metis bit.conj_disj_distrib bit.disj_cancel_right and.right_neutral or.right_neutral)

text \<open>
  C8: All four lanes start a test case from the same abstract machine, whatever they have run before: the
  registers, the compared flags, the XMM and x87 registers, the instruction's bytes, the data page
  and the stack page are those of the test case, in seven's new state, in the JIT lane's reused
  memory, in Unicorn and in the victim process.
\<close>
theorem lanes_start_alike:
  assumes "tc_ok tc" "cpu_laws e" "memory_laws e view" "uc_laws api uview"
  shows "engine_machine (length (tc_bytes tc)) (prepare_seven tc (e, view, s, m)) = start_machine tc \<and>
    engine_machine (length (tc_bytes tc)) (prepare_seven_jit tc (e, view, s, m)) = start_machine tc \<and>
    uc_machine (length (tc_bytes tc)) (prepare_unicorn tc (api, uview, u)) = start_machine tc \<and>
    victim_machine (length (tc_bytes tc)) (prepared tc v) = start_machine tc"
  using assms seven.prepare_start [of "(e, view, s, m)" tc] seven_jit.prepare_start [of "(e, view, s, m)" tc]
    unicorn.prepare_start [of "(api, uview, u)" tc] hardware.prepare_start [of tc v]
  by (simp add: engine_usable_def uc_usable_def)

lemma nop_tc_ok: "tc_ok fallback_case"
  using fallback_state_ok by (rule tc_ok_state_ok) (simp add: fallback_case_def kPageSize_def)

theorem lanes_start_alike_witness:
  "engine_machine 1 (prepare_seven_jit fallback_case (plain_engine, \<lambda>m. m, new_cpu plain_engine, \<lambda>a. Some 0xCC)) =
     victim_machine 1 (prepared fallback_case \<lparr>vctx = blank_context, vmem = (\<lambda>a. 0xCC)\<rparr>)"
  using lanes_start_alike [OF nop_tc_ok plain_engine_laws plain_uc_laws, of "new_cpu plain_engine" "\<lambda>a. Some 0xCC"]
  by (simp add: fallback_case_def)

text \<open>What a round ought to report of three instruction sets.\<close>

definition isa_kind :: "test_case \<Rightarrow> fault + machine \<Rightarrow> fault + machine \<Rightarrow> fault + machine \<Rightarrow> report_kind" where
  "isa_kind tc s u h = (let agree = (\<lambda>fpu. machines_agree fpu (tc_flags_mask tc) (tc_gpr_compare_mask tc)) in
     if \<not> agree True s h then KFinding
     else if \<not> agree False s u \<or> \<not> agree False u h then KOutlier else KNone)"

lemma judged_kind:
  assumes "reports True s so" "reports False u uo" "reports True h ho" "tc_flags_mask tc AND NOT kCompareFlagsMask = 0"
  shows "kind_of (triage (judge label tc so uo (Some ho))) = isa_kind tc s u h"
proof -
  have f: "tc_flags_mask tc AND kCompareFlagsMask = tc_flags_mask tc" by (rule mask_inside [OF assms(4)])
  have ok: "setup_ok so" "setup_ok uo" "setup_ok ho" using assms(1-3) reports_ok by blast+
  have "disagree tc so ho \<longleftrightarrow> \<not> machines_agree True (tc_flags_mask tc) (tc_gpr_compare_mask tc) s h"
    "disagree tc so uo \<longleftrightarrow> \<not> machines_agree False (tc_flags_mask tc) (tc_gpr_compare_mask tc) s u"
    "disagree tc uo ho \<longleftrightarrow> \<not> machines_agree False (tc_flags_mask tc) (tc_gpr_compare_mask tc) u h"
    using lane_agree_machines [OF assms(1) assms(3) f] lane_agree_machines [OF assms(1) assms(2) f]
      lane_agree_machines [OF assms(2) assms(3) f]
    by (simp_all add: disagree_def ok)
  then show ?thesis
    by (auto simp: judge_def triage_def kind_of_def isa_kind_def Let_def diff_pair_disagree_Nil ok)
qed

text \<open>
  C2: A round reports exactly what the lanes' instruction sets disagree on. If seven, Unicorn and the
  processor each implement some instruction set on the test case, then comparing and triaging the
  outcomes of the three lanes gives a finding when the results of seven's and the processor's
  differ in a compared part, a Unicorn outlier when only Unicorn's differs, and nothing otherwise:
  no lane adds or hides a difference.
\<close>
theorem round_exact:
  assumes "tc_ok tc" "tc_flags_mask tc AND NOT kCompareFlagsMask = 0"
    and "cpu_laws e" "memory_laws e view" "seven_implements isa_s e view step tc"
    and "uc_laws api uview" "unicorn_implements isa_u api uview tc"
    and "ready ses" "oks ses = sconst True" "shd (waits ses) = (Some de, f)" "exception_of de = Some rec"
    and "victim_implements isa_h tc rec f (vic ses)"
  shows "map_option (\<lambda>(h, t). kind_of (triage (judge label tc (run_seven e step tc) (fst (run_unicorn api tc)) (Some h))))
      (run_one tc ses) =
    Some (isa_kind tc (isa_s (start_machine tc)) (isa_u (start_machine tc)) (isa_h (start_machine tc)))"
proof -
  obtain h t where r: "run_one tc ses = Some (h, t)"
    using run_one_step [OF assms(8-11), of tc] by auto
  then have "reports True (isa_h (start_machine tc)) h"
    by (intro run_one_reports [OF assms(1) assms(8-12)]) simp
  then show ?thesis
    using judged_kind [OF run_seven_reports [OF assms(3,4,1,5)] run_unicorn_reports [OF assms(6,1,7)] _ assms(2)] by (simp add: r)
qed

lemma nop_session_facts:
  "ready nop_session" "oks nop_session = sconst True" "shd (waits nop_session) = (Some nop_event, nop_victim)"
  "exception_of nop_event = Some nop_trap"
  by (simp_all add: nop_session_def demo_hw_def exception_of_def nop_event_def)

theorem round_exact_witness:
  "map_option (\<lambda>(h, t). kind_of (triage (judge ''seven'' fallback_case (run_seven plain_engine nop_step fallback_case)
      (fst (run_unicorn plain_uc fallback_case)) (Some h)))) (run_one fallback_case nop_session) = Some KNone"
  using round_exact [OF nop_tc_ok _ plain_engine_laws nop_seven_implements [OF nop_tc_ok] plain_uc_laws
      nop_unicorn_implements [OF nop_tc_ok] nop_session_facts nop_victim_implements, of "''seven''"] fallback_state_ok
  by (simp add: isa_kind_def state_ok_def)

lemma generated_case_ok:
  assumes "\<And>i bs. enc kCodeBase i = EncOk bs \<Longrightarrow> length bs \<le> 15"
  shows "tc_ok (fst (gen_next (kFamilies caps) enc g))"
    "tc_flags_mask (fst (gen_next (kFamilies caps) enc g)) AND NOT kCompareFlagsMask = 0"
proof -
  define tc where "tc = fst (gen_next (kFamilies caps) enc g)"
  have st: "state_ok tc" unfolding tc_def by (rule gen_next_state_ok)
  moreover have "length (tc_bytes tc) \<le> 15"
    using gen_next_bytes [of enc caps g] assms unfolding tc_def by (auto simp: fallback_case_def)
  ultimately show "tc_ok (fst (gen_next (kFamilies caps) enc g))"
    unfolding tc_def [symmetric] by (intro tc_ok_state_ok) (simp_all add: kPageSize_def)
  show "tc_flags_mask (fst (gen_next (kFamilies caps) enc g)) AND NOT kCompareFlagsMask = 0"
    unfolding tc_def [symmetric] using st by (simp add: state_ok_def)
qed

text \<open>
  C3: No false alarm on any generated case: for every test case the generator hands out, whatever the random
  engine and the host and for every encoder of at most fifteen bytes, if the JIT, Unicorn and the
  processor implement the same instruction set on it, the round reports nothing. This is where the
  generator's invariant meets the lanes: an x87 state without its well-tagged word, or a comparison
  mask beyond the status flags, would be reported although the engines agree.
\<close>
theorem generated_round_is_silent:
  assumes "tc = fst (gen_next (kFamilies caps) enc g)" "\<And>i bs. enc kCodeBase i = EncOk bs \<Longrightarrow> length bs \<le> 15"
    and "cpu_laws e" "memory_laws e view" "jit_implements isa e view run tc j m"
    and "uc_laws api uview" "unicorn_implements isa api uview tc"
    and "ready ses" "oks ses = sconst True" "shd (waits ses) = (Some de, f)" "exception_of de = Some rec"
    and "victim_implements isa tc rec f (vic ses)"
  shows "map_option (\<lambda>(h, t). triage (judge label tc (fst (run_seven_jit e run tc j m)) (fst (run_unicorn api tc)) (Some h)))
      (run_one tc ses) = Some NoReport"
proof -
  have ok: "tc_ok tc" "tc_flags_mask tc AND NOT kCompareFlagsMask = 0"
    using generated_case_ok [of enc caps g] assms(1,2) by simp_all
  obtain h t where r: "run_one tc ses = Some (h, t)"
    using run_one_step [OF assms(8-11), of tc] by auto
  then have h: "reports True (isa (start_machine tc)) h"
    by (intro run_one_reports [OF ok(1) assms(8-12)]) simp
  have "kind_of (triage (judge label tc (fst (run_seven_jit e run tc j m)) (fst (run_unicorn api tc)) (Some h))) = KNone"
    using judged_kind [OF run_seven_jit_reports [OF assms(3,4) ok(1) assms(5)] run_unicorn_reports [OF assms(6) ok(1) assms(7)] h ok(2)]
    by (simp add: isa_kind_def)
  then show ?thesis by (simp add: r kind_of_def split: triage_result.splits)
qed

theorem generated_round_is_silent_witness:
  "map_option (\<lambda>(h, t). triage (judge ''seven-jit'' fallback_case
      (fst (run_seven_jit plain_engine nop_run fallback_case () (\<lambda>a. Some 0xCC)))
      (fst (run_unicorn plain_uc fallback_case)) (Some h))) (run_one fallback_case nop_session) = Some NoReport"
proof -
  have g: "fallback_case = fst (gen_next (kFamilies caps) (\<lambda>ip i. EncErr) g)" for caps g
    using gen_next_bytes [of "\<lambda>ip i. EncErr" caps g] by simp
  show ?thesis
    by (rule generated_round_is_silent [OF g _ plain_engine_laws nop_jit_implements [OF nop_tc_ok] plain_uc_laws
        nop_unicorn_implements [OF nop_tc_ok] nop_session_facts nop_victim_implements]) simp
qed

section \<open>A whole run\<close>

text \<open>The engines a worker calls, made of the lanes; the JIT lane's state is the executor with its memory.\<close>

definition with_lanes where
  "with_lanes e step run api eng = eng\<lparr>
     unicorn_lane := (\<lambda>tc. Inr (fst (run_unicorn api tc))),
     interpreter_lane := (\<lambda>tc. Inr (run_seven e step tc)),
     jit_lane := (\<lambda>(j, m) tc. Inr (case run_seven_jit e run tc j m of (out, j, m) \<Rightarrow> (out, j, m)))\<rparr>"

definition disagreeing :: "isa \<Rightarrow> isa \<Rightarrow> test_case \<Rightarrow> bool" where
  "disagreeing isa_s isa_u tc \<longleftrightarrow> \<not> machines_agree False (tc_flags_mask tc) (tc_gpr_compare_mask tc)
     (isa_s (start_machine tc)) (isa_u (start_machine tc))"

lemma judged_without_hardware:
  assumes "reports True s so" "reports False u uo" "tc_flags_mask tc AND NOT kCompareFlagsMask = 0"
  shows "(triage (judge label tc so uo None) \<noteq> NoReport) =
    (\<not> machines_agree False (tc_flags_mask tc) (tc_gpr_compare_mask tc) s u)"
proof -
  have f: "tc_flags_mask tc AND kCompareFlagsMask = tc_flags_mask tc" by (rule mask_inside [OF assms(3)])
  have ok: "setup_ok so" "setup_ok uo" using assms(1,2) reports_ok by blast+
  then have "disagree tc so uo \<longleftrightarrow> \<not> machines_agree False (tc_flags_mask tc) (tc_gpr_compare_mask tc) s u"
    using lane_agree_machines [OF assms(1) assms(2) f] by (simp add: disagree_def)
  then show ?thesis by (auto simp: judge_def triage_def Let_def diff_pair_disagree_Nil)
qed

lemma lanes_report:
  assumes "tc_ok tc" "cpu_laws e" "memory_laws e view" "uc_laws api uview" "unicorn_implements isa_u api uview tc"
    and "if a_use_jit a then \<forall>j m. jit_implements isa_s e view run tc j m else seven_implements isa_s e view step tc"
    and "\<not> a_no_unicorn a" "\<not> a_no_seven a"
  shows "\<forall>jm. \<exists>s u jm'. compute (with_lanes e step run api eng) a tc jm = Inr (s, u, jm') \<and>
    reports True (isa_s (start_machine tc)) s \<and> reports False (isa_u (start_machine tc)) u"
  unfolding split_paired_All
proof (intro allI)
  fix j m
  have u: "reports False (isa_u (start_machine tc)) (fst (run_unicorn api tc))"
    by (rule run_unicorn_reports [OF assms(4,1,5)])
  obtain s jm' where "compute (with_lanes e step run api eng) a tc (j, m) = Inr (s, fst (run_unicorn api tc), jm')"
    "reports True (isa_s (start_machine tc)) s"
  proof (cases "a_use_jit a")
    case True
    then have "reports True (isa_s (start_machine tc)) (fst (run_seven_jit e run tc j m))"
      using assms(6) by (intro run_seven_jit_reports [OF assms(2,3,1)]) simp
    then show ?thesis using that True assms(7,8)
      by (cases "run_seven_jit e run tc j m") (simp add: compute_def with_lanes_def)
  next
    case False
    then have "reports True (isa_s (start_machine tc)) (run_seven e step tc)"
      using run_seven_reports [OF assms(2,3,1)] assms(6) by simp
    then show ?thesis using that False assms(7,8) by (simp add: compute_def with_lanes_def)
  qed
  then show "\<exists>s u jm'. compute (with_lanes e step run api eng) a tc (j, m) = Inr (s, u, jm') \<and>
      reports True (isa_s (start_machine tc)) s \<and> reports False (isa_u (start_machine tc)) u"
    using u by blast
qed

lemma lanes_decide:
  assumes "\<forall>jm. \<exists>s u jm'. compute eng a tc jm = Inr (s, u, jm') \<and>
      reports True (isa_s (start_machine tc)) s \<and> reports False (isa_u (start_machine tc)) u"
    and "tc_flags_mask tc AND NOT kCompareFlagsMask = 0"
  shows "engines_decide eng a tc (disagreeing isa_s isa_u tc)"
  unfolding engines_decide_def disagreeing_def using assms(1) judged_without_hardware [OF _ _ assms(2)] by blast

lemma lanes_round_kind:
  assumes "\<forall>jm. \<exists>s u jm'. compute eng a tc jm = Inr (s, u, jm') \<and>
      reports True (isa_s (start_machine tc)) s \<and> reports False (isa_u (start_machine tc)) u"
    and "tc_flags_mask tc AND NOT kCompareFlagsMask = 0" "reports True (isa_h (start_machine tc)) h"
  shows "round_kind eng a tc h (isa_kind tc (isa_s (start_machine tc)) (isa_u (start_machine tc)) (isa_h (start_machine tc)))"
  unfolding round_kind_def using assms(1) judged_kind [OF _ _ assms(3,2)] reports_ok [OF assms(3)] by blast

lemma nth_case_with_lanes: "nth_case (with_lanes e step run api eng) = nth_case eng"
  by (intro ext) (simp add: nth_case_def nth_generator_def new_generator_def with_lanes_def)

lemma generated_nth_case:
  assumes "families eng = kFamilies caps" "\<And>i bs. encode eng kCodeBase i = EncOk bs \<Longrightarrow> length bs \<le> 15"
  shows "tc_ok (nth_case eng seed k)" "tc_flags_mask (nth_case eng seed k) AND NOT kCompareFlagsMask = 0"
  unfolding nth_case_def assms(1) by (rule generated_case_ok, erule assms(2))+

lemma count_list_map_filter: "count_list (map f xs) y = length (filter (\<lambda>x. f x = y) xs)"
  by (induction xs) simp_all

text \<open>
  C4: A whole run without hardware counts as findings exactly the test cases on which the engines disagree. If
  the engine under test (the interpreter, or the JIT in every state its executor and memory may be in)
  implements one instruction set and Unicorn another, then all workers return, and the number of
  findings in the last line is the number of those among the requested cases, each worker's drawn from
  its own seed, on whose initial machine the two instruction sets differ in a compared part; and so does the
  shared counter of findings (modulo 2^32, being an int) however the workers' steps interleave.
\<close>
theorem run_counts_disagreements:
  assumes "\<not> o_use_hw opts" "\<not> o_no_unicorn opts" "\<not> o_no_seven opts"
    and "families eng = kFamilies caps" "\<And>i bs. encode eng kCodeBase i = EncOk bs \<Longrightarrow> length bs \<le> 15"
    and "cpu_laws e" "memory_laws e view" "uc_laws api uview"
    and "\<And>tc. tc_ok tc \<Longrightarrow> unicorn_implements isa_u api uview tc"
    and "\<And>tc. tc_ok tc \<Longrightarrow> if o_use_jit opts then \<forall>j m. jit_implements isa_s e view run tc j m
           else seven_implements isa_s e view step tc"
  shows "\<exists>ws. fuzz_run (with_lanes e step run api eng) env (launch hc exe opts) = Some ws \<and>
    (let n = (\<Sum>a \<leftarrow> launch hc exe opts. length (filter (\<lambda>k. disagreeing isa_s isa_u (nth_case eng (arg_seed a) k)) [0..<a_iterations a]))
     in finding_count (total_counters (map w_counters ws)) = n \<and>
        (\<forall>m. ends_with (start_pool (with_lanes e step run api eng) env hc exe opts) m \<longrightarrow> m_finding_count m = of_nat n))"
proof -
  have "\<exists>w. (case env (a_worker_id a) of (hw, j, clock) \<Rightarrow> run_worker (with_lanes e step run api eng) a hw j clock) = Some w \<and>
      finding_count (w_counters w) =
        length (filter (\<lambda>k. disagreeing isa_s isa_u (nth_case eng (arg_seed a) k)) [0..<a_iterations a])"
    if a: "a \<in> set (launch hc exe opts)" for a
  proof -
    obtain hw j clock where env: "env (a_worker_id a) = (hw, j, clock)" by (cases "env (a_worker_id a)")
    have fl: "\<not> a_use_hw a" "a_use_jit a = o_use_jit opts" "\<not> a_no_unicorn a" "\<not> a_no_seven a"
      using launch_fields(3) [OF a] launch_flags [OF a] assms(1-3) by simp_all
    have "engines_decide (with_lanes e step run api eng) a
        (nth_case (with_lanes e step run api eng) (mix_seed (a_seed a) (a_worker_id a)) k)
        (disagreeing isa_s isa_u (nth_case eng (arg_seed a) k))" for k
      unfolding nth_case_with_lanes arg_seed_def
      using generated_nth_case [of eng caps, OF assms(4,5)] assms(9,10) fl(2)
      by (intro lanes_decide lanes_report [OF _ assms(6-8) _ _ fl(3,4)]) simp_all
    from run_worker_counts [OF this fl(1)] show ?thesis by (simp add: env)
  qed
  then obtain ws where ws: "fuzz_run (with_lanes e step run api eng) env (launch hc exe opts) = Some ws"
    and "list_all2 (\<lambda>a w. finding_count (w_counters w) =
        length (filter (\<lambda>k. disagreeing isa_s isa_u (nth_case eng (arg_seed a) k)) [0..<a_iterations a])) (launch hc exe opts) ws"
    by (rule fuzz_run_all)
  then have "finding_count (total_counters (map w_counters ws)) =
      (\<Sum>a \<leftarrow> launch hc exe opts. length (filter (\<lambda>k. disagreeing isa_s isa_u (nth_case eng (arg_seed a) k)) [0..<a_iterations a]))"
    by (simp add: total_counters_def comp_def sum_list_map2)
  with pool_counters(1) [OF ws] ws show ?thesis by (intro exI [of _ ws]) (simp add: Let_def)
qed

text \<open>
  C1: A whole run with hardware counts exactly what the instruction sets disagree on. The engine under test,
  Unicorn and the processor each implement an instruction set, and the debug interface behaves as documented:
  each victim has a birth of its own (any process, thread and handles), each case brings any events that are
  passed over and then the exception the step ends in, and while a victim is given up no event need come, its
  last one not having been continued. Then all workers return, the findings counted are the generated cases on
  which the engine under test differs from the processor, the outliers those on which only Unicorn does,
  and no harness error is counted. However the workers' steps interleave, the shared counters end with these numbers.
\<close>
theorem run_with_hardware_is_exact:
  assumes "o_use_hw opts" "\<not> o_no_unicorn opts" "\<not> o_no_seven opts"
    and "families eng = kFamilies caps" "\<And>i bs. encode eng kCodeBase i = EncOk bs \<Longrightarrow> length bs \<le> 15"
    and "cpu_laws e" "memory_laws e view" "uc_laws api uview"
    and "\<And>tc. tc_ok tc \<Longrightarrow> unicorn_implements isa_u api uview tc"
    and "\<And>tc. tc_ok tc \<Longrightarrow> if o_use_jit opts then \<forall>j m. jit_implements isa_s e view run tc j m
           else seven_implements isa_s e view step tc"
    and "\<And>a. a \<in> set (launch hc exe opts) \<Longrightarrow>
           well_behaved isa_h (map (nth_case eng (arg_seed a)) [0..<a_iterations a]) (fst (env (a_worker_id a)))"
  shows "\<exists>ws. fuzz_run (with_lanes e step run api eng) env (launch hc exe opts) = Some ws \<and>
    (let kinds = (\<lambda>a. map (\<lambda>k. let tc = nth_case eng (arg_seed a) k; M = start_machine tc in isa_kind tc (isa_s M) (isa_u M) (isa_h M))
           [0..<a_iterations a]);
         n = (\<lambda>kind. \<Sum>a \<leftarrow> launch hc exe opts. count_list (kinds a) kind);
         counted = total_counters (map w_counters ws)
     in finding_count counted = n KFinding \<and> unicorn_outlier_count counted = n KOutlier \<and> hw_harness_errors counted = 0 \<and>
        (\<forall>m. ends_with (start_pool (with_lanes e step run api eng) env hc exe opts) m \<longrightarrow>
           m_finding_count m = of_nat (n KFinding) \<and> m_outlier_count m = of_nat (n KOutlier) \<and> m_harness_errors m = 0))"
proof -
  define d where "d = (\<lambda>a k. let tc = nth_case eng (arg_seed a) k; M = start_machine tc in isa_kind tc (isa_s M) (isa_u M) (isa_h M))"
  have gen: "tc_ok (nth_case eng seed k)" "tc_flags_mask (nth_case eng seed k) AND NOT kCompareFlagsMask = 0" for seed k
    by (rule generated_nth_case [OF assms(4)], erule assms(5))+
  have "\<exists>w. (case env (a_worker_id a) of (hw, j, clock) \<Rightarrow> run_worker (with_lanes e step run api eng) a hw j clock) = Some w \<and>
      finding_count (w_counters w) = count_list (map (d a) [0..<a_iterations a]) KFinding \<and>
      unicorn_outlier_count (w_counters w) = count_list (map (d a) [0..<a_iterations a]) KOutlier \<and>
      hw_harness_errors (w_counters w) = 0"
    if a: "a \<in> set (launch hc exe opts)" for a
  proof -
    obtain hw j clock where env: "env (a_worker_id a) = (hw, j, clock)" by (cases "env (a_worker_id a)")
    have fl: "a_use_hw a" "a_use_jit a = o_use_jit opts" "\<not> a_no_unicorn a" "\<not> a_no_seven a"
      using launch_fields(3) [OF a] launch_flags [OF a] assms(1-3) by simp_all
    obtain s where s: "ensure_ready hw = Some (None, s)"
      "serves (\<lambda>tc h. reports True (isa_h (start_machine tc)) h)
         (map (nth_case (with_lanes e step run api eng) (mix_seed (a_seed a) (a_worker_id a))) [0..<a_iterations a]) s"
      using well_behaved_serves [OF assms(11) [OF a]] gen(1) by (auto simp: env nth_case_with_lanes arg_seed_def)
    have "round_kind (with_lanes e step run api eng) a
        (nth_case (with_lanes e step run api eng) (mix_seed (a_seed a) (a_worker_id a)) k) h (d a k)"
      if "reports True (isa_h (start_machine (nth_case (with_lanes e step run api eng) (mix_seed (a_seed a) (a_worker_id a)) k))) h" for k h
      using gen assms(9,10) fl(2) that
      unfolding nth_case_with_lanes arg_seed_def d_def Let_def
      by (intro lanes_round_kind lanes_report [OF _ assms(6-8) _ _ fl(3,4)]) simp_all
    from run_worker_served [OF this fl(1) s] show ?thesis by (simp add: env count_list_map_filter)
  qed
  then obtain ws where ws: "fuzz_run (with_lanes e step run api eng) env (launch hc exe opts) = Some ws"
    "list_all2 (\<lambda>a w. finding_count (w_counters w) = count_list (map (d a) [0..<a_iterations a]) KFinding \<and>
      unicorn_outlier_count (w_counters w) = count_list (map (d a) [0..<a_iterations a]) KOutlier \<and>
      hw_harness_errors (w_counters w) = 0) (launch hc exe opts) ws"
    by (rule fuzz_run_all)
  have "sum_list (map (\<lambda>w. finding_count (w_counters w)) ws) =
      (\<Sum>a \<leftarrow> launch hc exe opts. count_list (map (d a) [0..<a_iterations a]) KFinding)"
    "sum_list (map (\<lambda>w. unicorn_outlier_count (w_counters w)) ws) =
      (\<Sum>a \<leftarrow> launch hc exe opts. count_list (map (d a) [0..<a_iterations a]) KOutlier)"
    using ws(2) by (auto intro!: sum_list_map2 elim!: list_all2_mono)
  moreover have "\<forall>w \<in> set ws. hw_harness_errors (w_counters w) = 0"
    using ws(2) by (auto simp: list_all2_conv_all_nth in_set_conv_nth)
  ultimately have "finding_count (total_counters (map w_counters ws)) =
      (\<Sum>a \<leftarrow> launch hc exe opts. count_list (map (d a) [0..<a_iterations a]) KFinding)"
    "unicorn_outlier_count (total_counters (map w_counters ws)) =
      (\<Sum>a \<leftarrow> launch hc exe opts. count_list (map (d a) [0..<a_iterations a]) KOutlier)"
    "hw_harness_errors (total_counters (map w_counters ws)) = 0"
    by (simp_all add: total_counters_def comp_def)
  with pool_counters(1,3,4) [OF ws(1)] ws(1) show ?thesis by (intro exI [of _ ws]) (simp add: d_def Let_def)
qed

lemma nop_agrees: "disagreeing isa isa tc = False"
  by (simp add: disagreeing_def)

definition bare_engines :: "'j engines" where
  "bare_engines = \<lparr>unicorn_lane = (\<lambda>tc. Inl []), interpreter_lane = (\<lambda>tc. Inl []), jit_lane = (\<lambda>j tc. Inl []),
     recycle = (\<lambda>j. j), families = kFamilies no_caps, encode = (\<lambda>ip i. EncErr), seeded = (\<lambda>s. sconst 0)\<rparr>"

definition jit_options :: options where
  "jit_options = default_options\<lparr>o_use_hw := False, o_use_jit := True\<rparr>"

theorem run_counts_disagreements_witness:
  "\<exists>ws. fuzz_run (with_lanes plain_engine nop_step nop_run plain_uc bare_engines)
      (\<lambda>w. (nop_session, ((), \<lambda>a. Some 0xCC), sconst 3)) (launch 8 ''C:/f.exe'' jit_options) = Some ws \<and>
    finding_count (total_counters (map w_counters ws)) = 0"
proof -
  have o: "\<not> o_use_hw jit_options" "\<not> o_no_unicorn jit_options" "\<not> o_no_seven jit_options" "o_use_jit jit_options"
    by (simp_all add: jit_options_def default_options_def)
  have e: "families bare_engines = kFamilies no_caps" "\<And>i bs. encode bare_engines kCodeBase i = EncOk bs \<Longrightarrow> length bs \<le> 15"
    by (simp_all add: bare_engines_def)
  have j: "if o_use_jit jit_options then \<forall>j m. jit_implements nop_isa plain_engine (\<lambda>m. m) nop_run tc j m
      else seven_implements nop_isa plain_engine (\<lambda>m. m) nop_step tc" if "tc_ok tc" for tc
    unfolding if_P [OF o(4)] by (intro allI) (simp add: nop_jit_implements [OF that])
  show ?thesis
    using run_counts_disagreements [where env = "\<lambda>w. (nop_session, ((), \<lambda>a. Some 0xCC), sconst 3)" and hc = 8
        and exe = "''C:/f.exe''", OF o(1-3) e plain_engine_laws plain_uc_laws nop_unicorn_implements j]
    by (auto simp: nop_agrees Let_def bare_engines_def)
qed

definition hw_options :: options where
  "hw_options = default_options\<lparr>o_iterations := 5, o_threads := 1\<rparr>"

text \<open>A processor on which every instruction is undefined: each case costs a victim.\<close>

definition ud_record :: exception_record where
  "ud_record = \<lparr>ExceptionCode = EXCEPTION_ILLEGAL_INSTRUCTION, NumberParameters = 0, ExceptionInformation = [], ExceptionAddress = 0\<rparr>"

definition event_of :: "nat \<Rightarrow> event_info \<Rightarrow> debug_event" where
  "event_of k x = \<lparr>dwProcessId = of_nat (100 + k), dwThreadId = of_nat (200 + k), event_info = x\<rparr>"

text \<open>The \<open>k\<close>-th victim has a process and a thread of its own; the step ends after an event that is passed
  over, and no event comes while the victim is drained.\<close>

definition demo_birth :: "nat \<Rightarrow> answer list" where
  "demo_birth k = [(Some (event_of k (CREATE_PROCESS None (Some (300 + k)) (Some (400 + k)))), id),
     (Some (event_of k (LOAD_DLL None)), id),
     (Some (event_of k (EXCEPTION (ud_record\<lparr>ExceptionCode := EXCEPTION_BREAKPOINT\<rparr>))), id)]"

definition ud_visit :: "nat \<Rightarrow> visit" where
  "ud_visit k = \<lparr>v_birth = demo_birth k, v_noise = [(Some (event_of k (LOAD_DLL None)), id)],
     v_event = event_of k (EXCEPTION ud_record), v_rec = ud_record, v_effect = id, v_drain = [(None, id)]\<rparr>"

definition ud_session :: "nat \<Rightarrow> hw" where
  "ud_session n = (demo_hw (demo_birth 0 @- windows True 0 (map ud_visit [0..<n]) @- sconst (None, id)))
     \<lparr>job := None, process := None, thread := None, ready := False\<rparr>"

lemma ud_visit_ok: "visit_ok (\<lambda>M. Inl Fault_ud) tc (ud_visit k)" "birth_ok (demo_birth k)"
proof -
  show b: "birth_ok (demo_birth k)"
    unfolding birth_ok_def demo_birth_def
    by (intro exI [of _ "[(Some (event_of k (CREATE_PROCESS None (Some (300 + k)) (Some (400 + k)))), id),
          (Some (event_of k (LOAD_DLL None)), id)]"]
        exI [of _ "event_of k (EXCEPTION (ud_record\<lparr>ExceptionCode := EXCEPTION_BREAKPOINT\<rparr>))"] exI [of _ id])
      (simp add: quiet_event_def gives_process_def is_exception_def is_exit_def is_breakpoint_def event_of_def kMaxUninterestingEvents_def)
  show "visit_ok (\<lambda>M. Inl Fault_ud) tc (ud_visit k)"
    using b by (simp add: visit_ok_def ud_visit_def drain_ok_def drain_end_def noise_def exception_of_def is_death_def event_of_def
        kMaxUninterestingEvents_def victim_implements_def implements_def exception_answer_def ud_record_def)
qed

lemma ud_well_behaved: "well_behaved (\<lambda>M. Inl Fault_ud) tcs (ud_session (length tcs))"
proof -
  have "stands False 0 (ud_session n)" for n by (simp add: stands_def ud_session_def demo_hw_def)
  moreover have "list_all2 (visit_ok (\<lambda>M. Inl Fault_ud)) tcs (map ud_visit [0..<length tcs])"
    by (simp add: list_all2_conv_all_nth ud_visit_ok)
  ultimately show ?thesis
    unfolding well_behaved_def
    by (intro exI [of _ "demo_birth 0"] exI [of _ "map ud_visit [0..<length tcs]"] exI [of _ "sconst (None, id)"])
      (simp add: ud_session_def demo_hw_def ud_visit_ok(2))
qed

text \<open>Five cases, each a finding.\<close>

theorem run_with_hardware_is_exact_witness:
  "\<exists>ws. fuzz_run (with_lanes plain_engine nop_step nop_run plain_uc bare_engines)
      (\<lambda>w. (ud_session 5, ((), \<lambda>a. Some 0xCC), sconst 3)) (launch 8 ''C:/f.exe'' hw_options) = Some ws \<and>
    finding_count (total_counters (map w_counters ws)) = 5 \<and> hw_harness_errors (total_counters (map w_counters ws)) = 0"
proof -
  have o: "o_use_hw hw_options" "\<not> o_no_unicorn hw_options" "\<not> o_no_seven hw_options" "\<not> o_use_jit hw_options"
    "unat (o_iterations hw_options) = 5"
    by (simp_all add: hw_options_def default_options_def)
  have e: "families bare_engines = kFamilies no_caps" "\<And>i bs. encode bare_engines kCodeBase i = EncOk bs \<Longrightarrow> length bs \<le> 15"
    by (simp_all add: bare_engines_def)
  have j: "if o_use_jit hw_options then \<forall>j m. jit_implements nop_isa plain_engine (\<lambda>m. m) nop_run tc j m
      else seven_implements nop_isa plain_engine (\<lambda>m. m) nop_step tc" if "tc_ok tc" for tc
    using nop_seven_implements [OF that] o(4) by simp
  have k: "isa_kind tc (nop_isa M) (nop_isa M) (Inl Fault_ud) = KFinding" for tc M
    by (simp add: isa_kind_def nop_isa_def)
  have l: "map a_iterations (launch 8 ''C:/f.exe'' hw_options) = [5]"
    unfolding launch_fields(2) by (simp add: hw_options_def default_options_def choose_threads_def shares_def)
  have n: "a_iterations a = 5" if "a \<in> set (launch 8 ''C:/f.exe'' hw_options)" for a
  proof -
    have "a_iterations a \<in> set (map a_iterations (launch 8 ''C:/f.exe'' hw_options))" using that by simp
    then show ?thesis unfolding l by simp
  qed
  have s: "well_behaved (\<lambda>M. Inl Fault_ud) (map (nth_case bare_engines (arg_seed a)) [0..<a_iterations a])
      (fst (ud_session 5, ((), \<lambda>a. Some 0xCC), sconst 3))" if "a \<in> set (launch 8 ''C:/f.exe'' hw_options)" for a
    using ud_well_behaved [of "map (nth_case bare_engines (arg_seed a)) [0..<a_iterations a]"] n [OF that] by simp
  have t: "(\<Sum>a \<leftarrow> launch 8 ''C:/f.exe'' hw_options. a_iterations a) = 5" unfolding launch_total o(5) by (rule refl)
  show ?thesis
    using run_with_hardware_is_exact [where env = "\<lambda>w. (ud_session 5, ((), \<lambda>a. Some 0xCC), sconst 3)" and hc = 8
        and exe = "''C:/f.exe''", OF o(1-3) e plain_engine_laws plain_uc_laws nop_unicorn_implements j s]
    by (auto simp: Let_def k count_list_map_filter t bare_engines_def)
qed

end
